(* ===== verification/Prelude.thy ===== *)
theory Prelude
  imports Main "HOL-Library.Word"
begin

unbundle bit_operations_syntax

text \<open>
  Shared vocabulary of the development: the C integer types of the i386 target as
  machine words, the ways in which kernel code can fail to return as values of an
  \<open>error\<close> type, sequencing of fallible steps, the counting loops of the source as
  terminating functions, and generic lemmas on words and lists.
\<close>

section \<open>Types\<close>

type_synonym u8 = "8 word"
type_synonym u16 = "16 word"
type_synonym u32 = "32 word"
type_synonym u64 = "64 word"

text \<open>
  How a kernel function can fail to return: \<open>abortk()\<close>, a failed \<open>assertk\<close> or
  \<open>assertf\<close>, an access outside every object of the model, a lock that the single
  running task would wait for forever, or a loop that never ends.
\<close>

datatype error = Abortk | AssertFail | WildAccess | Deadlock | Diverges

type_synonym 'a res = "error + 'a"

definition bindR :: "'a res \<Rightarrow> ('a \<Rightarrow> 'b res) \<Rightarrow> 'b res" where
  "bindR m f = (case m of Inl e \<Rightarrow> Inl e | Inr x \<Rightarrow> f x)"

named_theorems res_simps
named_theorems word_facts

lemma bindR_Inr [simp]: "bindR (Inr x) f = f x"
  by (simp add: bindR_def)

lemma bindR_Inl [simp]: "bindR (Inl e) f = Inl e"
  by (simp add: bindR_def)

lemma bindR_eq_Inr [res_simps]: "bindR m f = Inr y \<longleftrightarrow> (\<exists>x. m = Inr x \<and> f x = Inr y)"
  by (cases m) auto

lemma bindR_eq_Inl [res_simps]:
  "bindR m f = Inl e \<longleftrightarrow> m = Inl e \<or> (\<exists>x. m = Inr x \<and> f x = Inl e)"
  by (cases m) auto

lemma bindR_cong [fundef_cong]:
  "m = m' \<Longrightarrow> (\<And>x. m' = Inr x \<Longrightarrow> f x = f' x) \<Longrightarrow> bindR m f = bindR m' f'"
  by (cases m') auto

lemma bindR_assoc: "bindR (bindR m f) g = bindR m (\<lambda>x. bindR (f x) g)"
  by (cases m) auto

section \<open>Ring indices\<close>

lemma ring_index:
  "a < n \<Longrightarrow> k \<le> n \<Longrightarrow> (a + k) mod n = (if a + k < n then a + k else a + k - n)" for n :: nat
  by (simp add: mod_if)

lemma ring_index_inj:
  "a < n \<Longrightarrow> j < n \<Longrightarrow> k < n \<Longrightarrow> (a + j) mod n = (a + k) mod n \<longleftrightarrow> j = k" for n :: nat
  by (auto simp: ring_index)

lemma ring_index_Suc: "((a + 1) mod n + k) mod n = (a + (k + 1)) mod n" for n :: nat
  by (simp add: mod_simps)

section \<open>Counting loops\<close>

text \<open>
  \<open>for (i = start; i < lim; i += step) body\<close> on an unsigned 32-bit counter. When the
  increment wraps around the C loop starts again from a small counter and never ends,
  which is the value \<open>Inl Diverges\<close>.
\<close>

function for_up :: "u32 \<Rightarrow> u32 \<Rightarrow> u32 \<Rightarrow> (u32 \<Rightarrow> 's \<Rightarrow> 's res) \<Rightarrow> 's \<Rightarrow> 's res" where
  "for_up i lim step body s =
     (if i < lim
      then bindR (body i s)
             (\<lambda>s'. if i < i + step then for_up (i + step) lim step body s' else Inl Diverges)
      else Inr s)"
  by pat_completeness auto
termination
  by (relation "measure (\<lambda>(i, lim, step, body, s). unat lim - unat i)")
    (auto simp: word_less_nat_alt)

declare for_up.simps [simp del]

lemma for_up_done: "\<not> i < lim \<Longrightarrow> for_up i lim step body s = Inr s"
  by (subst for_up.simps) simp

lemma for_up_step:
  "i < lim \<Longrightarrow> i < i + step \<Longrightarrow> body i s = Inr s' \<Longrightarrow>
   for_up i lim step body s = for_up (i + step) lim step body s'"
  by (subst for_up.simps) simp

text \<open>
  The loop rule: an invariant indexed by the counter that every iteration carries to the
  next counter holds at the end, where the counter has reached the limit.
\<close>

lemma for_up_rule:
  assumes "I i s"
    and step: "\<And>j t. i \<le> j \<Longrightarrow> j < lim \<Longrightarrow> I j t \<Longrightarrow>
      j < j + step \<and> (\<exists>t'. body j t = Inr t' \<and> I (j + step) t')"
  shows "\<exists>t j. for_up i lim step body s = Inr t \<and> I j t \<and> i \<le> j \<and> lim \<le> j"
  using assms
proof (induction i lim step body s rule: for_up.induct)
  case (1 i lim step body s)
  show ?case
  proof (cases "i < lim")
    case True
    with "1.prems" obtain s' where s': "i < i + step" "body i s = Inr s'" "I (i + step) s'"
      by blast
    have "\<exists>t j. for_up (i + step) lim step body s' = Inr t \<and> I j t \<and> i + step \<le> j \<and> lim \<le> j"
    proof (rule "1.IH" [OF True s'(2,1,3)])
      fix j t
      assume "i + step \<le> j" "j < lim" "I j t"
      moreover from this s'(1) have "i \<le> j" by simp
      ultimately show "j < j + step \<and> (\<exists>t'. body j t = Inr t' \<and> I (j + step) t')"
        using "1.prems"(2) by blast
    qed
    then show ?thesis
      using for_up_step [OF True s'(1), of body s s'] s' by fastforce
  next
    case False
    then show ?thesis
      using "1.prems"(1) for_up_done [OF False] by (fastforce simp: not_less)
  qed
qed

text \<open>A loop over a list of objects whose body may fail.\<close>

primrec foldR :: "('x \<Rightarrow> 's \<Rightarrow> 's res) \<Rightarrow> 'x list \<Rightarrow> 's \<Rightarrow> 's res" where
  "foldR body [] s = Inr s"
| "foldR body (x # xs) s = bindR (body x s) (\<lambda>s'. foldR body xs s')"

lemma foldR_append: "foldR body (xs @ ys) s = bindR (foldR body xs s) (foldR body ys)"
  by (induction xs arbitrary: s) (auto simp: bindR_assoc)

lemma foldR_rule:
  assumes "I [] s"
    and "\<And>done x t rest. xs = done @ x # rest \<Longrightarrow> I done t \<Longrightarrow> \<exists>t'. body x t = Inr t' \<and> I (done @ [x]) t'"
  shows "\<exists>t. foldR body xs s = Inr t \<and> I xs t"
proof -
  have "\<exists>t. foldR body ys s = Inr t \<and> I ys t" if "xs = ys @ zs" for ys zs
    using that
  proof (induction ys arbitrary: zs rule: rev_induct)
    case Nil
    then show ?case using assms(1) by simp
  next
    case (snoc y ys)
    then obtain t where t: "foldR body ys s = Inr t" "I ys t" by fastforce
    with assms(2) [of ys y zs t] snoc.prems show ?case by (auto simp: foldR_append)
  qed
  then show ?thesis by simp
qed

lemma low_byte_one:
  fixes c :: u32
  assumes "c < 256"
  shows "(c AND 0xffffff00) OR 1 = 1"
proof -
  have "unat c < 256" using assms by (simp add: word_less_nat_alt)
  then have c: "take_bit 8 c = c"
    by (simp add: word_unat_eq_iff unsigned_take_bit_eq take_bit_nat_eq_self)
  have m: "(0xffffff00 :: u32) = NOT (mask 8)" by (simp add: mask_eq_exp_minus_1)
  have "take_bit 8 c AND 0xffffff00 = 0"
    by (rule bit_word_eqI) (simp only: m, auto simp: bit_simps)
  then show ?thesis by (simp add: c)
qed

lemma unat_drop_bit32: "unat (drop_bit n v) = unat v div 2 ^ n" for v :: u32
proof -
  have "take_bit 32 (unat v) = unat v"
    using unsigned_less [of v, where 'a = nat] by (simp add: take_bit_nat_eq_self)
  then show ?thesis by (simp only: unsigned_drop_bit_eq) (simp add: drop_bit_eq_div)
qed

lemma unat_bound32: "unat v < 4294967296" for v :: u32
  using unsigned_less [of v, where 'a = nat] by simp

lemma bytes_of_word32:
  fixes v :: u32
  shows "ucast (ucast v :: u8) OR push_bit 8 (ucast (ucast (drop_bit 8 v) :: u8)) OR
     push_bit 16 (ucast (ucast (drop_bit 16 v) :: u8)) OR
     push_bit 24 (ucast (ucast (drop_bit 24 v) :: u8)) = v"
    (is "?l = v")
proof (rule bit_word_eqI)
  fix n
  assume "n < LENGTH(32)"
  then consider "n < 8" | "8 \<le> n" "n < 16" | "16 \<le> n" "n < 24" | "24 \<le> n" "n < 32"
    by fastforce
  then show "bit ?l n = bit v n"
    by cases (auto simp: bit_simps)
qed

end
