(* ===== verification/Machine.thy ===== *)
theory Machine
  imports Prelude
begin

unbundle bit_operations_syntax

text \<open>
  The part of an i386 machine the kernel relies on: byte-addressed physical memory (the
  kernel runs identity mapped, so a kernel pointer is a physical address), little-endian
  32-bit loads and stores, the translation lookaside buffer and \<open>invlpg\<close>, the control
  registers of paging, the interrupt flag with the kernel's nesting counter, and the
  time stamp counter as a stream of readings.
\<close>

section \<open>Address constants\<close>

text \<open>Constants of \<open>syslib/addrs.h\<close>, \<open>syslib/common.h\<close> and \<open>kernel/memory.h\<close>.\<close>

definition PAGE_SIZE :: u32 where "PAGE_SIZE = 0x1000"
definition SECTOR_SIZE :: u32 where "SECTOR_SIZE = 512"
definition PAGEABLE_PAGES :: nat where "PAGEABLE_PAGES = 33"
definition PAGING_AREA_MIN_PADDR :: u32 where "PAGING_AREA_MIN_PADDR = 0x100000"
definition PAGING_AREA_MAX_PADDR :: u32 where
  "PAGING_AREA_MAX_PADDR = PAGING_AREA_MIN_PADDR + PAGE_SIZE * of_nat PAGEABLE_PAGES"
definition VGA_TEXT_PADDR :: u32 where "VGA_TEXT_PADDR = 0xb8000"
definition PROCESS_VADDR :: u32 where "PROCESS_VADDR = 0x1000000"
definition PROCESS_STACK_VADDR :: u32 where "PROCESS_STACK_VADDR = 0xeffffff0"
definition KERNEL_SIZE :: u32 where "KERNEL_SIZE = 0x400000"
definition USER_STACK_SIZE :: u32 where "USER_STACK_SIZE = 0x1000"

definition PE_P :: u32 where "PE_P = 1"
definition PE_RW :: u32 where "PE_RW = 2"
definition PE_US :: u32 where "PE_US = 4"
definition PE_PCD :: u32 where "PE_PCD = 0x10"
definition PE_D :: u32 where "PE_D = 0x40"
definition PE_BASE_ADDR_MASK :: u32 where "PE_BASE_ADDR_MASK = 0xfffff000"
definition PAGE_DIRECTORY_BITS :: nat where "PAGE_DIRECTORY_BITS = 22"
definition PAGE_TABLE_BITS :: nat where "PAGE_TABLE_BITS = 12"
definition PAGE_DIRECTORY_MASK :: u32 where "PAGE_DIRECTORY_MASK = 0xffc00000"
definition PAGE_TABLE_MASK :: u32 where "PAGE_TABLE_MASK = 0x003ff000"
definition MODE_MASK :: u32 where "MODE_MASK = 0x000003ff"

lemmas addr_defs = PAGE_SIZE_def SECTOR_SIZE_def PAGEABLE_PAGES_def PAGING_AREA_MIN_PADDR_def
  PAGING_AREA_MAX_PADDR_def VGA_TEXT_PADDR_def PROCESS_VADDR_def PROCESS_STACK_VADDR_def
  KERNEL_SIZE_def USER_STACK_SIZE_def

lemmas pe_defs = PE_P_def PE_RW_def PE_US_def PE_PCD_def PE_D_def PE_BASE_ADDR_MASK_def
  PAGE_DIRECTORY_BITS_def PAGE_TABLE_BITS_def PAGE_DIRECTORY_MASK_def PAGE_TABLE_MASK_def
  MODE_MASK_def

section \<open>Physical memory\<close>

type_synonym pmem_t = "u32 \<Rightarrow> u8"

definition read32 :: "pmem_t \<Rightarrow> u32 \<Rightarrow> u32" where
  "read32 m a = ucast (m a) OR push_bit 8 (ucast (m (a + 1))) OR
     push_bit 16 (ucast (m (a + 2))) OR push_bit 24 (ucast (m (a + 3)))"

definition write32 :: "pmem_t \<Rightarrow> u32 \<Rightarrow> u32 \<Rightarrow> pmem_t" where
  "write32 m a v = m(a := ucast v, a + 1 := ucast (drop_bit 8 v),
     a + 2 := ucast (drop_bit 16 v), a + 3 := ucast (drop_bit 24 v))"

definition aligned4 :: "u32 \<Rightarrow> bool" where
  "aligned4 a \<longleftrightarrow> unat a mod 4 = 0"

definition page_aligned :: "u32 \<Rightarrow> bool" where
  "page_aligned a \<longleftrightarrow> unat a mod 4096 = 0"

definition in_page :: "u32 \<Rightarrow> u32 \<Rightarrow> bool" where
  "in_page p a \<longleftrightarrow> unat p \<le> unat a \<and> unat a < unat p + 4096"

lemma read32_write32_same [simp]: "read32 (write32 m a v) a = v"
  by (simp add: read32_def write32_def bytes_of_word32)

lemma write32_other: "x \<noteq> a \<Longrightarrow> x \<noteq> a + 1 \<Longrightarrow> x \<noteq> a + 2 \<Longrightarrow> x \<noteq> a + 3 \<Longrightarrow> write32 m a v x = m x"
  by (simp add: write32_def)

lemma aligned4_bound: "aligned4 a \<Longrightarrow> unat a + 3 < 2 ^ 32"
proof -
  assume "aligned4 a"
  then have "unat a mod 4 = 0" by (simp add: aligned4_def)
  moreover have "unat a < 4294967296" using unsigned_less [of a] by simp
  ultimately have "unat a + 3 < 4294967296" by presburger
  then show ?thesis by simp
qed

lemma unat_add_small:
  fixes a :: u32
  assumes "unat a + k < 2 ^ 32"
  shows "unat (a + of_nat k) = unat a + k"
  using assms by (simp add: unat_word_ariths unat_of_nat)

lemma aligned4_unat_add:
  assumes "aligned4 a"
  shows "unat (a + 1) = unat a + 1" "unat (a + 2) = unat a + 2" "unat (a + 3) = unat a + 3"
  using aligned4_bound [OF assms] unat_add_small [of a 1] unat_add_small [of a 2]
    unat_add_small [of a 3] by auto

lemma aligned4_cells_disjoint:
  assumes "aligned4 a" "aligned4 b" "a \<noteq> b"
  shows "unat a + 3 < unat b \<or> unat b + 3 < unat a"
proof -
  from assms(3) have "unat a \<noteq> unat b" by (simp add: word_unat_eq_iff)
  with assms(1,2) show ?thesis unfolding aligned4_def by presburger
qed

lemma read32_cong:
  "m a = m' a \<Longrightarrow> m (a + 1) = m' (a + 1) \<Longrightarrow> m (a + 2) = m' (a + 2) \<Longrightarrow> m (a + 3) = m' (a + 3)
   \<Longrightarrow> read32 m a = read32 m' a"
  by (simp add: read32_def)

lemma read32_write32_other:
  assumes "aligned4 a" "aligned4 b" "a \<noteq> b"
  shows "read32 (write32 m a v) b = read32 m b"
proof -
  note d = aligned4_cells_disjoint [OF assms] aligned4_unat_add [OF assms(1)]
    aligned4_unat_add [OF assms(2)]
  have ne: "x \<noteq> y" if "unat x \<noteq> unat y" for x y :: u32
    using that by auto
  show ?thesis
    by (rule read32_cong; rule write32_other; rule ne; insert d; linarith)
qed

lemma write32_outside:
  assumes "aligned4 a" "unat x < unat a \<or> unat a + 3 < unat x"
  shows "write32 m a v x = m x"
proof -
  note d = aligned4_unat_add [OF assms(1)]
  have ne: "x \<noteq> y" if "unat x \<noteq> unat y" for x y :: u32
    using that by auto
  show ?thesis
    by (rule write32_other; rule ne; insert d assms(2); linarith)
qed

section \<open>Byte ranges\<close>

text \<open>\<open>n\<close> bytes of memory from \<open>paddr\<close> on, and bytes stored from \<open>paddr\<close> on.\<close>

definition load_bytes :: "pmem_t \<Rightarrow> u32 \<Rightarrow> nat \<Rightarrow> u8 list" where
  "load_bytes m paddr n = map (\<lambda>i. m (paddr + of_nat i)) [0..<n]"

definition store_bytes :: "u32 \<Rightarrow> u8 list \<Rightarrow> pmem_t \<Rightarrow> pmem_t" where
  "store_bytes paddr bs m =
     (\<lambda>a. if unat (a - paddr) < length bs then bs ! unat (a - paddr) else m a)"

lemma length_load_bytes [simp]: "length (load_bytes m a n) = n"
  by (simp add: load_bytes_def)

lemma nth_load_bytes [simp]: "i < n \<Longrightarrow> load_bytes m a n ! i = m (a + of_nat i)"
  by (simp add: load_bytes_def)

lemma load_bytes_0 [simp]: "load_bytes m a 0 = []"
  by (simp add: load_bytes_def)

lemma load_bytes_Suc: "load_bytes m a (Suc n) = m a # load_bytes m (a + 1) n"
  by (rule nth_equalityI) (auto simp: nth_Cons' algebra_simps of_nat_diff)

lemma load_bytes_append: "load_bytes m a (n + k) = load_bytes m a n @ load_bytes m (a + of_nat n) k"
  by (rule nth_equalityI) (auto simp: nth_append of_nat_diff)

lemma load_bytes_eq: "(\<And>i. i < n \<Longrightarrow> m' (a + of_nat i) = m (b + of_nat i)) \<Longrightarrow> load_bytes m' a n = load_bytes m b n"
  by (simp add: load_bytes_def)

lemma store_bytes_Nil [simp]: "store_bytes a [] m = m"
  by (simp add: store_bytes_def)

lemma unat_of_nat_small: "i < 4294967296 \<Longrightarrow> unat (of_nat i :: u32) = i"
  by (simp add: unat_of_nat)

lemma store_bytes_in: "i < length bs \<Longrightarrow> i < 4294967296 \<Longrightarrow> store_bytes a bs m (a + of_nat i) = bs ! i"
  by (simp add: store_bytes_def unat_of_nat_small)

lemma store_bytes_Cons:
  assumes "length bs < 4294967295"
  shows "store_bytes a (b # bs) m = store_bytes (a + 1) bs (m(a := b))"
proof
  fix x
  show "store_bytes a (b # bs) m x = store_bytes (a + 1) bs (m(a := b)) x"
  proof (cases "x = a")
    case True
    have "a - (a + 1) = (4294967295 :: u32)" by simp
    then have "unat (a - (a + 1)) = unat (4294967295 :: u32)" by (rule arg_cong)
    also have "\<dots> = 4294967295" by simp
    finally have "unat (a - (a + 1)) = 4294967295" .
    with True assms show ?thesis by (simp add: store_bytes_def)
  next
    case False
    then have "unat (x - a) \<noteq> 0" by (simp add: unat_eq_0)
    moreover have "unat (x - (a + 1)) = unat (x - a) - 1"
    proof -
      have "x - (a + 1) = (x - a) - 1" by simp
      then show ?thesis using False by (metis eq_iff_diff_eq_0 unat_minus_one)
    qed
    ultimately show ?thesis using False by (auto simp: store_bytes_def nth_Cons')
  qed
qed

lemma load_store_same:
  assumes "length bs = n" "n \<le> 4294967296"
  shows "load_bytes (store_bytes a bs m) a n = bs"
  by (rule nth_equalityI) (use assms in \<open>auto simp: store_bytes_in\<close>)

section \<open>Machine state\<close>

text \<open>
  \<open>tlb\<close> maps a virtual page number to the page table entry cached for it.
  \<open>invlpg_slot\<close> is the address of the stack slot in which the compiler keeps the
  argument of \<open>invalidate_page\<close>; \<open>tsc\<close> gives the successive readings of the time
  stamp counter and \<open>tsc_pos\<close> how many were taken. The last fields are the interrupt
  masks of the two 8259 controllers, the stack of the task state segment and the
  calibrated clock rate.
\<close>

record machine =
  pmem :: pmem_t
  tlb :: "u32 \<Rightarrow> u32 option"
  cr2 :: u32
  cr3 :: u32
  invlpg_slot :: u32
  nointerrupt_count_val :: u32
  intr_flag :: bool
  tsc :: "nat \<Rightarrow> u64"
  tsc_pos :: nat
  pic_master_data :: u8
  pic_slave_data :: u8
  tss_ss0 :: u32
  tss_esp0 :: u32
  cpu_mhz :: u32

definition vpn :: "u32 \<Rightarrow> u32" where
  "vpn vaddr = drop_bit 12 vaddr"

text \<open>
  \<open>invlpg %0\<close> with the operand \<open>"m"(vaddr)\<close>: the memory operand is the variable
  \<open>vaddr\<close> itself, so the page that holds the variable is the one invalidated.
\<close>

definition invalidate_page :: "u32 \<Rightarrow> 'a machine_scheme \<Rightarrow> 'a machine_scheme" where
  "invalidate_page vaddr s = s\<lparr>tlb := (tlb s)(vpn (invlpg_slot s) := None)\<rparr>"

definition set_page_directory :: "u32 \<Rightarrow> 'a machine_scheme \<Rightarrow> 'a machine_scheme" where
  "set_page_directory pagedir s = s\<lparr>cr3 := pagedir, tlb := (\<lambda>_. None)\<rparr>"

definition load_current_page_directory :: "'a machine_scheme \<Rightarrow> u32" where
  "load_current_page_directory s = cr3 s"

definition load_page_fault_addr :: "'a machine_scheme \<Rightarrow> u32" where
  "load_page_fault_addr s = cr2 s"

definition read_cpu_ticks :: "'a machine_scheme \<Rightarrow> u64 \<times> 'a machine_scheme" where
  "read_cpu_ticks s = (tsc s (tsc_pos s), s\<lparr>tsc_pos := tsc_pos s + 1\<rparr>)"

section \<open>Uninterruptable sections\<close>

definition interrupts_disable :: "'a machine_scheme \<Rightarrow> 'a machine_scheme" where
  "interrupts_disable s = s\<lparr>intr_flag := False\<rparr>"

definition interrupts_enable :: "'a machine_scheme \<Rightarrow> 'a machine_scheme" where
  "interrupts_enable s = s\<lparr>intr_flag := True\<rparr>"

definition nointerrupt_enter :: "'a machine_scheme \<Rightarrow> 'a machine_scheme" where
  "nointerrupt_enter s =
     (let s = interrupts_disable s
      in s\<lparr>nointerrupt_count_val := nointerrupt_count_val s + 1\<rparr>)"

definition nointerrupt_leave :: "'a machine_scheme \<Rightarrow> 'a machine_scheme" where
  "nointerrupt_leave s =
     (let s = s\<lparr>nointerrupt_count_val := nointerrupt_count_val s - 1\<rparr>
      in if nointerrupt_count_val s = 0 then interrupts_enable s else s)"

definition nointerrupt_leave_delayed :: "'a machine_scheme \<Rightarrow> 'a machine_scheme res" where
  "nointerrupt_leave_delayed s =
     (let s = s\<lparr>nointerrupt_count_val := nointerrupt_count_val s - 1\<rparr>
      in if nointerrupt_count_val s = 0 then Inr s else Inl AssertFail)"

definition nointerrupt_count :: "'a machine_scheme \<Rightarrow> u32" where
  "nointerrupt_count s = nointerrupt_count_val s"

text \<open>
  Between tasks the interrupt flag is set exactly when no uninterruptable section is
  open. In such a state a balanced section changes nothing.
\<close>

definition intr_consistent :: "'a machine_scheme \<Rightarrow> bool" where
  "intr_consistent s \<longleftrightarrow> intr_flag s = (nointerrupt_count_val s = 0)"

lemma nointerrupt_enter_fields [simp]:
  "pmem (nointerrupt_enter s) = pmem s" "tlb (nointerrupt_enter s) = tlb s"
  "cr2 (nointerrupt_enter s) = cr2 s" "cr3 (nointerrupt_enter s) = cr3 s"
  "invlpg_slot (nointerrupt_enter s) = invlpg_slot s"
  "tsc (nointerrupt_enter s) = tsc s" "tsc_pos (nointerrupt_enter s) = tsc_pos s"
  "nointerrupt_count_val (nointerrupt_enter s) = nointerrupt_count_val s + 1"
  "pic_master_data (nointerrupt_enter s) = pic_master_data s"
  "pic_slave_data (nointerrupt_enter s) = pic_slave_data s"
  "tss_ss0 (nointerrupt_enter s) = tss_ss0 s" "tss_esp0 (nointerrupt_enter s) = tss_esp0 s"
  "cpu_mhz (nointerrupt_enter s) = cpu_mhz s"
  "machine.more (nointerrupt_enter s) = machine.more s"
  by (simp_all add: nointerrupt_enter_def interrupts_disable_def Let_def)

lemma nointerrupt_leave_fields [simp]:
  "pmem (nointerrupt_leave s) = pmem s" "tlb (nointerrupt_leave s) = tlb s"
  "cr2 (nointerrupt_leave s) = cr2 s" "cr3 (nointerrupt_leave s) = cr3 s"
  "invlpg_slot (nointerrupt_leave s) = invlpg_slot s"
  "tsc (nointerrupt_leave s) = tsc s" "tsc_pos (nointerrupt_leave s) = tsc_pos s"
  "nointerrupt_count_val (nointerrupt_leave s) = nointerrupt_count_val s - 1"
  "pic_master_data (nointerrupt_leave s) = pic_master_data s"
  "pic_slave_data (nointerrupt_leave s) = pic_slave_data s"
  "tss_ss0 (nointerrupt_leave s) = tss_ss0 s" "tss_esp0 (nointerrupt_leave s) = tss_esp0 s"
  "cpu_mhz (nointerrupt_leave s) = cpu_mhz s"
  "machine.more (nointerrupt_leave s) = machine.more s"
  by (simp_all add: nointerrupt_leave_def interrupts_enable_def Let_def)

lemma nointerrupt_section_identity:
  "intr_consistent s \<Longrightarrow> nointerrupt_leave (nointerrupt_enter s) = s"
  by (cases s) (auto simp: intr_consistent_def nointerrupt_leave_def nointerrupt_enter_def
      interrupts_enable_def interrupts_disable_def Let_def)

lemma nointerrupt_enter_consistent:
  "nointerrupt_count_val s + 1 \<noteq> 0 \<Longrightarrow> intr_consistent (nointerrupt_enter s)"
  by (simp add: intr_consistent_def nointerrupt_enter_def interrupts_disable_def Let_def)

lemma nointerrupt_leave_consistent:
  "nointerrupt_count_val s \<noteq> 0 \<Longrightarrow> intr_consistent s \<Longrightarrow> intr_consistent (nointerrupt_leave s)"
  by (simp add: intr_consistent_def nointerrupt_leave_def interrupts_enable_def Let_def)

lemma invalidate_page_fields [simp]:
  "pmem (invalidate_page v s) = pmem s" "cr2 (invalidate_page v s) = cr2 s"
  "cr3 (invalidate_page v s) = cr3 s" "invlpg_slot (invalidate_page v s) = invlpg_slot s"
  "tsc (invalidate_page v s) = tsc s" "tsc_pos (invalidate_page v s) = tsc_pos s"
  "nointerrupt_count_val (invalidate_page v s) = nointerrupt_count_val s"
  "intr_flag (invalidate_page v s) = intr_flag s"
  "machine.more (invalidate_page v s) = machine.more s"
  by (simp_all add: invalidate_page_def)

end
