(* ===== verification/Pic.thy ===== *)
theory Pic
  imports Machine
begin

unbundle bit_operations_syntax

text \<open>
  The interrupt masks of the cascaded 8259 controllers
  (\<open>kernel/hardware/intctl_8259.c\<close>). Outside the initialisation sequence a read or a
  write of a data port accesses the mask register of its controller.
\<close>

definition IRQ_TIMER :: u8 where "IRQ_TIMER = 0"
definition IRQ_KEYBOARD :: u8 where "IRQ_KEYBOARD = 1"
definition IRQ_CASCADE :: u8 where "IRQ_CASCADE = 2"
definition IRQ_MASTER_LOWEST_PRIORITY :: u8 where "IRQ_MASTER_LOWEST_PRIORITY = 7"
definition IRQ_SLAVE_START :: u8 where "IRQ_SLAVE_START = 8"

definition IRQS_TO_ENABLE :: u16 where
  "IRQS_TO_ENABLE = push_bit 2 1 OR push_bit 7 1 OR push_bit 0 1 OR push_bit 1 1 OR
     push_bit 5 1 OR push_bit 9 1 OR push_bit 10 1 OR push_bit 11 1"

definition pic_irq_bit_single :: "u8 \<Rightarrow> u8" where
  "pic_irq_bit_single irq =
     (if irq < IRQ_SLAVE_START then push_bit (unat irq) 1
      else push_bit (unat (irq - IRQ_SLAVE_START)) 1)"

definition pic_mask_irq :: "u8 \<Rightarrow> 'a machine_scheme \<Rightarrow> 'a machine_scheme" where
  "pic_mask_irq irq s =
     (if irq < IRQ_SLAVE_START
      then s\<lparr>pic_master_data := pic_master_data s OR pic_irq_bit_single irq\<rparr>
      else s\<lparr>pic_slave_data := pic_slave_data s OR pic_irq_bit_single irq\<rparr>)"

definition pic_unmask_irq :: "u8 \<Rightarrow> 'a machine_scheme \<Rightarrow> 'a machine_scheme" where
  "pic_unmask_irq irq s =
     (if irq < IRQ_SLAVE_START
      then s\<lparr>pic_master_data := pic_master_data s AND NOT (pic_irq_bit_single irq)\<rparr>
      else s\<lparr>pic_slave_data := pic_slave_data s AND NOT (pic_irq_bit_single irq)\<rparr>)"

definition pic_get_mask :: "'a machine_scheme \<Rightarrow> u16" where
  "pic_get_mask s =
     push_bit (unat IRQ_SLAVE_START) (ucast (pic_slave_data s)) OR ucast (pic_master_data s)"

definition pic_set_mask :: "u16 \<Rightarrow> 'a machine_scheme \<Rightarrow> 'a machine_scheme" where
  "pic_set_mask m s =
     s\<lparr>pic_master_data := ucast m,
       pic_slave_data := ucast (drop_bit (unat IRQ_SLAVE_START) m)\<rparr>"

lemma pic_get_set_mask: "pic_get_mask (pic_set_mask m s) = m"
proof (rule bit_word_eqI)
  fix n
  assume "n < LENGTH(16)"
  then consider "n < 8" | "8 \<le> n" "n < 16" by fastforce
  then show "bit (pic_get_mask (pic_set_mask m s)) n = bit m n"
    by cases (auto simp: pic_get_mask_def pic_set_mask_def IRQ_SLAVE_START_def bit_simps)
qed

lemma pic_set_get_mask: "pic_set_mask (pic_get_mask s) s = s"
proof -
  have "ucast (pic_get_mask s) = pic_master_data s"
    by (rule bit_word_eqI) (auto simp: pic_get_mask_def IRQ_SLAVE_START_def bit_simps)
  moreover have "ucast (drop_bit 8 (pic_get_mask s)) = pic_slave_data s"
    by (rule bit_word_eqI)
      (auto simp: pic_get_mask_def IRQ_SLAVE_START_def bit_simps dest: bit_imp_le_length)
  ultimately show ?thesis by (simp add: pic_set_mask_def IRQ_SLAVE_START_def)
qed

text \<open>An interrupt service routine masks its line on entry and unmasks it on exit.\<close>

lemma bit_pic_get_mask:
  assumes "n < 16"
  shows "bit (pic_get_mask s) n \<longleftrightarrow>
    (if n < 8 then bit (pic_master_data s) n else bit (pic_slave_data s) (n - 8))"
  using assms
  by (auto simp: pic_get_mask_def IRQ_SLAVE_START_def bit_simps dest: bit_imp_le_length)

lemma pic_mask_irq_bit:
  assumes "unat irq < 16" "n < 16"
  shows "bit (pic_get_mask (pic_mask_irq irq s)) n \<longleftrightarrow> n = unat irq \<or> bit (pic_get_mask s) n"
proof (cases "irq < 8")
  case True
  then show ?thesis
    using assms by (auto simp: bit_pic_get_mask pic_mask_irq_def pic_irq_bit_single_def
        IRQ_SLAVE_START_def bit_simps word_less_nat_alt)
next
  case False
  then have "unat (irq - 8) = unat irq - 8"
    by (simp add: unat_sub word_le_nat_alt not_less)
  with False show ?thesis
    using assms by (auto simp: bit_pic_get_mask pic_mask_irq_def pic_irq_bit_single_def
        IRQ_SLAVE_START_def bit_simps word_less_nat_alt)
qed

lemma pic_unmask_irq_bit:
  assumes "unat irq < 16" "n < 16"
  shows "bit (pic_get_mask (pic_unmask_irq irq s)) n \<longleftrightarrow> n \<noteq> unat irq \<and> bit (pic_get_mask s) n"
proof (cases "irq < 8")
  case True
  then show ?thesis
    using assms by (auto simp: bit_pic_get_mask pic_unmask_irq_def pic_irq_bit_single_def
        IRQ_SLAVE_START_def bit_simps word_less_nat_alt)
next
  case False
  then have "unat (irq - 8) = unat irq - 8"
    by (simp add: unat_sub word_le_nat_alt not_less)
  with False show ?thesis
    using assms by (auto simp: bit_pic_get_mask pic_unmask_irq_def pic_irq_bit_single_def
        IRQ_SLAVE_START_def bit_simps word_less_nat_alt)
qed

end
