(* ===== verification/Pcb.thy ===== *)
theory Pcb
  imports Pic
begin

unbundle bit_operations_syntax

text \<open>
  Process control blocks and the doubly-linked ring queues of \<open>kernel/pcb.c\<close>. A pointer
  to a control block is a number: \<open>0\<close> is \<open>NULL\<close>, \<open>i + 1\<close> is \<open>&pcb[i]\<close>, and
  one more block serves as \<open>dummy_kernel_pcb\<close>. The block at \<open>0\<close> stands for the bytes at
  physical address zero, which the kernel page tables map: the code reads and writes them
  when it follows a null link.
\<close>

section \<open>Control blocks\<close>

type_synonym pcb_ptr = nat

definition PCB_TABLE_SIZE :: nat where "PCB_TABLE_SIZE = 128"

definition dummy_kernel_pcb :: pcb_ptr where "dummy_kernel_pcb = PCB_TABLE_SIZE + 1"

record pcb =
  pcb_next :: pcb_ptr
  pcb_previous :: pcb_ptr
  pid :: u32
  is_thread :: u32
  start_pc :: u32
  status :: u32
  user_stack :: u32
  kernel_stack :: u32
  priority :: u32
  nested_count :: u32
  preempt_count :: u32
  yield_count :: u32
  base_kernel_stack :: u32
  pcb_ds :: u32
  pcb_cs :: u32
  int_controller_mask :: u16
  wakeup_time :: u64
  page_directory :: u32
  swap_loc :: u32
  swap_size :: u32
  page_fault_count :: u32

text \<open>
  The kernel's task state: the table of control blocks, the head of the ready queue
  \<open>current_running\<close>, and the allocators of \<open>pcb.c\<close>. \<open>saved_ctx\<close> holds what
  \<open>scheduler_entry\<close> keeps on each task's kernel stack: the nesting count of
  uninterruptable sections and the interrupt flag.
\<close>

record tasks = machine +
  pcb_at :: "pcb_ptr \<Rightarrow> pcb"
  current_running :: pcb_ptr
  running_processes :: u32
  freelist :: pcb_ptr
  next_pid :: u32
  next_stack :: u32
  saved_ctx :: "pcb_ptr \<Rightarrow> u32 \<times> bool"

definition upd_pcb :: "pcb_ptr \<Rightarrow> (pcb \<Rightarrow> pcb) \<Rightarrow> 'a tasks_scheme \<Rightarrow> 'a tasks_scheme" where
  "upd_pcb p f s = s\<lparr>pcb_at := (pcb_at s)(p := f (pcb_at s p))\<rparr>"

definition set_next :: "pcb_ptr \<Rightarrow> pcb_ptr \<Rightarrow> 'a tasks_scheme \<Rightarrow> 'a tasks_scheme" where
  "set_next p v = upd_pcb p (\<lambda>r. r\<lparr>pcb_next := v\<rparr>)"

definition set_previous :: "pcb_ptr \<Rightarrow> pcb_ptr \<Rightarrow> 'a tasks_scheme \<Rightarrow> 'a tasks_scheme" where
  "set_previous p v = upd_pcb p (\<lambda>r. r\<lparr>pcb_previous := v\<rparr>)"

definition getpid :: "'a tasks_scheme \<Rightarrow> u32" where
  "getpid s = pid (pcb_at s (current_running s))"

section \<open>Ring queues\<close>

text \<open>The argument \<open>q\<close> is the value of \<open>*q\<close>; the new value is returned.\<close>

definition queue_insert ::
    "pcb_ptr \<Rightarrow> pcb_ptr \<Rightarrow> 'a tasks_scheme \<Rightarrow> (pcb_ptr \<times> 'a tasks_scheme) res" where
  "queue_insert q p s =
     (let s = nointerrupt_enter s in
      if pcb_next (pcb_at s p) \<noteq> 0 then Inl AssertFail
      else if q = 0 then
        (let s = set_next p p s; s = set_previous p p s
         in Inr (p, nointerrupt_leave s))
      else
        (let s = set_previous p (pcb_previous (pcb_at s q)) s;
             s = set_next p q s;
             s = set_next (pcb_previous (pcb_at s p)) p s;
             s = set_previous (pcb_next (pcb_at s p)) p s
         in Inr (q, nointerrupt_leave s)))"

definition queue_shift ::
    "pcb_ptr \<Rightarrow> 'a tasks_scheme \<Rightarrow> pcb_ptr \<times> pcb_ptr \<times> 'a tasks_scheme" where
  "queue_shift q s =
     (let s = nointerrupt_enter s in
      if q = 0 then (0, q, nointerrupt_leave s)
      else
        (let p = q;
             (q, s) =
               (if pcb_next (pcb_at s p) = p \<and> pcb_previous (pcb_at s p) = p then (0, s)
                else
                  (let s = set_next (pcb_previous (pcb_at s p)) (pcb_next (pcb_at s p)) s;
                       s = set_previous (pcb_next (pcb_at s p)) (pcb_previous (pcb_at s p)) s
                   in (pcb_next (pcb_at s p), s)));
             s = set_previous p 0 s;
             s = set_next p 0 s
         in (p, q, nointerrupt_leave s)))"

text \<open>
  The search of \<open>queue_pos\<close> stops by itself: it asserts that the position stays
  within \<open>LIMIT\<close>, the size of the table.
\<close>

function queue_pos_loop ::
    "pcb_ptr \<Rightarrow> pcb_ptr \<Rightarrow> pcb_ptr \<Rightarrow> nat \<Rightarrow> 'a tasks_scheme \<Rightarrow> int res" where
  "queue_pos_loop start p cur i s =
     (if cur = p then Inr (int i)
      else
        (let cur = pcb_next (pcb_at s cur); i = i + 1 in
         if cur = 0 then Inl AssertFail
         else if \<not> i \<le> PCB_TABLE_SIZE then Inl AssertFail
         else if cur = start then Inr (- 1)
         else queue_pos_loop start p cur i s))"
  by pat_completeness auto
termination
  by (relation "measure (\<lambda>(start, p, cur, i, s). PCB_TABLE_SIZE + 1 - i)") auto

declare queue_pos_loop.simps [simp del]

definition queue_pos :: "pcb_ptr \<Rightarrow> pcb_ptr \<Rightarrow> 'a tasks_scheme \<Rightarrow> (int \<times> 'a tasks_scheme) res" where
  "queue_pos q p s =
     (let s = nointerrupt_enter s in
      bindR (if q = 0 then Inr (- 1) else queue_pos_loop q p q 0 s)
        (\<lambda>pos. Inr (pos, nointerrupt_leave s)))"

definition queue_remove ::
    "pcb_ptr \<Rightarrow> pcb_ptr \<Rightarrow> 'a tasks_scheme \<Rightarrow> (pcb_ptr \<times> 'a tasks_scheme) res" where
  "queue_remove q p s =
     (let s = nointerrupt_enter s in
      bindR (queue_pos q p s) (\<lambda>(pos, s).
        if pos < 0 then Inl AssertFail
        else
          (let q = (if q = p \<and> pcb_next (pcb_at s p) = p then 0
                    else if q = p then pcb_next (pcb_at s p) else q);
               s = set_next (pcb_previous (pcb_at s p)) (pcb_next (pcb_at s p)) s;
               s = set_previous (pcb_next (pcb_at s p)) (pcb_previous (pcb_at s p)) s;
               s = set_next p 0 s;
               s = set_previous p 0 s
           in Inr (q, nointerrupt_leave s))))"

section \<open>Allocation of control blocks\<close>

definition T_KSTACK_AREA_MIN_PADDR :: u32 where "T_KSTACK_AREA_MIN_PADDR = 0x40000"
definition T_KSTACK_AREA_MAX_PADDR :: u32 where "T_KSTACK_AREA_MAX_PADDR = 0x80000"
definition T_KSTACK_SIZE_EACH :: u32 where "T_KSTACK_SIZE_EACH = 0x2000"
definition T_KSTACK_START_OFFSET :: u32 where "T_KSTACK_START_OFFSET = 0x1ffc"

definition STATUS_FIRST_TIME :: u32 where "STATUS_FIRST_TIME = 0"
definition STATUS_READY :: u32 where "STATUS_READY = 1"
definition STATUS_SLEEPING :: u32 where "STATUS_SLEEPING = 2"
definition STATUS_BLOCKED :: u32 where "STATUS_BLOCKED = 3"
definition STATUS_EXITED :: u32 where "STATUS_EXITED = 4"

lemmas kstack_defs = T_KSTACK_AREA_MIN_PADDR_def T_KSTACK_AREA_MAX_PADDR_def
  T_KSTACK_SIZE_EACH_def T_KSTACK_START_OFFSET_def

lemmas status_defs = STATUS_FIRST_TIME_def STATUS_READY_def STATUS_SLEEPING_def
  STATUS_BLOCKED_def STATUS_EXITED_def

definition zero_pcb :: pcb where
  "zero_pcb = \<lparr>pcb_next = 0, pcb_previous = 0, pid = 0, is_thread = 0, start_pc = 0, status = 0,
     user_stack = 0, kernel_stack = 0, priority = 0, nested_count = 0, preempt_count = 0,
     yield_count = 0, base_kernel_stack = 0, pcb_ds = 0, pcb_cs = 0, int_controller_mask = 0,
     wakeup_time = 0, page_directory = 0, swap_loc = 0, swap_size = 0, page_fault_count = 0\<rparr>"

definition init_pcb_table :: "'a tasks_scheme \<Rightarrow> 'a tasks_scheme res" where
  "init_pcb_table s =
     bindR (foldR (\<lambda>p s.
              bindR (queue_insert (freelist s) p (upd_pcb p (\<lambda>_. zero_pcb) s))
                (\<lambda>(q, s). Inr (s\<lparr>freelist := q\<rparr>)))
            [1..<PCB_TABLE_SIZE + 1] (s\<lparr>freelist := 0\<rparr>))
       (\<lambda>s. Inr (s\<lparr>current_running := 0\<rparr>))"

definition alloc_pcb :: "'a tasks_scheme \<Rightarrow> (pcb_ptr \<times> 'a tasks_scheme) res" where
  "alloc_pcb s =
     (let s = nointerrupt_enter s in
      if freelist s = 0 then Inl AssertFail
      else (let (p, q, s) = queue_shift (freelist s) s;
                s = s\<lparr>freelist := q\<rparr>
            in Inr (p, nointerrupt_leave s)))"

definition free_pcb :: "pcb_ptr \<Rightarrow> 'a tasks_scheme \<Rightarrow> 'a tasks_scheme res" where
  "free_pcb p s =
     (let s = nointerrupt_enter s in
      bindR (queue_insert (freelist s) p s)
        (\<lambda>(q, s). Inr (nointerrupt_leave (s\<lparr>freelist := q\<rparr>))))"

definition create_pcb_common :: "pcb_ptr \<Rightarrow> 'a tasks_scheme \<Rightarrow> 'a tasks_scheme res" where
  "create_pcb_common p s =
     (let s = nointerrupt_enter s;
          s = upd_pcb p (\<lambda>r. r\<lparr>pid := next_pid s\<rparr>) s;
          s = s\<lparr>next_pid := next_pid s + 1\<rparr>;
          s = nointerrupt_leave s in
      if \<not> next_stack s < T_KSTACK_AREA_MAX_PADDR then Inl AssertFail
      else
        (let s = upd_pcb p (\<lambda>r. r\<lparr>kernel_stack := next_stack s + T_KSTACK_START_OFFSET\<rparr>) s;
             s = upd_pcb p (\<lambda>r. r\<lparr>base_kernel_stack := kernel_stack r\<rparr>) s;
             s = s\<lparr>next_stack := next_stack s + T_KSTACK_SIZE_EACH\<rparr>;
             s = upd_pcb p (\<lambda>r. r\<lparr>priority := 10, status := STATUS_FIRST_TIME, preempt_count := 0,
                   yield_count := 0, page_fault_count := 0,
                   int_controller_mask := NOT IRQS_TO_ENABLE\<rparr>) s
         in Inr s))"

section \<open>Links\<close>

definition nexts :: "'a tasks_scheme \<Rightarrow> pcb_ptr \<Rightarrow> pcb_ptr" where
  "nexts s p = pcb_next (pcb_at s p)"

definition prevs :: "'a tasks_scheme \<Rightarrow> pcb_ptr \<Rightarrow> pcb_ptr" where
  "prevs s p = pcb_previous (pcb_at s p)"

named_theorems link_simps

lemma nexts_set_next [link_simps]: "nexts (set_next p v s) = (nexts s)(p := v)"
  and nexts_set_previous [link_simps]: "nexts (set_previous p v s) = nexts s"
  and prevs_set_next [link_simps]: "prevs (set_next p v s) = prevs s"
  and prevs_set_previous [link_simps]: "prevs (set_previous p v s) = (prevs s)(p := v)"
  by (auto simp: nexts_def prevs_def set_next_def set_previous_def upd_pcb_def fun_eq_iff)

lemma tasks_more_nointerrupt [simp]:
  "pcb_at (nointerrupt_enter s) = pcb_at s" "pcb_at (nointerrupt_leave s) = pcb_at s"
  "current_running (nointerrupt_enter s) = current_running s"
  "current_running (nointerrupt_leave s) = current_running s"
  "running_processes (nointerrupt_enter s) = running_processes s"
  "running_processes (nointerrupt_leave s) = running_processes s"
  "freelist (nointerrupt_enter s) = freelist s" "freelist (nointerrupt_leave s) = freelist s"
  "next_pid (nointerrupt_enter s) = next_pid s" "next_pid (nointerrupt_leave s) = next_pid s"
  "next_stack (nointerrupt_enter s) = next_stack s"
  "next_stack (nointerrupt_leave s) = next_stack s"
  "saved_ctx (nointerrupt_enter s) = saved_ctx s" "saved_ctx (nointerrupt_leave s) = saved_ctx s"
  "tasks.more (nointerrupt_enter s) = tasks.more s"
  "tasks.more (nointerrupt_leave s) = tasks.more s"
  by (simp_all add: nointerrupt_enter_def nointerrupt_leave_def interrupts_enable_def
      interrupts_disable_def Let_def)

lemma links_nointerrupt [link_simps]:
  "nexts (nointerrupt_enter s) = nexts s" "nexts (nointerrupt_leave s) = nexts s"
  "prevs (nointerrupt_enter s) = prevs s" "prevs (nointerrupt_leave s) = prevs s"
  by (auto simp: nexts_def prevs_def fun_eq_iff)

lemma links_fold: "pcb_next (pcb_at s p) = nexts s p" "pcb_previous (pcb_at s p) = prevs s p"
  by (simp_all add: nexts_def prevs_def)

section \<open>Rings\<close>

text \<open>
  \<open>chain nx pv xs\<close>: each block of \<open>xs\<close> links to the one after it by \<open>nx\<close>, which links
  back by \<open>pv\<close>. A ring is a chain that returns to its first block.
\<close>

fun chain :: "(pcb_ptr \<Rightarrow> pcb_ptr) \<Rightarrow> (pcb_ptr \<Rightarrow> pcb_ptr) \<Rightarrow> pcb_ptr list \<Rightarrow> bool" where
  "chain nx pv (x # y # zs) \<longleftrightarrow> nx x = y \<and> pv y = x \<and> chain nx pv (y # zs)"
| "chain nx pv _ \<longleftrightarrow> True"

definition head_of :: "pcb_ptr list \<Rightarrow> pcb_ptr" where
  "head_of xs = (case xs of [] \<Rightarrow> 0 | x # _ \<Rightarrow> x)"

definition ring :: "(pcb_ptr \<Rightarrow> pcb_ptr) \<Rightarrow> (pcb_ptr \<Rightarrow> pcb_ptr) \<Rightarrow> pcb_ptr list \<Rightarrow> bool" where
  "ring nx pv xs \<longleftrightarrow> distinct xs \<and> 0 \<notin> set xs \<and> (xs \<noteq> [] \<longrightarrow> chain nx pv (xs @ [hd xs]))"

definition is_queue :: "'a tasks_scheme \<Rightarrow> pcb_ptr \<Rightarrow> pcb_ptr list \<Rightarrow> bool" where
  "is_queue s q xs \<longleftrightarrow> ring (nexts s) (prevs s) xs \<and> q = head_of xs"

lemma head_of_simps [simp]: "head_of [] = 0" "head_of (x # xs) = x"
  by (simp_all add: head_of_def)

lemma chain_append:
  "chain nx pv (xs @ x # ys) \<longleftrightarrow> chain nx pv (xs @ [x]) \<and> chain nx pv (x # ys)"
  by (induction nx pv xs rule: chain.induct) auto

lemma chain_cong:
  "(\<And>x. x \<in> set (butlast xs) \<Longrightarrow> nx' x = nx x) \<Longrightarrow> (\<And>x. x \<in> set (tl xs) \<Longrightarrow> pv' x = pv x) \<Longrightarrow>
   chain nx' pv' xs = chain nx pv xs"
proof (induction nx pv xs rule: chain.induct)
  case (1 nx pv x y zs)
  have "chain nx' pv' (y # zs) = chain nx pv (y # zs)"
    using 1 by (cases zs) auto
  with 1 show ?case by auto
qed auto

lemma ring_Nil [simp]: "ring nx pv []"
  by (simp add: ring_def)

lemma ring_single: "ring nx pv [x] \<longleftrightarrow> x \<noteq> 0 \<and> nx x = x \<and> pv x = x"
  by (auto simp: ring_def)

lemma ring_cong:
  "ring nx pv xs \<Longrightarrow> (\<And>x. x \<in> set xs \<Longrightarrow> nx' x = nx x \<and> pv' x = pv x) \<Longrightarrow> ring nx' pv' xs"
  unfolding ring_def
  by (cases xs) (auto simp: butlast_append elim!: iffD2 [OF chain_cong, rotated 2])

text \<open>A ring of at least two blocks, seen from its first and its last block.\<close>

lemma ring_ends:
  "ring nx pv (x # as @ [l]) \<longleftrightarrow> distinct (x # as @ [l]) \<and> 0 \<notin> set (x # as @ [l]) \<and>
     nx l = x \<and> pv x = l \<and> chain nx pv (x # as @ [l])"
  using chain_append [of nx pv "x # as" l "[x]"] by (auto simp: ring_def)

lemma ring_rotate1: "ring nx pv (x # ys) \<Longrightarrow> ring nx pv (ys @ [x])"
  using chain_append [of nx pv ys x "[hd ys]"]
  by (cases ys) (auto simp: ring_def)

lemma ring_rotate: "ring nx pv (xs @ ys) \<Longrightarrow> ring nx pv (ys @ xs)"
proof (induction xs arbitrary: ys)
  case (Cons a xs)
  then have "ring nx pv (xs @ (ys @ [a]))" using ring_rotate1 [of nx pv a "xs @ ys"] by simp
  then show ?case using Cons.IH [of "ys @ [a]"] by simp
qed simp

lemma ring_append:
  assumes "ring nx pv xs" "xs \<noteq> []" "p \<notin> set xs" "p \<noteq> 0"
  shows "ring (nx(p := hd xs, last xs := p)) (pv(p := last xs, hd xs := p)) (xs @ [p])"
proof -
  obtain as l where xs: "xs = as @ [l]" using assms(2) by (cases xs rule: rev_cases) auto
  let ?nx = "nx(p := hd xs, last xs := p)" and ?pv = "pv(p := last xs, hd xs := p)"
  have "chain nx pv (as @ [l])"
    using assms(1,2) chain_append [of nx pv as l "[hd xs]"] by (simp add: ring_def xs)
  then have "chain ?nx ?pv (as @ [l])"
    using assms(1,3) by (subst chain_cong [of _ _ nx _ pv]) (auto simp: ring_def xs, (cases as; auto)+)
  moreover have "chain ?nx ?pv [l, p, hd xs]"
    using assms(3) by (auto simp: xs hd_append)
  ultimately show ?thesis
    using chain_append [of ?nx ?pv as l "[p, hd xs]"] assms by (auto simp: ring_def xs hd_append)
qed

lemma ring_unlink:
  assumes "ring nx pv (x # ys)" "ys \<noteq> []"
  shows "ring (nx(last ys := hd ys)) (pv(hd ys := last ys)) ys"
    and "nx x = hd ys" and "pv x = last ys"
proof -
  obtain as l where ys: "ys = as @ [l]" using assms(2) by (cases ys rule: rev_cases) auto
  let ?nx = "nx(last ys := hd ys)" and ?pv = "pv(hd ys := last ys)"
  note r = assms(1) [unfolded ys ring_ends]
  then show "pv x = last ys" "nx x = hd ys"
    by (auto simp: ys) (cases as; auto)
  have "chain nx pv (as @ [l])" using r by (cases as) auto
  then have "chain ?nx ?pv (as @ [l])"
    using r by (subst chain_cong [of _ _ nx _ pv]) (auto simp: ys, (cases as; auto)+)
  moreover have "chain ?nx ?pv [l, hd ys]" by (simp add: ys)
  ultimately show "ring ?nx ?pv ys"
    using chain_append [of ?nx ?pv as l "[hd ys]"] r by (auto simp: ring_def ys)
qed

section \<open>Queues refine lists\<close>

lemma queue_insert_refines:
  assumes "is_queue s q xs" "p \<notin> set xs" "p \<noteq> 0" "nexts s p = 0"
  shows "\<exists>q' s'. queue_insert q p s = Inr (q', s') \<and> is_queue s' q' (xs @ [p]) \<and>
    (\<forall>x. x \<notin> set xs \<union> {p} \<longrightarrow> nexts s' x = nexts s x \<and> prevs s' x = prevs s x)"
proof (cases "xs = []")
  case True
  then show ?thesis
    using assms by (simp add: queue_insert_def Let_def links_fold link_simps is_queue_def ring_single)
next
  case False
  then obtain as l where xs: "xs = as @ [l]" by (cases xs rule: rev_cases) auto
  have q: "q = hd xs" "q \<noteq> 0" and ring: "ring (nexts s) (prevs s) xs" and pq: "p \<noteq> q"
    using assms False by (auto simp: is_queue_def ring_def neq_Nil_conv)
  have l: "prevs s q = l"
    using ring q chain_append [of "nexts s" "prevs s" as l "[hd xs]"] by (simp add: ring_def xs)
  have "l \<in> set xs" by (simp add: xs)
  then have "l \<noteq> p" using assms(2) by auto
  then have "(nexts s)(p := q, l := p) = (nexts s)(p := hd xs, last xs := p)"
    "(prevs s)(p := l, q := p) = (prevs s)(p := last xs, hd xs := p)"
    by (simp_all add: q xs)
  then show ?thesis
    using ring_append [OF ring False assms(2,3)] q l pq \<open>l \<noteq> p\<close> assms(4) False \<open>l \<in> set xs\<close>
    by (auto simp: queue_insert_def Let_def links_fold link_simps is_queue_def neq_Nil_conv)
qed

lemma queue_shift_refines:
  assumes "is_queue s q (x # xs)"
  shows "\<exists>q' s'. queue_shift q s = (x, q', s') \<and> is_queue s' q' xs \<and>
    nexts s' x = 0 \<and> prevs s' x = 0 \<and>
    (\<forall>y. y \<notin> set (x # xs) \<longrightarrow> nexts s' y = nexts s y \<and> prevs s' y = prevs s y)"
proof (cases "xs = []")
  case True
  then show ?thesis
    using assms by (auto simp: queue_shift_def Let_def links_fold link_simps is_queue_def ring_single)
next
  case False
  have ring: "ring (nexts s) (prevs s) (x # xs)" and q: "q = x" "x \<noteq> 0"
    using assms by (auto simp: is_queue_def ring_def)
  note u = ring_unlink [OF ring False]
  have ne: "hd xs \<noteq> x" "last xs \<noteq> x" "hd xs \<in> set xs" "last xs \<in> set xs"
    using ring False by (auto simp: ring_def hd_in_set last_in_set)
  have "ring ((nexts s)(last xs := hd xs, x := 0)) ((prevs s)(hd xs := last xs, x := 0)) xs"
    by (rule ring_cong [OF u(1)]) (use ring in \<open>auto simp: ring_def\<close>)
  then show ?thesis
    using q ne u(2,3) False
    by (auto simp: queue_shift_def Let_def links_fold link_simps is_queue_def neq_Nil_conv)
qed

lemma queue_shift_empty: "fst (queue_shift 0 s) = 0 \<and> fst (snd (queue_shift 0 s)) = 0"
  by (simp add: queue_shift_def Let_def)

lemma chain_nth: "chain nx pv ys \<Longrightarrow> Suc i < length ys \<Longrightarrow> nx (ys ! i) = ys ! Suc i"
proof (induction nx pv ys arbitrary: i rule: chain.induct)
  case (1 nx pv x y zs)
  then show ?case by (cases i) auto
qed auto

lemma ring_nth:
  assumes "ring nx pv xs" "i < length xs"
  shows "nx (xs ! i) = (if Suc i < length xs then xs ! Suc i else hd xs)"
proof -
  have "xs \<noteq> []" using assms(2) by auto
  then have "nx ((xs @ [hd xs]) ! i) = (xs @ [hd xs]) ! Suc i"
    using assms by (intro chain_nth [of nx pv]) (auto simp: ring_def)
  then show ?thesis using assms(2) by (auto simp: nth_append)
qed

lemma distinct_nth_hd: "distinct xs \<Longrightarrow> Suc i < length xs \<Longrightarrow> xs ! Suc i \<noteq> hd xs"
  by (cases xs) auto

lemma queue_pos_loop_found:
  assumes "ring (nexts s) (prevs s) xs" "length xs \<le> PCB_TABLE_SIZE" "i \<le> k" "k < length xs"
  shows "queue_pos_loop (hd xs) (xs ! k) (xs ! i) i s = Inr (int k)"
  using assms(3)
proof (induction "k - i" arbitrary: i)
  case 0
  then show ?case by (subst queue_pos_loop.simps) simp
next
  case (Suc d)
  then have i: "i < k" "Suc i < length xs" using assms(4) by auto
  have dist: "distinct xs" "0 \<notin> set xs" using assms(1) by (auto simp: ring_def)
  have "xs ! Suc i \<noteq> 0" using dist i by (metis nth_mem)
  moreover have "xs ! Suc i \<noteq> hd xs" "xs ! i \<noteq> xs ! k"
    using dist i assms(4) by (auto simp: distinct_nth_hd nth_eq_iff_index_eq)
  moreover have "nexts s (xs ! i) = xs ! Suc i" using ring_nth [OF assms(1), of i] i by simp
  moreover have "queue_pos_loop (hd xs) (xs ! k) (xs ! Suc i) (Suc i) s = Inr (int k)"
    using Suc i by (intro Suc.hyps(1)) auto
  ultimately show ?case
    using i assms(2) by (subst queue_pos_loop.simps) (simp add: links_fold)
qed

lemma queue_pos_loop_missing:
  assumes "ring (nexts s) (prevs s) xs" "length xs \<le> PCB_TABLE_SIZE" "p \<notin> set xs" "i < length xs"
  shows "queue_pos_loop (hd xs) p (xs ! i) i s = Inr (- 1)"
  using assms(4)
proof (induction "length xs - i" arbitrary: i)
  case 0
  then show ?case by simp
next
  case (Suc d)
  have dist: "distinct xs" "0 \<notin> set xs" using assms(1) by (auto simp: ring_def)
  have ip: "xs ! i \<noteq> p" using Suc.prems assms(3) by auto
  have hd: "hd xs \<noteq> 0" using dist Suc.prems by (cases xs) auto
  show ?case
  proof (cases "Suc i < length xs")
    case True
    have "xs ! Suc i \<noteq> 0" using dist True by (metis nth_mem)
    moreover have "xs ! Suc i \<noteq> hd xs"
      using dist True by (simp add: distinct_nth_hd)
    moreover have "queue_pos_loop (hd xs) p (xs ! Suc i) (Suc i) s = Inr (- 1)"
      using Suc True by (intro Suc.hyps(1)) auto
    ultimately show ?thesis
      using ip True assms(2) ring_nth [OF assms(1) Suc.prems]
      by (subst queue_pos_loop.simps) (simp add: links_fold)
  next
    case False
    then show ?thesis
      using ip hd Suc.prems assms(2) ring_nth [OF assms(1) Suc.prems]
      by (subst queue_pos_loop.simps) (simp add: links_fold)
  qed
qed

lemma queue_pos_correct:
  assumes "is_queue s q xs" "length xs \<le> PCB_TABLE_SIZE"
  shows "k < length xs \<Longrightarrow>
      queue_pos q (xs ! k) s = Inr (int k, nointerrupt_leave (nointerrupt_enter s))"
    and "p \<notin> set xs \<Longrightarrow> queue_pos q p s = Inr (- 1, nointerrupt_leave (nointerrupt_enter s))"
proof -
  have r: "ring (nexts (nointerrupt_enter s)) (prevs (nointerrupt_enter s)) xs"
    using assms by (simp add: is_queue_def link_simps)
  have q: "q = hd xs" "q \<noteq> 0" "xs ! 0 = hd xs" "0 < length xs" if "xs \<noteq> []"
    using assms that by (auto simp: is_queue_def ring_def neq_Nil_conv)
  show "queue_pos q (xs ! k) s = Inr (int k, nointerrupt_leave (nointerrupt_enter s))"
    if "k < length xs"
    using queue_pos_loop_found [OF r assms(2) _ that, of 0] q that
    by (cases "xs = []") (auto simp: queue_pos_def Let_def)
  show "queue_pos q p s = Inr (- 1, nointerrupt_leave (nointerrupt_enter s))" if "p \<notin> set xs"
    using queue_pos_loop_missing [OF r assms(2) that, of 0] q assms(1)
    by (cases "xs = []") (auto simp: queue_pos_def Let_def is_queue_def)
qed

lemma queue_remove_refines:
  assumes "is_queue s q (as @ p # bs)" "length (as @ p # bs) \<le> PCB_TABLE_SIZE"
  shows "\<exists>q' s'. queue_remove q p s = Inr (q', s') \<and> is_queue s' q' (as @ bs) \<and>
    nexts s' p = 0 \<and> prevs s' p = 0 \<and>
    (\<forall>y. y \<notin> set (as @ p # bs) \<longrightarrow> nexts s' y = nexts s y \<and> prevs s' y = prevs s y)"
proof -
  let ?s = "nointerrupt_enter s" and ?xs = "as @ p # bs"
  have "is_queue ?s q ?xs" using assms(1) by (simp add: is_queue_def link_simps)
  from queue_pos_correct(1) [OF this assms(2), of "length as"]
  have pos: "queue_pos q p ?s = Inr (int (length as), nointerrupt_leave (nointerrupt_enter ?s))"
    by simp
  have rot: "ring (nexts s) (prevs s) (p # bs @ as)"
    using assms(1) ring_rotate [of "nexts s" "prevs s" as "p # bs"] by (simp add: is_queue_def)
  have p0: "p \<noteq> 0" "p \<notin> set (bs @ as)" using rot by (auto simp: ring_def)
  have q: "q = (if as = [] then p else hd as)"
    using assms(1) by (cases as) (auto simp: is_queue_def)
  show ?thesis
  proof (cases "bs @ as = []")
    case True
    then show ?thesis
      using rot pos q p0 by (simp add: queue_remove_def Let_def links_fold link_simps is_queue_def
          ring_single)
  next
    case False
    let ?h = "hd (bs @ as)" and ?l = "last (bs @ as)"
    note u = ring_unlink [OF rot False]
    have in_set: "?h \<in> set (bs @ as)" "?l \<in> set (bs @ as)"
      using False hd_in_set [OF False] last_in_set [OF False] by blast+
    then have hl: "?h \<noteq> p" "?l \<noteq> p" using p0 by auto
    have "ring ((nexts s)(?l := ?h, p := 0)) ((prevs s)(?h := ?l, p := 0)) (bs @ as)"
      by (rule ring_cong [OF u(1)]) (use p0 in auto)
    then have "ring ((nexts s)(?l := ?h, p := 0)) ((prevs s)(?h := ?l, p := 0)) (as @ bs)"
      by (rule ring_rotate)
    moreover have "(if q = p then ?h else q) = head_of (as @ bs)"
      using q p0 False by (cases as; cases bs) auto
    ultimately show ?thesis
      using pos u(2,3) hl in_set p0
      by (auto simp: queue_remove_def Let_def links_fold link_simps is_queue_def)
  qed
qed

section \<open>The free list\<close>

lemma links_upd_pcb:
  "nexts (upd_pcb p f s) = (nexts s)(p := pcb_next (f (pcb_at s p)))"
  "prevs (upd_pcb p f s) = (prevs s)(p := pcb_previous (f (pcb_at s p)))"
  by (auto simp: nexts_def prevs_def upd_pcb_def fun_eq_iff)

lemma links_heads [link_simps]:
  "nexts (s\<lparr>freelist := q\<rparr>) = nexts s" "prevs (s\<lparr>freelist := q\<rparr>) = prevs s"
  "nexts (s\<lparr>current_running := q\<rparr>) = nexts s" "prevs (s\<lparr>current_running := q\<rparr>) = prevs s"
  by (auto simp: nexts_def prevs_def fun_eq_iff)

lemma is_queue_heads [simp]:
  "is_queue (s\<lparr>freelist := h\<rparr>) q xs = is_queue s q xs"
  "is_queue (s\<lparr>current_running := h\<rparr>) q xs = is_queue s q xs"
  "is_queue (nointerrupt_enter s) q xs = is_queue s q xs"
  "is_queue (nointerrupt_leave s) q xs = is_queue s q xs"
  by (simp_all add: is_queue_def link_simps)

lemma is_queue_frame:
  "is_queue s q xs \<Longrightarrow> (\<And>x. x \<in> set xs \<Longrightarrow> nexts s' x = nexts s x \<and> prevs s' x = prevs s x) \<Longrightarrow>
   is_queue s' q xs"
  unfolding is_queue_def by (blast intro: ring_cong)

lemma init_pcb_table_freelist:
  "\<exists>s'. init_pcb_table s = Inr s' \<and> is_queue s' (freelist s') [1..<PCB_TABLE_SIZE + 1] \<and>
     current_running s' = 0"
proof -
  let ?body = "\<lambda>p s. bindR (queue_insert (freelist s) p (upd_pcb p (\<lambda>_. zero_pcb) s))
                (\<lambda>(q, s). Inr (s\<lparr>freelist := q\<rparr>))"
  have "\<exists>t. foldR ?body [1..<PCB_TABLE_SIZE + 1] (s\<lparr>freelist := 0\<rparr>) = Inr t \<and>
      is_queue t (freelist t) [1..<PCB_TABLE_SIZE + 1]"
  proof (rule foldR_rule [where I = "\<lambda>done t. is_queue t (freelist t) done"])
    show "is_queue (s\<lparr>freelist := 0\<rparr>) (freelist (s\<lparr>freelist := 0\<rparr>)) []"
      by (simp add: is_queue_def)
  next
    fix "done" x t rest
    assume eq: "[1..<PCB_TABLE_SIZE + 1] = done @ x # rest" and q: "is_queue t (freelist t) done"
    have "distinct (done @ x # rest)" "0 \<notin> set (done @ x # rest)"
      unfolding eq [symmetric] by auto
    then have x: "x \<notin> set done" "x \<noteq> 0" by auto
    let ?t = "upd_pcb x (\<lambda>_. zero_pcb) t"
    have "is_queue ?t (freelist t) done"
      by (rule is_queue_frame [OF q]) (use x in \<open>auto simp: links_upd_pcb\<close>)
    moreover have "nexts ?t x = 0" by (simp add: links_upd_pcb zero_pcb_def)
    ultimately obtain q' t' where "queue_insert (freelist t) x ?t = Inr (q', t')"
      "is_queue t' q' (done @ [x])"
      using queue_insert_refines [of ?t "freelist t" "done" x] x by blast
    then show "\<exists>t'. ?body x t = Inr t' \<and> is_queue t' (freelist t') (done @ [x])"
      by simp
  qed
  then show ?thesis by (auto simp: init_pcb_table_def)
qed

lemma alloc_pcb_shifts:
  assumes "is_queue s (freelist s) (x # xs)"
  shows "\<exists>s'. alloc_pcb s = Inr (x, s') \<and> is_queue s' (freelist s') xs \<and>
    nexts s' x = 0 \<and> prevs s' x = 0"
proof -
  have q: "is_queue (nointerrupt_enter s) (freelist s) (x # xs)" using assms by simp
  have "freelist s \<noteq> 0" using assms by (auto simp: is_queue_def ring_def)
  then show ?thesis
    using queue_shift_refines [OF q] by (auto simp: alloc_pcb_def Let_def link_simps)
qed

end
