(* ===== verification/Scheduler.thy ===== *)
theory Scheduler
  imports Pcb
begin

unbundle bit_operations_syntax

text \<open>
  The task switcher of \<open>kernel/scheduler.c\<close>, with the wait queues built by \<open>block\<close> and
  \<open>unblock\<close> and the sleep of \<open>kernel/sleep.c\<close>. A switch is modelled up to the moment
  the chosen task resumes: the state returned is the one that task sees. The loop of
  \<open>scheduler()\<close> runs until some task is runnable, which may be never, so it takes a
  bound on its iterations; running out of it is \<open>Inl Diverges\<close>, and the lemmas below show
  that as many iterations as there are tasks in the ready queue are enough.
\<close>

section \<open>Dispatch\<close>

definition KERNEL_DS :: u32 where "KERNEL_DS = 0x10"

definition cpu_set_interrupt_stack :: "u32 \<Rightarrow> 'a machine_scheme \<Rightarrow> 'a machine_scheme" where
  "cpu_set_interrupt_stack esp0 s = s\<lparr>tss_ss0 := KERNEL_DS, tss_esp0 := esp0\<rparr>"

definition setup_current_running :: "'a tasks_scheme \<Rightarrow> 'a tasks_scheme" where
  "setup_current_running s =
     (let cur = pcb_at s (current_running s);
          s = pic_set_mask (int_controller_mask cur) s;
          s = set_page_directory (page_directory cur) s
      in if is_thread cur = 0 then cpu_set_interrupt_stack (base_kernel_stack cur) s else s)"

text \<open>
  \<open>dispatch\<close> of \<open>scheduler_asm.S\<close>. A task that runs for the first time becomes ready and
  starts, with the low byte of the nesting count set to one before
  \<open>nointerrupt_leave_delayed\<close> and with the interrupt flag of \<open>INIT_EFLAGS\<close>; any other task
  continues on its own kernel stack. The flag returned says which of the two happened.
\<close>

definition first_time_start :: "'a machine_scheme \<Rightarrow> 'a machine_scheme res" where
  "first_time_start s =
     bindR (nointerrupt_leave_delayed
        (s\<lparr>nointerrupt_count_val := (nointerrupt_count_val s AND 0xffffff00) OR 1\<rparr>))
       (\<lambda>s. Inr (s\<lparr>intr_flag := True\<rparr>))"

definition dispatch :: "'a tasks_scheme \<Rightarrow> (bool \<times> 'a tasks_scheme) res" where
  "dispatch s =
     (let s = setup_current_running s; cur = current_running s
      in if status (pcb_at s cur) = STATUS_FIRST_TIME
         then bindR (first_time_start (upd_pcb cur (\<lambda>r. r\<lparr>status := STATUS_READY\<rparr>) s))
                (\<lambda>s. Inr (True, s))
         else Inr (False, s))"

section \<open>Choosing the next task\<close>

definition scheduler_switch :: "'a tasks_scheme \<Rightarrow> 'a tasks_scheme res" where
  "scheduler_switch s =
     (let cur = current_running s; st = status (pcb_at s cur) in
      if st = STATUS_SLEEPING then
        (let (t, s) = read_cpu_ticks s;
             s = (if wakeup_time (pcb_at s cur) < t
                  then upd_pcb cur (\<lambda>r. r\<lparr>status := STATUS_READY\<rparr>) s else s)
         in Inr (s\<lparr>current_running := pcb_next (pcb_at s cur)\<rparr>))
      else if st = STATUS_FIRST_TIME \<or> st = STATUS_READY then
        Inr (s\<lparr>current_running := pcb_next (pcb_at s cur)\<rparr>)
      else if st = STATUS_BLOCKED then
        (let (_, q, s) = queue_shift cur s; s = s\<lparr>current_running := q\<rparr>
         in if q = 0 then Inl AssertFail else Inr s)
      else if st = STATUS_EXITED then
        (let (outgoing, q, s) = queue_shift cur s; s = s\<lparr>current_running := q\<rparr>
         in if q = 0 then Inl AssertFail else free_pcb outgoing s)
      else Inl AssertFail)"

definition runnable_status :: "u32 \<Rightarrow> bool" where
  "runnable_status st \<longleftrightarrow> st = STATUS_READY \<or> st = STATUS_FIRST_TIME"

fun scheduler_loop :: "nat \<Rightarrow> 'a tasks_scheme \<Rightarrow> 'a tasks_scheme res" where
  "scheduler_loop 0 s = Inl Diverges"
| "scheduler_loop (Suc n) s =
     bindR (scheduler_switch s)
       (\<lambda>s. if runnable_status (status (pcb_at s (current_running s))) then Inr s
            else scheduler_loop n s)"

definition scheduler :: "nat \<Rightarrow> 'a tasks_scheme \<Rightarrow> (bool \<times> 'a tasks_scheme) res" where
  "scheduler n s =
     (let s = nointerrupt_enter s;
          s = upd_pcb (current_running s) (\<lambda>r. r\<lparr>int_controller_mask := pic_get_mask s\<rparr>) s
      in bindR (scheduler_loop n s) dispatch)"

text \<open>
  \<open>scheduler_entry\<close> of \<open>scheduler_asm.S\<close>. The task that continues is in its own
  \<open>scheduler_entry\<close>, right after the call of \<open>scheduler\<close>, and takes its nesting count
  and flags from its own kernel stack.
\<close>

definition scheduler_entry :: "nat \<Rightarrow> 'a tasks_scheme \<Rightarrow> (bool \<times> 'a tasks_scheme) res" where
  "scheduler_entry n s =
     (let s = s\<lparr>saved_ctx := (saved_ctx s)
                   (current_running s := (nointerrupt_count_val s, intr_flag s))\<rparr>
      in bindR (scheduler n s) (\<lambda>(fresh, s).
           if fresh then Inr (True, s)
           else (let (c, i) = saved_ctx s (current_running s)
                 in Inr (False, s\<lparr>nointerrupt_count_val := c, intr_flag := i\<rparr>))))"

text \<open>
  The calls of \<open>scheduler_entry\<close> in \<open>yield\<close>, \<open>preempt\<close> and \<open>block\<close> are all followed by
  \<open>nointerrupt_leave()\<close>. Whichever of them the resumed task had called, that is what it
  executes next; a task that runs for the first time goes to its start address instead.
\<close>

definition switch_task :: "nat \<Rightarrow> 'a tasks_scheme \<Rightarrow> 'a tasks_scheme res" where
  "switch_task n s =
     bindR (scheduler_entry n s) (\<lambda>(fresh, s). Inr (if fresh then s else nointerrupt_leave s))"

definition yield :: "nat \<Rightarrow> 'a tasks_scheme \<Rightarrow> 'a tasks_scheme res" where
  "yield n s =
     (let s = nointerrupt_enter s;
          s = upd_pcb (current_running s) (\<lambda>r. r\<lparr>yield_count := yield_count r + 1\<rparr>) s
      in switch_task n s)"

definition preempt :: "nat \<Rightarrow> 'a tasks_scheme \<Rightarrow> 'a tasks_scheme res" where
  "preempt n s =
     (let s = nointerrupt_enter s;
          s = upd_pcb (current_running s) (\<lambda>r. r\<lparr>preempt_count := preempt_count r + 1\<rparr>) s
      in switch_task n s)"

text \<open>
  \<open>block\<close> walks to the end of the wait queue. A queue that ends has fewer links than there
  are control blocks, so the bound on the walk is reached only on a cyclic queue.
\<close>

fun wait_queue_end :: "nat \<Rightarrow> pcb_ptr \<Rightarrow> 'a tasks_scheme \<Rightarrow> pcb_ptr res" where
  "wait_queue_end 0 p s = Inl Diverges"
| "wait_queue_end (Suc n) p s =
     (if pcb_next (pcb_at s p) \<noteq> 0 then wait_queue_end n (pcb_next (pcb_at s p)) s else Inr p)"

definition block_enqueue :: "pcb_ptr \<Rightarrow> 'a tasks_scheme \<Rightarrow> (pcb_ptr \<times> 'a tasks_scheme) res" where
  "block_enqueue q s =
     (let s = nointerrupt_enter s;
          s = upd_pcb (current_running s) (\<lambda>r. r\<lparr>status := STATUS_BLOCKED\<rparr>) s
      in if q = 0 then Inr (current_running s, s)
         else bindR (wait_queue_end (PCB_TABLE_SIZE + 2) q s)
                (\<lambda>p. Inr (q, set_next p (current_running s) s)))"

definition block :: "nat \<Rightarrow> pcb_ptr \<Rightarrow> 'a tasks_scheme \<Rightarrow> (pcb_ptr \<times> 'a tasks_scheme) res" where
  "block n q s =
     bindR (block_enqueue q s)
       (\<lambda>(q, s). bindR (switch_task n s) (\<lambda>s. Inr (q, s)))"

definition unblock :: "pcb_ptr \<Rightarrow> 'a tasks_scheme \<Rightarrow> (pcb_ptr \<times> 'a tasks_scheme) res" where
  "unblock q s =
     (let s = nointerrupt_enter s in
      if q = 0 then Inl AssertFail
      else
        (let (job, q, s) = queue_shift q s;
             s = upd_pcb job (\<lambda>r. r\<lparr>status := STATUS_READY\<rparr>) s
         in bindR (queue_insert (current_running s) job s)
              (\<lambda>(c, s). Inr (q, nointerrupt_leave (s\<lparr>current_running := c\<rparr>)))))"

definition exit_task :: "nat \<Rightarrow> 'a tasks_scheme \<Rightarrow> 'a tasks_scheme res" where
  "exit_task n s =
     (let s = nointerrupt_enter s;
          s = upd_pcb (current_running s) (\<lambda>r. r\<lparr>status := STATUS_EXITED\<rparr>) s;
          s = (if is_thread (pcb_at s (current_running s)) = 0
               then s\<lparr>running_processes := running_processes s - 1\<rparr> else s)
      in switch_task n s)"

definition getpriority :: "'a tasks_scheme \<Rightarrow> u32" where
  "getpriority s = priority (pcb_at s (current_running s))"

definition setpriority :: "u32 \<Rightarrow> 'a tasks_scheme \<Rightarrow> 'a tasks_scheme" where
  "setpriority p s = upd_pcb (current_running s) (\<lambda>r. r\<lparr>priority := p\<rparr>) s"

text \<open>\<open>msleep\<close>: the product is computed in 32 bits before it is added to the 64-bit time.\<close>

definition msleep_wakeup :: "u32 \<Rightarrow> u32 \<Rightarrow> u64 \<Rightarrow> u64" where
  "msleep_wakeup msecs mhz now = now + ucast (msecs * mhz * 1000)"

definition msleep :: "nat \<Rightarrow> u32 \<Rightarrow> 'a tasks_scheme \<Rightarrow> 'a tasks_scheme res" where
  "msleep n msecs s =
     (let (now, s) = read_cpu_ticks s;
          s = upd_pcb (current_running s)
                (\<lambda>r. r\<lparr>wakeup_time := msleep_wakeup msecs (cpu_mhz s) now,
                       status := STATUS_SLEEPING\<rparr>) s
      in yield n s)"

section \<open>Frame lemmas\<close>

lemma upd_pcb_fields [simp]:
  "pmem (upd_pcb p f s) = pmem s"
  "tlb (upd_pcb p f s) = tlb s"
  "cr2 (upd_pcb p f s) = cr2 s"
  "cr3 (upd_pcb p f s) = cr3 s"
  "invlpg_slot (upd_pcb p f s) = invlpg_slot s"
  "nointerrupt_count_val (upd_pcb p f s) = nointerrupt_count_val s"
  "intr_flag (upd_pcb p f s) = intr_flag s"
  "tsc (upd_pcb p f s) = tsc s"
  "tsc_pos (upd_pcb p f s) = tsc_pos s"
  "pic_master_data (upd_pcb p f s) = pic_master_data s"
  "pic_slave_data (upd_pcb p f s) = pic_slave_data s"
  "tss_ss0 (upd_pcb p f s) = tss_ss0 s"
  "tss_esp0 (upd_pcb p f s) = tss_esp0 s"
  "cpu_mhz (upd_pcb p f s) = cpu_mhz s"
  "current_running (upd_pcb p f s) = current_running s"
  "running_processes (upd_pcb p f s) = running_processes s"
  "freelist (upd_pcb p f s) = freelist s"
  "next_pid (upd_pcb p f s) = next_pid s"
  "next_stack (upd_pcb p f s) = next_stack s"
  "saved_ctx (upd_pcb p f s) = saved_ctx s"
  "tasks.more (upd_pcb p f s) = tasks.more s"
  by (simp_all add: upd_pcb_def)

lemma pcb_at_upd_pcb: "pcb_at (upd_pcb p f s) x = (if x = p then f (pcb_at s p) else pcb_at s x)"
  by (simp add: upd_pcb_def)

lemma set_next_fields [simp]:
  "pmem (set_next p v s) = pmem s"
  "tlb (set_next p v s) = tlb s"
  "cr2 (set_next p v s) = cr2 s"
  "cr3 (set_next p v s) = cr3 s"
  "invlpg_slot (set_next p v s) = invlpg_slot s"
  "nointerrupt_count_val (set_next p v s) = nointerrupt_count_val s"
  "intr_flag (set_next p v s) = intr_flag s"
  "tsc (set_next p v s) = tsc s"
  "tsc_pos (set_next p v s) = tsc_pos s"
  "pic_master_data (set_next p v s) = pic_master_data s"
  "pic_slave_data (set_next p v s) = pic_slave_data s"
  "tss_ss0 (set_next p v s) = tss_ss0 s"
  "tss_esp0 (set_next p v s) = tss_esp0 s"
  "cpu_mhz (set_next p v s) = cpu_mhz s"
  "current_running (set_next p v s) = current_running s"
  "running_processes (set_next p v s) = running_processes s"
  "freelist (set_next p v s) = freelist s"
  "next_pid (set_next p v s) = next_pid s"
  "next_stack (set_next p v s) = next_stack s"
  "saved_ctx (set_next p v s) = saved_ctx s"
  "tasks.more (set_next p v s) = tasks.more s"
  by (simp_all add: set_next_def)

lemma set_previous_fields [simp]:
  "pmem (set_previous p v s) = pmem s"
  "tlb (set_previous p v s) = tlb s"
  "cr2 (set_previous p v s) = cr2 s"
  "cr3 (set_previous p v s) = cr3 s"
  "invlpg_slot (set_previous p v s) = invlpg_slot s"
  "nointerrupt_count_val (set_previous p v s) = nointerrupt_count_val s"
  "intr_flag (set_previous p v s) = intr_flag s"
  "tsc (set_previous p v s) = tsc s"
  "tsc_pos (set_previous p v s) = tsc_pos s"
  "pic_master_data (set_previous p v s) = pic_master_data s"
  "pic_slave_data (set_previous p v s) = pic_slave_data s"
  "tss_ss0 (set_previous p v s) = tss_ss0 s"
  "tss_esp0 (set_previous p v s) = tss_esp0 s"
  "cpu_mhz (set_previous p v s) = cpu_mhz s"
  "current_running (set_previous p v s) = current_running s"
  "running_processes (set_previous p v s) = running_processes s"
  "freelist (set_previous p v s) = freelist s"
  "next_pid (set_previous p v s) = next_pid s"
  "next_stack (set_previous p v s) = next_stack s"
  "saved_ctx (set_previous p v s) = saved_ctx s"
  "tasks.more (set_previous p v s) = tasks.more s"
  by (simp_all add: set_previous_def)

text \<open>The fields of a control block other than its links.\<close>

definition data_of :: "'a tasks_scheme \<Rightarrow> pcb_ptr \<Rightarrow> pcb" where
  "data_of s p = (pcb_at s p)\<lparr>pcb_next := 0, pcb_previous := 0\<rparr>"

lemma data_of_links [simp]:
  "data_of (set_next p v s) = data_of s" "data_of (set_previous p v s) = data_of s"
  "data_of (nointerrupt_enter s) = data_of s" "data_of (nointerrupt_leave s) = data_of s"
  "data_of (s\<lparr>current_running := c\<rparr>) = data_of s" "data_of (s\<lparr>freelist := c\<rparr>) = data_of s"
  by (auto simp: data_of_def set_next_def set_previous_def upd_pcb_def fun_eq_iff)

lemma pcb_at_eq:
  "pcb_at s' p = pcb_at s p \<longleftrightarrow>
     data_of s' p = data_of s p \<and> nexts s' p = nexts s p \<and> prevs s' p = prevs s p"
  by (cases "pcb_at s p"; cases "pcb_at s' p") (auto simp: data_of_def nexts_def prevs_def)

lemma status_data_of: "status (pcb_at s p) = status (data_of s p)"
  by (simp add: data_of_def)

text \<open>What no queue operation and no round of the scheduler changes.\<close>

definition same_machine :: "'a tasks_scheme \<Rightarrow> 'a tasks_scheme \<Rightarrow> bool" where
  "same_machine s s' \<longleftrightarrow> pmem s' = pmem s \<and> tlb s' = tlb s \<and> cr2 s' = cr2 s \<and> cr3 s' = cr3 s \<and>
     nointerrupt_count_val s' = nointerrupt_count_val s \<and> tsc s' = tsc s \<and>
     cpu_mhz s' = cpu_mhz s \<and> running_processes s' = running_processes s \<and>
     next_pid s' = next_pid s \<and> next_stack s' = next_stack s \<and> saved_ctx s' = saved_ctx s"

lemma queue_insert_frame:
  "queue_insert q p s = Inr (q', s') \<Longrightarrow> data_of s' = data_of s \<and>
     current_running s' = current_running s \<and> freelist s' = freelist s \<and> same_machine s s'"
  by (auto simp: queue_insert_def Let_def same_machine_def split: if_splits)

lemma queue_shift_frame:
  "queue_shift q s = (p, q', s') \<Longrightarrow> data_of s' = data_of s \<and>
     current_running s' = current_running s \<and> freelist s' = freelist s \<and> same_machine s s'"
  by (auto simp: queue_shift_def Let_def same_machine_def split: if_splits)

lemma status_preserved:
  "data_of s' = data_of s \<Longrightarrow> status (pcb_at s' p) = status (pcb_at s p)"
  by (simp add: status_data_of)

lemma links_set_status [link_simps]:
  "nexts (upd_pcb p (\<lambda>r. r\<lparr>status := v\<rparr>) s) = nexts s"
  "prevs (upd_pcb p (\<lambda>r. r\<lparr>status := v\<rparr>) s) = prevs s"
  "nexts (s\<lparr>tsc_pos := n\<rparr>) = nexts s" "prevs (s\<lparr>tsc_pos := n\<rparr>) = prevs s"
  by (auto simp: links_upd_pcb nexts_def prevs_def fun_eq_iff)

section \<open>Round robin\<close>

definition valid_status :: "u32 \<Rightarrow> bool" where
  "valid_status st \<longleftrightarrow> st \<in> {STATUS_FIRST_TIME, STATUS_READY, STATUS_SLEEPING, STATUS_BLOCKED,
     STATUS_EXITED}"

definition stays :: "u32 \<Rightarrow> bool" where
  "stays st \<longleftrightarrow> st \<in> {STATUS_FIRST_TIME, STATUS_READY, STATUS_SLEEPING}"

lemma free_pcb_appends:
  assumes "is_queue s (freelist s) fs" "p \<notin> set fs" "p \<noteq> 0" "nexts s p = 0"
  shows "\<exists>s'. free_pcb p s = Inr s' \<and> is_queue s' (freelist s') (fs @ [p]) \<and>
    data_of s' = data_of s \<and> current_running s' = current_running s \<and>
    (\<forall>x. x \<notin> set fs \<union> {p} \<longrightarrow> nexts s' x = nexts s x \<and> prevs s' x = prevs s x)"
proof -
  let ?s = "nointerrupt_enter s"
  have "is_queue ?s (freelist s) fs" "nexts ?s p = 0" using assms by (simp_all add: link_simps)
  then obtain q t where "queue_insert (freelist s) p ?s = Inr (q, t)" "is_queue t q (fs @ [p])"
    "\<forall>x. x \<notin> set fs \<union> {p} \<longrightarrow> nexts t x = nexts ?s x \<and> prevs t x = prevs ?s x"
    using queue_insert_refines [of ?s "freelist s" fs p] assms(2,3) by blast
  then show ?thesis
    using queue_insert_frame [of "freelist s" p ?s q t] by (auto simp: free_pcb_def link_simps)
qed

lemma scheduler_switch_stays:
  assumes q: "is_queue s (current_running s) (x # z # zs)" and st: "stays (status (pcb_at s x))"
  shows "\<exists>s'. scheduler_switch s = Inr s' \<and>
    is_queue s' (current_running s') (z # zs @ [x]) \<and> nexts s' = nexts s \<and> prevs s' = prevs s \<and>
    freelist s' = freelist s \<and> (\<forall>p. p \<noteq> x \<longrightarrow> data_of s' p = data_of s p)"
proof -
  have x: "current_running s = x" and nx: "nexts s x = z" and r: "ring (nexts s) (prevs s) (z # zs @ [x])"
    using q ring_unlink(2) [of "nexts s" "prevs s" x "z # zs"] ring_rotate1 [of "nexts s" "prevs s" x "z # zs"]
    by (auto simp: is_queue_def)
  show ?thesis
  proof (cases "status (pcb_at s x) = STATUS_SLEEPING")
    case True
    then show ?thesis
      using x nx r by (simp add: scheduler_switch_def Let_def read_cpu_ticks_def links_fold link_simps
          is_queue_def pcb_at_upd_pcb data_of_def)
  next
    case False
    then show ?thesis
      using x nx r st by (simp add: scheduler_switch_def Let_def links_fold link_simps
          is_queue_def stays_def)
  qed
qed

lemma scheduler_switch_leaves:
  assumes q: "is_queue s (current_running s) (x # z # zs)" and f: "is_queue s (freelist s) fs"
    and dist: "set (x # z # zs) \<inter> set fs = {}"
    and st: "status (pcb_at s x) = STATUS_BLOCKED \<or> status (pcb_at s x) = STATUS_EXITED"
  shows "\<exists>s'. scheduler_switch s = Inr s' \<and> is_queue s' (current_running s') (z # zs) \<and>
    is_queue s' (freelist s')
      (if status (pcb_at s x) = STATUS_EXITED then fs @ [x] else fs) \<and>
    data_of s' = data_of s \<and>
    (status (pcb_at s x) = STATUS_BLOCKED \<longrightarrow> nexts s' x = 0 \<and> prevs s' x = 0) \<and>
    (\<forall>p. p \<notin> set (x # z # zs) \<union> set fs \<longrightarrow> nexts s' p = nexts s p \<and> prevs s' p = prevs s p)"
proof -
  have x: "current_running s = x" using q by (simp add: is_queue_def)
  obtain q' t where t: "queue_shift x s = (x, q', t)" "is_queue t q' (z # zs)" "nexts t x = 0 \<and> prevs t x = 0"
    "\<forall>y. y \<notin> set (x # z # zs) \<longrightarrow> nexts t y = nexts s y \<and> prevs t y = prevs s y"
    using queue_shift_refines [OF q] x by auto
  note fr = queue_shift_frame [OF t(1)]
  have q': "q' = z" "q' \<noteq> 0" "x \<noteq> 0" "x \<notin> set (z # zs)"
    using t(2) q by (auto simp: is_queue_def ring_def)
  let ?t = "t\<lparr>current_running := q'\<rparr>"
  have "is_queue ?t (freelist s) fs"
  proof (rule is_queue_frame [OF f])
    fix y assume "y \<in> set fs"
    with dist have "y \<notin> set (x # z # zs)" by blast
    with t(4) show "nexts ?t y = nexts s y \<and> prevs ?t y = prevs s y" by (simp add: link_simps)
  qed
  with fr have ft: "is_queue ?t (freelist ?t) fs" by simp
  show ?thesis
  proof (cases "status (pcb_at s x) = STATUS_EXITED")
    case True
    obtain u where u: "free_pcb x ?t = Inr u" "is_queue u (freelist u) (fs @ [x])"
      "data_of u = data_of ?t" "current_running u = current_running ?t"
      "\<forall>y. y \<notin> set fs \<union> {x} \<longrightarrow> nexts u y = nexts ?t y \<and> prevs u y = prevs ?t y"
      using free_pcb_appends [OF ft, of x] q' t(3) dist by (auto simp: link_simps)
    have "is_queue u q' (z # zs)"
    proof (rule is_queue_frame [of ?t])
      show "is_queue ?t q' (z # zs)" using t(2) by simp
      fix y assume y: "y \<in> set (z # zs)"
      then have "y \<notin> set fs \<union> {x}" using dist q'(4) by auto
      with u(5) show "nexts u y = nexts ?t y \<and> prevs u y = prevs ?t y" by blast
    qed
    then show ?thesis
      using True u x t(1,4) q'(2) fr
      by (simp add: scheduler_switch_def status_defs status_data_of link_simps)
  next
    case False
    then show ?thesis
      using st x t q'(2) fr ft
      by (simp add: scheduler_switch_def status_defs status_data_of link_simps)
  qed
qed

lemma scheduler_loop_mono:
  "scheduler_loop n s = Inr s' \<Longrightarrow> n \<le> m \<Longrightarrow> scheduler_loop m s = Inr s'"
proof (induction n arbitrary: s m)
  case (Suc n)
  then obtain k where m: "m = Suc k" "n \<le> k" by (cases m) auto
  from Suc.prems(1) obtain t where t: "scheduler_switch s = Inr t"
    by (auto simp: bindR_eq_Inr)
  with Suc m show ?case by (auto split: if_splits)
qed simp

text \<open>
  \<open>picked_links fs x as y bs s s'\<close>: from the ready queue \<open>x # as @ y # bs\<close> and the free list
  \<open>fs\<close> the scheduler has moved on to \<open>y\<close>. The tasks it passed went to the end of the
  ready queue when they are ready or asleep, to the free list when they have exited, and out of
  every queue when they are blocked.
\<close>

definition picked_links ::
    "pcb_ptr list \<Rightarrow> pcb_ptr \<Rightarrow> pcb_ptr list \<Rightarrow> pcb_ptr \<Rightarrow> pcb_ptr list \<Rightarrow>
     'a tasks_scheme \<Rightarrow> 'a tasks_scheme \<Rightarrow> bool" where
  "picked_links fs x as y bs s s' \<longleftrightarrow>
     is_queue s' (current_running s')
       (y # bs @ filter (\<lambda>a. stays (status (pcb_at s a))) (x # as)) \<and>
     is_queue s' (freelist s') (fs @ filter (\<lambda>a. status (pcb_at s a) = STATUS_EXITED) (x # as)) \<and>
     (\<forall>p \<in> set (x # as). status (pcb_at s p) = STATUS_BLOCKED \<longrightarrow>
        nexts s' p = 0 \<and> prevs s' p = 0) \<and>
     (\<forall>p. p \<notin> set (x # as @ y # bs) \<union> set fs \<longrightarrow>
        nexts s' p = nexts s p \<and> prevs s' p = prevs s p)"

definition picked ::
    "pcb_ptr list \<Rightarrow> pcb_ptr \<Rightarrow> pcb_ptr list \<Rightarrow> pcb_ptr \<Rightarrow> pcb_ptr list \<Rightarrow>
     'a tasks_scheme \<Rightarrow> 'a tasks_scheme \<Rightarrow> bool" where
  "picked fs x as y bs s s' \<longleftrightarrow> picked_links fs x as y bs s s' \<and>
     (\<forall>p. p \<notin> set (x # as) \<longrightarrow> data_of s' p = data_of s p)"

lemma picked_current: "picked fs x as y bs s s' \<Longrightarrow> current_running s' = y"
  by (simp add: picked_def picked_links_def is_queue_def)

lemma status_at: "data_of s' p = data_of s p \<Longrightarrow> status (pcb_at s' p) = status (pcb_at s p)"
  by (simp add: status_data_of)

lemma switch_picked:
  assumes q: "is_queue s (current_running s) (x # y # bs)" and f: "is_queue s (freelist s) fs"
    and d: "set (x # y # bs) \<inter> set fs = {}" and v: "valid_status (status (pcb_at s x))"
  shows "\<exists>s'. scheduler_switch s = Inr s' \<and> picked fs x [] y bs s s'"
proof (cases "stays (status (pcb_at s x))")
  case True
  from scheduler_switch_stays [OF q True] obtain s' where s':
    "scheduler_switch s = Inr s'" "is_queue s' (current_running s') (y # bs @ [x])"
    "nexts s' = nexts s" "prevs s' = prevs s" "freelist s' = freelist s"
    "\<forall>p. p \<noteq> x \<longrightarrow> data_of s' p = data_of s p"
    by auto
  moreover have "is_queue s' (freelist s') fs" using f s'(3-5) by (simp add: is_queue_def)
  moreover have "status (pcb_at s x) \<noteq> STATUS_EXITED" "status (pcb_at s x) \<noteq> STATUS_BLOCKED"
    using True by (auto simp: stays_def status_defs)
  ultimately show ?thesis using True by (simp add: picked_def picked_links_def)
next
  case False
  then have st: "status (pcb_at s x) = STATUS_BLOCKED \<or> status (pcb_at s x) = STATUS_EXITED"
    using v by (auto simp: valid_status_def stays_def)
  from scheduler_switch_leaves [OF q f d st] False show ?thesis
    by (auto simp: picked_def picked_links_def)
qed

text \<open>Two moves in a row, the first over a task that the second does not touch.\<close>

lemma picked_trans:
  assumes 1: "picked fs x [] a (as @ y # bs) s t"
    and 2: "picked (fs @ filter (\<lambda>c. status (pcb_at s c) = STATUS_EXITED) [x]) a as y
              (bs @ filter (\<lambda>c. stays (status (pcb_at s c))) [x]) t u"
    and d: "distinct (x # a # as @ y # bs)" "set (x # a # as @ y # bs) \<inter> set fs = {}"
  shows "picked fs x (a # as) y bs s u"
proof -
  have st: "status (pcb_at t p) = status (pcb_at s p)" if "p \<in> set (a # as)" for p
    using 1 d that by (intro status_at) (auto simp: picked_def picked_links_def)
  have f: "filter (\<lambda>c. stays (status (pcb_at t c))) (a # as) =
      filter (\<lambda>c. stays (status (pcb_at s c))) (a # as)"
    "filter (\<lambda>c. status (pcb_at t c) = STATUS_EXITED) (a # as) =
      filter (\<lambda>c. status (pcb_at s c) = STATUS_EXITED) (a # as)"
    using st by (auto intro!: filter_cong)
  have b: "nexts u p = 0 \<and> prevs u p = 0"
    if "p \<in> set (x # a # as)" "status (pcb_at s p) = STATUS_BLOCKED" for p
  proof (cases "p = x")
    case True
    have "\<not> stays STATUS_BLOCKED" "STATUS_BLOCKED \<noteq> STATUS_EXITED"
      by (simp_all add: stays_def status_defs)
    then show ?thesis using 1 2 d that True by (auto simp: picked_def picked_links_def)
  next
    case False
    then show ?thesis using 2 that st by (auto simp: picked_def picked_links_def)
  qed
  have o: "nexts u p = nexts s p \<and> prevs u p = prevs s p"
    if "p \<notin> set (x # a # as @ y # bs) \<union> set fs" for p
    using 1 2 that by (auto simp: picked_def picked_links_def)
  have e: "data_of u p = data_of s p" if "p \<notin> set (x # a # as)" for p
    using 1 2 that by (auto simp: picked_def picked_links_def)
  have app: "filter P [x] @ filter P (a # as) = filter P (x # a # as)" for P
    by simp
  have "is_queue u (current_running u)
      (y # bs @ filter (\<lambda>c. stays (status (pcb_at s c))) (x # a # as))"
    "is_queue u (freelist u) (fs @ filter (\<lambda>c. status (pcb_at s c) = STATUS_EXITED) (x # a # as))"
    using 2 unfolding picked_def picked_links_def f append_assoc app by - (elim conjE, assumption)+
  then show ?thesis
    unfolding picked_def picked_links_def append_Cons
    by (intro conjI ballI allI impI) (assumption | erule o [THEN conjunct1] o [THEN conjunct2] e
      b [THEN conjunct1] b [THEN conjunct2])+
qed

text \<open>
  The task chosen is the first runnable one after the current task in the ready queue, and
  as many rounds as there are tasks before it are enough.
\<close>

lemma scheduler_loop_round_robin:
  assumes "is_queue s (current_running s) (x # as @ y # bs)" "is_queue s (freelist s) fs"
    and "set (x # as @ y # bs) \<inter> set fs = {}"
    and "\<forall>a \<in> set (x # as). valid_status (status (pcb_at s a))"
    and "\<forall>a \<in> set as. \<not> runnable_status (status (pcb_at s a))"
    and "runnable_status (status (pcb_at s y))"
  shows "\<exists>s'. scheduler_loop (Suc (length as)) s = Inr s' \<and> picked fs x as y bs s s'"
  using assms
proof (induction as arbitrary: s x bs fs)
  case Nil
  then obtain s' where s': "scheduler_switch s = Inr s'" "picked fs x [] y bs s s'"
    using switch_picked [of s x y bs fs] by auto
  moreover have "y \<noteq> x" using Nil.prems(1) by (auto simp: is_queue_def ring_def)
  ultimately have "status (pcb_at s' y) = status (pcb_at s y)"
    by (intro status_at) (simp add: picked_def picked_links_def)
  then show ?case using s' Nil.prems(6) picked_current [OF s'(2)] by simp
next
  case (Cons a as)
  obtain t where t: "scheduler_switch s = Inr t" "picked fs x [] a (as @ y # bs) s t"
    using switch_picked [of s x a "as @ y # bs" fs] Cons.prems by auto
  have dist: "distinct (x # a # as @ y # bs)" using Cons.prems(1) by (auto simp: is_queue_def ring_def)
  have st: "status (pcb_at t p) = status (pcb_at s p)" if "p \<in> set (a # as @ [y])" for p
    using t(2) dist that by (intro status_at) (auto simp: picked_def picked_links_def)
  let ?fs = "fs @ filter (\<lambda>c. status (pcb_at s c) = STATUS_EXITED) [x]"
  let ?bs = "bs @ filter (\<lambda>c. stays (status (pcb_at s c))) [x]"
  have "\<exists>u. scheduler_loop (Suc (length as)) t = Inr u \<and> picked ?fs a as y ?bs t u"
  proof (rule Cons.IH)
    show "is_queue t (current_running t) (a # as @ y # ?bs)" "is_queue t (freelist t) ?fs"
      using t(2) by (auto simp: picked_def picked_links_def)
    show "set (a # as @ y # ?bs) \<inter> set ?fs = {}"
      using Cons.prems(3) dist by (auto simp: stays_def status_defs)
  qed (use Cons.prems st in auto)
  then obtain u where u: "scheduler_loop (Suc (length as)) t = Inr u" "picked ?fs a as y ?bs t u"
    by blast
  have "picked fs x (a # as) y bs s u"
    using Cons.prems(3) by (intro picked_trans [OF t(2) u(2)] dist) auto
  moreover have "\<not> runnable_status (status (pcb_at t (current_running t)))"
    using Cons.prems(5) st picked_current [OF t(2)] by simp
  ultimately show ?case using t(1) u(1) by simp
qed

section \<open>A switch\<close>

lemma same_machine_trans: "same_machine s t \<Longrightarrow> same_machine t u \<Longrightarrow> same_machine s u"
  by (simp add: same_machine_def)

lemma free_pcb_frame: "free_pcb p s = Inr s' \<Longrightarrow> same_machine s s'"
  by (auto simp: free_pcb_def Let_def bindR_eq_Inr same_machine_def dest!: queue_insert_frame)

lemma scheduler_switch_frame: "scheduler_switch s = Inr s' \<Longrightarrow> same_machine s s'"
  by (auto simp: scheduler_switch_def Let_def read_cpu_ticks_def same_machine_def
      split: if_splits prod.splits dest!: queue_shift_frame free_pcb_frame)

lemma scheduler_loop_frame: "scheduler_loop n s = Inr s' \<Longrightarrow> same_machine s s'"
proof (induction n arbitrary: s)
  case (Suc n)
  then show ?case
    by (auto simp: bindR_eq_Inr split: if_splits dest!: scheduler_switch_frame
        intro: same_machine_trans)
qed simp

lemma setup_current_running_fields [simp]:
  "pcb_at (setup_current_running s) = pcb_at s" "freelist (setup_current_running s) = freelist s"
  "current_running (setup_current_running s) = current_running s"
  "saved_ctx (setup_current_running s) = saved_ctx s"
  "nointerrupt_count_val (setup_current_running s) = nointerrupt_count_val s"
  "running_processes (setup_current_running s) = running_processes s"
  "cr3 (setup_current_running s) = page_directory (pcb_at s (current_running s))"
  "tlb (setup_current_running s) = (\<lambda>_. None)"
  "pmem (setup_current_running s) = pmem s"
  by (simp_all add: setup_current_running_def Let_def pic_set_mask_def set_page_directory_def
      cpu_set_interrupt_stack_def)

lemma setup_current_running_mask [simp]:
  "pic_get_mask (setup_current_running s) = int_controller_mask (pcb_at s (current_running s))"
proof -
  let ?m = "int_controller_mask (pcb_at s (current_running s))"
  have "pic_get_mask (setup_current_running s) = pic_get_mask (pic_set_mask ?m s)"
    by (simp add: setup_current_running_def Let_def pic_set_mask_def set_page_directory_def
        cpu_set_interrupt_stack_def pic_get_mask_def)
  then show ?thesis by (simp add: pic_get_set_mask)
qed

text \<open>The hypotheses under which the scheduler finds \<open>y\<close> after the running task \<open>x\<close>.\<close>

definition next_runnable ::
    "pcb_ptr list \<Rightarrow> pcb_ptr \<Rightarrow> pcb_ptr list \<Rightarrow> pcb_ptr \<Rightarrow> pcb_ptr list \<Rightarrow> 'a tasks_scheme \<Rightarrow> bool" where
  "next_runnable fs x as y bs s \<longleftrightarrow>
     is_queue s (current_running s) (x # as @ y # bs) \<and> is_queue s (freelist s) fs \<and>
     set (x # as @ y # bs) \<inter> set fs = {} \<and>
     (\<forall>a \<in> set (x # as). valid_status (status (pcb_at s a))) \<and>
     (\<forall>a \<in> set as. \<not> runnable_status (status (pcb_at s a))) \<and>
     runnable_status (status (pcb_at s y))"

lemma next_runnable_cong:
  assumes "nexts s' = nexts s" "prevs s' = prevs s" "current_running s' = current_running s"
    "freelist s' = freelist s" "\<And>p. status (pcb_at s' p) = status (pcb_at s p)"
  shows "next_runnable fs x as y bs s' = next_runnable fs x as y bs s"
  unfolding next_runnable_def is_queue_def assms ..

lemma picked_links_cong:
  assumes "nexts s' = nexts s" "prevs s' = prevs s" "\<And>p. status (pcb_at s' p) = status (pcb_at s p)"
    "nexts t' = nexts t" "prevs t' = prevs t" "current_running t' = current_running t"
    "freelist t' = freelist t"
  shows "picked_links fs x as y bs s' t' = picked_links fs x as y bs s t"
  unfolding picked_links_def is_queue_def assms ..

lemma scheduler_chooses:
  assumes nr: "next_runnable fs x as y bs s" and n: "length as < n"
  shows "\<exists>t. scheduler n s = dispatch t \<and> picked_links fs x as y bs s t \<and>
    data_of t y = data_of s y \<and> same_machine (nointerrupt_enter s) t \<and>
    int_controller_mask (pcb_at t y) = int_controller_mask (pcb_at s y)"
proof -
  let ?s = "upd_pcb (current_running s) (\<lambda>r. r\<lparr>int_controller_mask := pic_get_mask
      (nointerrupt_enter s)\<rparr>) (nointerrupt_enter s)"
  have links: "nexts ?s = nexts s" "prevs ?s = prevs s"
    "status (pcb_at ?s p) = status (pcb_at s p)" for p
    by (auto simp: links_upd_pcb link_simps links_fold pcb_at_upd_pcb)
  have nr': "next_runnable fs x as y bs ?s"
    using nr links by (subst next_runnable_cong) auto
  then obtain t where t: "scheduler_loop (Suc (length as)) ?s = Inr t" "picked fs x as y bs ?s t"
    using scheduler_loop_round_robin unfolding next_runnable_def by blast
  have y: "y \<notin> set (x # as)" "current_running s = x"
    using nr by (auto simp: next_runnable_def is_queue_def ring_def)
  then have dy: "data_of t y = data_of s y"
    using t(2) by (auto simp: picked_def data_of_def pcb_at_upd_pcb)
  have "scheduler_loop n ?s = Inr t" using scheduler_loop_mono [OF t(1)] n by simp
  then have "scheduler n s = dispatch t"
    by (simp add: scheduler_def Let_def)
  moreover have "picked_links fs x as y bs s t"
    using t(2) links by (subst picked_links_cong [of ?s, symmetric]) (auto simp: picked_def)
  moreover have "same_machine (nointerrupt_enter s) t"
    using scheduler_loop_frame [OF t(1)] by (simp add: same_machine_def)
  moreover have "int_controller_mask (pcb_at t y) = int_controller_mask (pcb_at s y)"
    using arg_cong [OF dy, of int_controller_mask] by (simp add: data_of_def)
  ultimately show ?thesis using dy by blast
qed

lemma data_of_same:
  assumes "data_of t y = data_of s y"
  shows "page_directory (pcb_at t y) = page_directory (pcb_at s y)"
    "status (pcb_at t y) = status (pcb_at s y)" "is_thread (pcb_at t y) = is_thread (pcb_at s y)"
    "base_kernel_stack (pcb_at t y) = base_kernel_stack (pcb_at s y)"
  using arg_cong [OF assms, of page_directory] arg_cong [OF assms, of status]
    arg_cong [OF assms, of is_thread] arg_cong [OF assms, of base_kernel_stack]
  by (simp_all add: data_of_def)

text \<open>
  What the chosen task finds when it continues: its address space, its interrupt mask, and its
  own nesting of uninterruptable sections.
\<close>

definition resumed :: "pcb_ptr \<Rightarrow> 'a tasks_scheme \<Rightarrow> 'a tasks_scheme \<Rightarrow> bool" where
  "resumed y s s' \<longleftrightarrow> current_running s' = y \<and> status (pcb_at s' y) = STATUS_READY \<and>
     cr3 s' = page_directory (pcb_at s y) \<and> tlb s' = (\<lambda>_. None) \<and>
     pic_get_mask s' = int_controller_mask (pcb_at s y) \<and> pmem s' = pmem s \<and>
     (nointerrupt_count_val s', intr_flag s') =
       (if status (pcb_at s y) = STATUS_FIRST_TIME then (0, True)
        else (fst (saved_ctx s y) - 1, fst (saved_ctx s y) = 1 \<or> snd (saved_ctx s y)))"

lemma pic_get_mask_frame [simp]:
  "pic_get_mask (upd_pcb p f s) = pic_get_mask s"
  "pic_get_mask (s\<lparr>nointerrupt_count_val := c\<rparr>) = pic_get_mask s"
  "pic_get_mask (s\<lparr>intr_flag := i\<rparr>) = pic_get_mask s"
  by (simp_all add: pic_get_mask_def)

lemma dispatch_ready:
  assumes "status (pcb_at t (current_running t)) = STATUS_READY"
  shows "dispatch t = Inr (False, setup_current_running t)"
  using assms by (simp add: dispatch_def Let_def status_defs)

lemma dispatch_first_time:
  assumes "status (pcb_at t (current_running t)) = STATUS_FIRST_TIME"
    and "nointerrupt_count_val t < 256"
  shows "dispatch t = Inr (True, (upd_pcb (current_running t) (\<lambda>r. r\<lparr>status := STATUS_READY\<rparr>)
     (setup_current_running t))\<lparr>nointerrupt_count_val := 0, intr_flag := True\<rparr>)"
  using assms by (simp add: dispatch_def Let_def first_time_start_def nointerrupt_leave_delayed_def
      low_byte_one)

lemma switch_task_switches:
  assumes nr: "next_runnable fs x as y bs s" and n: "length as < n"
    and c: "nointerrupt_count_val s < 255"
  shows "\<exists>s'. switch_task n s = Inr s' \<and> picked_links fs x as y bs s s' \<and> resumed y s s' \<and>
    running_processes s' = running_processes s"
proof -
  let ?s = "s\<lparr>saved_ctx := (saved_ctx s)
              (current_running s := (nointerrupt_count_val s, intr_flag s))\<rparr>"
  have same: "nexts ?s = nexts s" "prevs ?s = prevs s" by (auto simp: nexts_def prevs_def fun_eq_iff)
  have "next_runnable fs x as y bs ?s" using nr same by (subst next_runnable_cong) auto
  from scheduler_chooses [OF this n] obtain t where t: "scheduler n ?s = dispatch t"
    "picked_links fs x as y bs ?s t" "data_of t y = data_of ?s y"
    "same_machine (nointerrupt_enter ?s) t"
    "int_controller_mask (pcb_at t y) = int_controller_mask (pcb_at s y)"
    by auto
  have y: "y \<noteq> x" "current_running s = x" "runnable_status (status (pcb_at s y))"
    using nr by (auto simp: next_runnable_def is_queue_def ring_def)
  have cur: "current_running t = y" using t(2) by (simp add: picked_links_def is_queue_def)
  have dy: "data_of t y = data_of s y" using t(3) by (simp add: data_of_def)
  have pl: "picked_links fs x as y bs s t"
    using t(2) same by (subst picked_links_cong [of ?s, symmetric]) auto
  have plc: "picked_links fs x as y bs s u" if "nexts u = nexts t" "prevs u = prevs t"
    "current_running u = current_running t" "freelist u = freelist t" for u
    using pl that by (subst picked_links_cong) auto
  show ?thesis
  proof (cases "status (pcb_at s y) = STATUS_FIRST_TIME")
    case True
    have "nointerrupt_count_val t < 256"
      using c t(4) by (simp add: same_machine_def word_less_nat_alt unat_word_ariths)
    with True have d: "dispatch t = Inr (True, (upd_pcb y (\<lambda>r. r\<lparr>status := STATUS_READY\<rparr>)
        (setup_current_running t))\<lparr>nointerrupt_count_val := 0, intr_flag := True\<rparr>)"
      using data_of_same(2) [OF dy] cur by (subst dispatch_first_time) auto
    let ?u = "(upd_pcb y (\<lambda>r. r\<lparr>status := STATUS_READY\<rparr>)
        (setup_current_running t))\<lparr>nointerrupt_count_val := 0, intr_flag := True\<rparr>"
    have "picked_links fs x as y bs s ?u"
      by (rule plc) (auto simp: nexts_def prevs_def fun_eq_iff pcb_at_upd_pcb)
    moreover have "resumed y s ?u"
      using True cur t(4,5) data_of_same [OF dy]
      by (simp add: resumed_def pcb_at_upd_pcb same_machine_def)
    moreover have "running_processes ?u = running_processes s" using t(4) by (simp add: same_machine_def)
    ultimately show ?thesis using t(1) d by (simp add: switch_task_def scheduler_entry_def Let_def)
  next
    case False
    then have st: "status (pcb_at s y) = STATUS_READY" using y(3) by (simp add: runnable_status_def)
    then have d: "dispatch t = Inr (False, setup_current_running t)"
      using data_of_same(2) [OF dy] cur by (intro dispatch_ready) simp
    let ?u = "nointerrupt_leave ((setup_current_running t)\<lparr>nointerrupt_count_val := fst (saved_ctx s y),
      intr_flag := snd (saved_ctx s y)\<rparr>)"
    have "picked_links fs x as y bs s ?u"
      by (rule plc) (auto simp: nexts_def prevs_def fun_eq_iff)
    moreover have "resumed y s ?u"
      using False st cur t(4,5) data_of_same [OF dy]
      by (auto simp: resumed_def same_machine_def nointerrupt_leave_def
          interrupts_enable_def Let_def)
    moreover have "running_processes ?u = running_processes s" using t(4) by (simp add: same_machine_def)
    moreover have "saved_ctx t y = saved_ctx s y" using t(4) y(1,2) by (simp add: same_machine_def)
    ultimately show ?thesis using t(1) d cur
      by (simp add: switch_task_def scheduler_entry_def Let_def split_beta)
  qed
qed

end
