(* ===== verification/Waitq.thy ===== *)
theory Waitq
  imports Scheduler
begin

text \<open>
  The wait queues of \<open>block\<close> and \<open>unblock\<close> (\<open>kernel/scheduler.c\<close>). A blocked task is
  on a list linked by \<open>next\<close> alone and ended by \<open>NULL\<close>, while \<open>unblock\<close> takes it off
  with \<open>queue_shift\<close>, which is written for the doubly-linked rings. The lemmas show that
  the two nevertheless implement a first-in first-out queue, and what \<open>queue_shift\<close> writes
  at address zero while doing so.
\<close>

section \<open>Singly-linked wait queues\<close>

fun slist :: "(pcb_ptr \<Rightarrow> pcb_ptr) \<Rightarrow> pcb_ptr \<Rightarrow> pcb_ptr list \<Rightarrow> bool" where
  "slist nx q [] \<longleftrightarrow> q = 0"
| "slist nx q (x # xs) \<longleftrightarrow> q = x \<and> x \<noteq> 0 \<and> slist nx (nx x) xs"

definition is_waitq :: "'a tasks_scheme \<Rightarrow> pcb_ptr \<Rightarrow> pcb_ptr list \<Rightarrow> bool" where
  "is_waitq s q ws \<longleftrightarrow> slist (nexts s) q ws \<and> distinct ws \<and> (\<forall>w \<in> set ws. prevs s w = 0)"

lemma slist_nonzero: "slist nx q ws \<Longrightarrow> 0 \<notin> set ws"
  by (induction nx q ws rule: slist.induct) auto

lemma slist_cong:
  "slist nx q ws \<Longrightarrow> (\<And>w. w \<in> set ws \<Longrightarrow> nx' w = nx w) \<Longrightarrow> slist nx' q ws"
  by (induction nx q ws rule: slist.induct) auto

lemma slist_snoc:
  assumes "slist nx q (ws @ [l])" "distinct (ws @ [l])" "x \<noteq> 0" "x \<notin> set (ws @ [l])"
  shows "slist (nx(l := x, x := 0)) q (ws @ [l, x])"
  using assms by (induction ws arbitrary: q) auto

lemma is_waitq_frame:
  "is_waitq s q ws \<Longrightarrow> (\<And>w. w \<in> set ws \<Longrightarrow> nexts s' w = nexts s w \<and> prevs s' w = prevs s w) \<Longrightarrow>
   is_waitq s' q ws"
  unfolding is_waitq_def by (auto intro: slist_cong)

lemma wait_queue_end_last:
  "slist (nexts s) q (ws @ [l]) \<Longrightarrow> length ws < n \<Longrightarrow> wait_queue_end n q s = Inr l"
proof (induction ws arbitrary: q n)
  case Nil
  then show ?case by (cases n) (auto simp: links_fold)
next
  case (Cons w ws)
  from Cons.prems obtain m where n: "n = Suc m" "length ws < m" by (cases n) auto
  have "nexts s w \<noteq> 0" using Cons.prems(1) by (cases ws) auto
  then show ?case using Cons n by (auto simp: links_fold)
qed

lemma waitq_bounded:
  "distinct ws \<Longrightarrow> set ws \<subseteq> {1..dummy_kernel_pcb} \<Longrightarrow> length ws \<le> PCB_TABLE_SIZE + 1"
  using card_mono [of "{1..dummy_kernel_pcb}" "set ws"]
  by (simp add: distinct_card dummy_kernel_pcb_def)

section \<open>Blocking\<close>

lemma next_runnable_status:
  assumes "next_runnable fs x as y bs s" "valid_status v"
  shows "next_runnable fs x as y bs (upd_pcb x (\<lambda>r. r\<lparr>status := v\<rparr>) s)"
proof -
  have "x \<notin> set as" "x \<noteq> y" using assms(1) by (auto simp: next_runnable_def is_queue_def ring_def)
  then show ?thesis
    using assms by (auto simp: next_runnable_def is_queue_def link_simps pcb_at_upd_pcb)
qed

lemma next_runnable_links:
  assumes "next_runnable fs x as y bs s" "p \<notin> set (x # as @ y # bs) \<union> set fs"
  shows "next_runnable fs x as y bs (set_next p v s)"
proof -
  have st: "status (pcb_at (set_next p v s) a) = status (pcb_at s a)" for a
    by (simp add: status_data_of)
  have "is_queue (set_next p v s) (current_running s) (x # as @ y # bs)"
    by (rule is_queue_frame [of s])
      (use assms in \<open>auto simp: next_runnable_def nexts_set_next prevs_set_next\<close>)
  moreover have "is_queue (set_next p v s) (freelist s) fs"
    by (rule is_queue_frame [of s])
      (use assms in \<open>auto simp: next_runnable_def nexts_set_next prevs_set_next\<close>)
  ultimately show ?thesis
    using assms(1) by (auto simp: next_runnable_def st)
qed

lemma next_runnable_enter [simp]:
  "next_runnable fs x as y bs (nointerrupt_enter s) = next_runnable fs x as y bs s"
  by (rule next_runnable_cong) (auto simp: link_simps)

text \<open>\<open>block\<close> up to its switch: the running task is linked behind the last waiter.\<close>

lemma block_enqueue_links:
  assumes nr: "next_runnable fs x as y bs s" and wq: "is_waitq s q ws"
    and ws: "set ws \<subseteq> {1..dummy_kernel_pcb}" "set ws \<inter> (set (x # as @ y # bs) \<union> set fs) = {}"
  shows "\<exists>t. block_enqueue q s = Inr (head_of (ws @ [x]), t) \<and> next_runnable fs x as y bs t \<and>
    status (pcb_at t x) = STATUS_BLOCKED \<and> same_machine (nointerrupt_enter s) t \<and>
    (\<forall>p. p \<noteq> x \<longrightarrow> data_of t p = data_of s p) \<and> prevs t = prevs s \<and>
    nexts t = (if ws = [] then nexts s else (nexts s)(last ws := x))"
proof -
  let ?t = "upd_pcb x (\<lambda>r. r\<lparr>status := STATUS_BLOCKED\<rparr>) (nointerrupt_enter s)"
  have x: "current_running s = x" "x \<noteq> 0"
    using nr by (auto simp: next_runnable_def is_queue_def ring_def)
  have nr': "next_runnable fs x as y bs ?t"
    using nr by (intro next_runnable_status) (auto simp: valid_status_def)
  have lk: "nexts ?t = nexts s" "prevs ?t = prevs s" by (simp_all add: link_simps)
  have dt: "data_of ?t p = data_of s p" if "p \<noteq> x" for p
    using that by (simp add: data_of_def pcb_at_upd_pcb)
  have sb: "status (pcb_at ?t x) = STATUS_BLOCKED" by (simp add: pcb_at_upd_pcb)
  show ?thesis
  proof (cases ws rule: rev_cases)
    case Nil
    then show ?thesis
      using wq x nr' lk dt sb
      by (simp add: is_waitq_def block_enqueue_def Let_def same_machine_def)
  next
    case (snoc us l)
    have q: "q = head_of (ws @ [x])" "q \<noteq> 0" using wq snoc by (cases us; auto simp: is_waitq_def)+
    have "slist (nexts ?t) q (us @ [l])" using wq lk snoc by (simp add: is_waitq_def)
    moreover have "length us < PCB_TABLE_SIZE + 2"
      using waitq_bounded [of ws] wq ws(1) snoc by (simp add: is_waitq_def)
    ultimately have e: "wait_queue_end (PCB_TABLE_SIZE + 2) q ?t = Inr l"
      by (rule wait_queue_end_last)
    have nrl: "next_runnable fs x as y bs (set_next l x ?t)"
      using nr' ws(2) snoc by (intro next_runnable_links) auto
    have "block_enqueue q s = Inr (q, set_next l x ?t)"
      using q(2) x e by (simp add: block_enqueue_def Let_def del: wait_queue_end.simps add_2_eq_Suc')
    moreover have "same_machine (nointerrupt_enter s) (set_next l x ?t)"
      by (simp add: same_machine_def)
    moreover have "status (pcb_at (set_next l x ?t) x) = STATUS_BLOCKED"
      using sb by (simp add: status_data_of)
    ultimately show ?thesis
      using q(1) nrl lk dt snoc by (simp add: nexts_set_next prevs_set_next)
  qed
qed

lemma block_appends:
  assumes nr: "next_runnable fs x as y bs s" and wq: "is_waitq s q ws"
    and ws: "set ws \<subseteq> {1..dummy_kernel_pcb}" "set ws \<inter> (set (x # as @ y # bs) \<union> set fs) = {}"
    and n: "length as < n" and c: "nointerrupt_count_val s < 254"
  shows "\<exists>s'. block n q s = Inr (head_of (ws @ [x]), s') \<and>
    is_waitq s' (head_of (ws @ [x])) (ws @ [x]) \<and> current_running s' = y \<and>
    is_queue s' y (y # bs @ filter (\<lambda>a. stays (status (pcb_at s a))) as)"
proof -
  obtain t where t: "block_enqueue q s = Inr (head_of (ws @ [x]), t)"
    "next_runnable fs x as y bs t" "status (pcb_at t x) = STATUS_BLOCKED"
    "same_machine (nointerrupt_enter s) t" "\<forall>p. p \<noteq> x \<longrightarrow> data_of t p = data_of s p"
    "prevs t = prevs s" "nexts t = (if ws = [] then nexts s else (nexts s)(last ws := x))"
    using block_enqueue_links [OF nr wq ws] by blast
  have "nointerrupt_count_val t < 255"
    using c t(4) by (simp add: same_machine_def word_less_nat_alt unat_word_ariths)
  then obtain u where u: "switch_task n t = Inr u" "picked_links fs x as y bs t u" "resumed y t u"
    using switch_task_switches [OF t(2) n] by blast
  have x: "x \<noteq> 0" "x \<notin> set as" "x \<notin> set ws"
    using nr ws(2) by (auto simp: next_runnable_def is_queue_def ring_def)
  have out: "nexts u w = nexts t w \<and> prevs u w = prevs t w" if "w \<in> set ws" for w
    using u(2) ws(2) that unfolding picked_links_def by blast
  have ux: "nexts u x = 0" "prevs u x = 0" using u(2) t(3) by (simp_all add: picked_links_def)
  have "is_waitq u (head_of (ws @ [x])) (ws @ [x])"
  proof (cases ws rule: rev_cases)
    case Nil
    then show ?thesis using ux x by (simp add: is_waitq_def)
  next
    case (snoc us l)
    have "slist (nexts s) q (us @ [l])" "distinct (us @ [l])" using wq snoc by (simp_all add: is_waitq_def)
    then have "slist ((nexts s)(l := x, x := 0)) q (us @ [l, x])"
      using x snoc by (intro slist_snoc) auto
    then have "slist (nexts u) q (us @ [l, x])"
      by (rule slist_cong) (use out t(7) ux snoc in auto)
    moreover have "q = head_of (ws @ [x])" using wq snoc by (cases us) (auto simp: is_waitq_def)
    ultimately show ?thesis
      using wq out t(6) ux x snoc by (auto simp: is_waitq_def)
  qed
  moreover have "filter (\<lambda>a. stays (status (pcb_at t a))) (x # as) =
      filter (\<lambda>a. stays (status (pcb_at s a))) as"
    using t(3,5) x(2) by (auto simp: status_data_of stays_def status_defs intro!: filter_cong)
  ultimately show ?thesis
    using t(1) u by (auto simp: block_def picked_links_def resumed_def)
qed

section \<open>Unblocking\<close>

text \<open>
  The shift of a singly-linked queue. The back link of the first waiter is \<open>NULL\<close>, so its
  \<open>previous->next = next\<close> stores at address zero, and so does
  \<open>next->previous = previous\<close> when it is the only waiter.
\<close>

lemma queue_shift_waitq:
  assumes wq: "is_waitq s q (w # ws)"
  shows "\<exists>s'. queue_shift q s = (w, head_of ws, s') \<and>
    nexts s' = (nexts s)(0 := head_of ws, w := 0) \<and>
    prevs s' = (prevs s)(head_of ws := 0, w := 0)"
proof -
  have q: "q = w" "w \<noteq> 0" "prevs s w = 0" "nexts s w = head_of ws"
    using wq by (cases ws; auto simp: is_waitq_def)+
  have "head_of ws \<noteq> w" using wq by (cases ws) (auto simp: is_waitq_def)
  then show ?thesis
    using q by (simp add: queue_shift_def Let_def links_fold link_simps)
qed

lemma unblock_moves:
  assumes wq: "is_waitq s q (w # ws)" and rq: "is_queue s (current_running s) (r # rs)"
    and d: "set (w # ws) \<inter> set (r # rs) = {}"
  shows "\<exists>s'. unblock q s = Inr (head_of ws, s') \<and> is_waitq s' (head_of ws) ws \<and>
    is_queue s' (current_running s') (r # rs @ [w]) \<and> current_running s' = r \<and>
    status (pcb_at s' w) = STATUS_READY \<and>
    (\<forall>p. p \<noteq> w \<longrightarrow> data_of s' p = data_of s p) \<and>
    nexts s' 0 = head_of ws \<and> nointerrupt_count_val s' = nointerrupt_count_val s"
proof -
  let ?s = "nointerrupt_enter s"
  have "is_waitq ?s q (w # ws)" using wq by (simp add: is_waitq_def link_simps)
  from queue_shift_waitq [OF this] obtain t where t: "queue_shift q ?s = (w, head_of ws, t)"
    "nexts t = (nexts s)(0 := head_of ws, w := 0)" "prevs t = (prevs s)(head_of ws := 0, w := 0)"
    by (auto simp: link_simps)
  note fr = queue_shift_frame [OF t(1)]
  have nz: "0 \<notin> set (w # ws)" "w \<notin> set ws" "q \<noteq> 0"
    using wq slist_nonzero by (fastforce simp: is_waitq_def)+
  have rnz: "0 \<notin> set (r # rs)" "current_running s = r" using rq by (auto simp: is_queue_def ring_def)
  have hd: "head_of ws = 0 \<or> head_of ws \<in> set ws" by (cases ws) auto
  let ?t = "upd_pcb w (\<lambda>r. r\<lparr>status := STATUS_READY\<rparr>) t"
  have lk: "nexts ?t = nexts t" "prevs ?t = prevs t" by (simp_all add: link_simps)
  have "is_queue ?t r (r # rs)"
  proof (rule is_queue_frame)
    show "is_queue s r (r # rs)" using rq rnz(2) by simp
    fix p assume p: "p \<in> set (r # rs)"
    have "p \<noteq> 0" "p \<noteq> w" "p \<notin> set ws" using p rnz(1) d by (metis, auto)
    then show "nexts ?t p = nexts s p \<and> prevs ?t p = prevs s p"
      using lk t(2,3) hd by auto
  qed
  moreover have "w \<notin> set (r # rs)" "nexts ?t w = 0" using d lk t(2) nz by auto
  ultimately obtain c u where u: "queue_insert r w ?t = Inr (c, u)" "is_queue u c ((r # rs) @ [w])"
    "\<forall>p. p \<notin> set (r # rs) \<union> {w} \<longrightarrow> nexts u p = nexts ?t p \<and> prevs u p = prevs ?t p"
    using queue_insert_refines [of ?t r "r # rs" w] nz by auto
  note fu = queue_insert_frame [OF u(1)]
  have c: "c = r" using u(2) by (simp add: is_queue_def)
  have slw: "slist (nexts s) (head_of ws) ws" using wq by (cases ws) (auto simp: is_waitq_def)
  have out: "nexts u p = nexts t p \<and> prevs u p = prevs t p" if "p \<in> insert 0 (set ws)" for p
    using u(3) lk that d nz rnz by auto
  have "is_waitq u (head_of ws) ws"
    unfolding is_waitq_def
  proof (intro conjI ballI)
    show "slist (nexts u) (head_of ws) ws"
      by (rule slist_cong [OF slw]) (use out t(2) nz in auto)
    show "distinct ws" using wq by (simp add: is_waitq_def)
    show "prevs u p = 0" if "p \<in> set ws" for p
      using out [of p] t(3) wq nz that by (auto simp: is_waitq_def)
  qed
  moreover have "unblock q s = Inr (head_of ws, nointerrupt_leave (u\<lparr>current_running := r\<rparr>))"
    using t(1) u(1) c fr nz(3) rnz(2) by (simp add: unblock_def Let_def)
  moreover have "nexts u 0 = head_of ws" using out [of 0] t(2) nz by simp
  moreover have "data_of u p = data_of s p" if "p \<noteq> w" for p
    using fu fr that by (simp add: data_of_def pcb_at_upd_pcb fun_eq_iff)
  moreover have "status (pcb_at u w) = STATUS_READY"
    using fu by (simp add: status_data_of) (simp add: data_of_def pcb_at_upd_pcb)
  ultimately show ?thesis
    using u(2) c fu fr by (simp add: is_waitq_def link_simps same_machine_def)
qed

end
