(* ===== verification/TaskProps.thy ===== *)
theory TaskProps
  imports Waitq
begin

text \<open>
  The properties of tasks, queues and the scheduler, stated over the operations of
  \<open>pcb.c\<close>, \<open>scheduler.c\<close> and \<open>sleep.c\<close> and proved from the refinement lemmas of the
  theories below. The states defined first are small systems in which the hypotheses hold.
\<close>

unbundle bit_operations_syntax

section \<open>Small systems\<close>

text \<open>The task state before \<open>init_pcb_table\<close> ran, with zeroed static storage.\<close>

definition static_tasks :: tasks where
  "static_tasks = \<lparr>pmem = (\<lambda>_. 0), tlb = (\<lambda>_. None), cr2 = 0, cr3 = 0, invlpg_slot = 0x9000,
     nointerrupt_count_val = 0, intr_flag = True, tsc = of_nat, tsc_pos = 0,
     pic_master_data = 0, pic_slave_data = 0, tss_ss0 = 0, tss_esp0 = 0, cpu_mhz = 1000,
     pcb_at = (\<lambda>_. zero_pcb), current_running = 0, running_processes = 0, freelist = 0,
     next_pid = 0, next_stack = T_KSTACK_AREA_MIN_PADDR, saved_ctx = (\<lambda>_. (0, True))\<rparr>"

text \<open>Control blocks with given links and status.\<close>

definition linked :: "pcb_ptr \<Rightarrow> pcb_ptr \<Rightarrow> u32 \<Rightarrow> pcb" where
  "linked n p st = zero_pcb\<lparr>pcb_next := n, pcb_previous := p, status := st\<rparr>"

text \<open>
  Three tasks in the ready queue: 1 is running, 2 sleeps for long, 3 is ready. Tasks 4 and 5
  wait on a wait queue.
\<close>

definition three_tasks :: "u32 \<Rightarrow> tasks" where
  "three_tasks st = static_tasks\<lparr>current_running := 1, running_processes := 3,
     pcb_at := (\<lambda>_. zero_pcb)
       (1 := linked 2 3 st, 2 := (linked 3 1 STATUS_SLEEPING)\<lparr>wakeup_time := 1000\<rparr>,
        3 := linked 1 2 STATUS_READY, 4 := linked 5 0 STATUS_BLOCKED,
        5 := linked 0 0 STATUS_BLOCKED)\<rparr>"

text \<open>The same with task 4 taken off its queue.\<close>

definition one_loose_task :: tasks where
  "one_loose_task = upd_pcb 4 (\<lambda>_. linked 0 0 STATUS_READY) (three_tasks STATUS_READY)"

lemma linked_fields [simp]:
  "pcb_next (linked n p st) = n" "pcb_previous (linked n p st) = p" "status (linked n p st) = st"
  "is_thread (linked n p st) = 0"
  by (simp_all add: linked_def zero_pcb_def)

lemma three_tasks_fields [simp]:
  "current_running (three_tasks st) = 1" "freelist (three_tasks st) = 0"
  "nointerrupt_count_val (three_tasks st) = 0" "running_processes (three_tasks st) = 3"
  "saved_ctx (three_tasks st) = (\<lambda>_. (0, True))"
  by (simp_all add: three_tasks_def static_tasks_def)

lemma three_tasks_ready_queue: "is_queue (three_tasks st) 1 [1, 2, 3]"
  by (simp add: is_queue_def ring_def nexts_def prevs_def three_tasks_def)

lemma three_tasks_wait_queue: "is_waitq (three_tasks st) 4 [4, 5]"
  by (simp add: is_waitq_def nexts_def prevs_def three_tasks_def)

lemma three_tasks_next:
  "valid_status st \<Longrightarrow> next_runnable [] 1 [2] 3 [] (three_tasks st)"
  using three_tasks_ready_queue [of st]
  by (simp add: next_runnable_def is_queue_def [of _ 0]) (simp add: three_tasks_def valid_status_def
      runnable_status_def status_defs)

section \<open>Queues\<close>

text \<open>
  C18: The ring queues of \<open>pcb.c\<close> implement first-in first-out lists. On a well-formed ring
  that holds the tasks \<open>xs\<close>, \<open>queue_insert\<close> of a task that is in no queue yields the ring
  \<open>xs @ [p]\<close>, and \<open>queue_shift\<close> then takes off the oldest task and leaves the ring of the
  others; no block outside the queue is changed.
\<close>

theorem ring_queue_fifo:
  assumes "is_queue s q xs" "p \<notin> set xs" "p \<noteq> 0" "pcb_next (pcb_at s p) = 0"
  shows "\<exists>q1 s1 q2 s2. queue_insert q p s = Inr (q1, s1) \<and> is_queue s1 q1 (xs @ [p]) \<and>
    queue_shift q1 s1 = (hd (xs @ [p]), q2, s2) \<and> is_queue s2 q2 (tl (xs @ [p])) \<and>
    (\<forall>y. y \<notin> set xs \<union> {p} \<longrightarrow> pcb_at s2 y = pcb_at s y)"
proof -
  obtain q1 s1 where 1: "queue_insert q p s = Inr (q1, s1)" "is_queue s1 q1 (xs @ [p])"
    "\<forall>y. y \<notin> set xs \<union> {p} \<longrightarrow> nexts s1 y = nexts s y \<and> prevs s1 y = prevs s y"
    using queue_insert_refines [OF assms(1-3)] assms(4) by (auto simp: nexts_def)
  have "is_queue s1 q1 (hd (xs @ [p]) # tl (xs @ [p]))" using 1(2) by (cases xs) auto
  from queue_shift_refines [OF this] obtain q2 s2 where
    2: "queue_shift q1 s1 = (hd (xs @ [p]), q2, s2)" "is_queue s2 q2 (tl (xs @ [p]))"
    "\<forall>y. y \<notin> set (xs @ [p]) \<longrightarrow> nexts s2 y = nexts s1 y \<and> prevs s2 y = prevs s1 y"
    by (cases xs) auto
  have d: "data_of s2 = data_of s" using queue_insert_frame [OF 1(1)] queue_shift_frame [OF 2(1)] by simp
  have "pcb_at s2 y = pcb_at s y" if "y \<notin> set xs \<union> {p}" for y
    using d 1(3) 2(3) that by (auto simp: pcb_at_eq)
  then show ?thesis using 1 2 by blast
qed

theorem ring_queue_fifo_witness:
  "\<exists>q1 s1 q2 s2. queue_insert 1 4 one_loose_task = Inr (q1, s1) \<and>
    queue_shift q1 s1 = (1, q2, s2) \<and> is_queue s2 q2 [2, 3, 4]"
proof -
  have "is_queue one_loose_task 1 [1, 2, 3]" "pcb_next (pcb_at one_loose_task 4) = 0"
    by (simp_all add: is_queue_def ring_def nexts_def prevs_def one_loose_task_def three_tasks_def
        upd_pcb_def)
  with ring_queue_fifo [of one_loose_task 1 "[1, 2, 3]" 4] show ?thesis by fastforce
qed

text \<open>
  C19: \<open>queue_remove\<close> of a member takes exactly that task out of the ring, keeping the order
  of the others and leaving the task with null links, and \<open>queue_pos\<close> gives the member's
  position in the order of the ring, for every ring of at most \<open>PCB_TABLE_SIZE\<close> tasks.
\<close>

theorem ring_queue_remove:
  assumes "is_queue s q (as @ p # bs)" "length (as @ p # bs) \<le> PCB_TABLE_SIZE"
  shows "(\<exists>t. queue_pos q p s = Inr (int (length as), t)) \<and>
    (\<exists>q' s'. queue_remove q p s = Inr (q', s') \<and> is_queue s' q' (as @ bs) \<and>
      pcb_next (pcb_at s' p) = 0 \<and> pcb_previous (pcb_at s' p) = 0)"
  using queue_pos_correct(1) [OF assms, of "length as"] queue_remove_refines [OF assms]
  by (auto simp: links_fold)

theorem ring_queue_remove_witness:
  "\<exists>q' s'. queue_remove 1 2 (three_tasks STATUS_READY) = Inr (q', s') \<and> is_queue s' q' [1, 3]"
  using ring_queue_remove [of "three_tasks STATUS_READY" 1 "[1]" 2 "[3]"] three_tasks_ready_queue
  by (auto simp: PCB_TABLE_SIZE_def)

text \<open>
  C20: \<open>queue_remove\<close> of a task that is not in the queue stops at its assertion, whatever the
  ring holds; it never unlinks a task of another queue.
\<close>

theorem ring_queue_remove_foreign:
  assumes "is_queue s q xs" "length xs \<le> PCB_TABLE_SIZE" "p \<notin> set xs"
  shows "queue_remove q p s = Inl AssertFail"
proof -
  have "is_queue (nointerrupt_enter s) q xs" using assms(1) by simp
  from queue_pos_correct(2) [OF this assms(2,3)] show ?thesis
    by (simp add: queue_remove_def Let_def)
qed

theorem ring_queue_remove_foreign_witness:
  "queue_remove 1 5 (three_tasks STATUS_READY) = Inl AssertFail"
  using ring_queue_remove_foreign [OF three_tasks_ready_queue, of 5 STATUS_READY]
  by (simp add: PCB_TABLE_SIZE_def)

section \<open>Control blocks\<close>

text \<open>
  C21: After \<open>init_pcb_table\<close> every block of the table is free, in table order, and no task is
  running; \<open>alloc_pcb\<close> then hands out the first block, unlinked, and \<open>free_pcb\<close> of that
  block puts it behind all the others. The interrupt state is kept throughout.
\<close>

theorem pcb_table_alloc_free:
  "\<exists>s0 s1 s2. init_pcb_table s = Inr s0 \<and> current_running s0 = 0 \<and>
    is_queue s0 (freelist s0) [1..<PCB_TABLE_SIZE + 1] \<and>
    alloc_pcb s0 = Inr (1, s1) \<and> is_queue s1 (freelist s1) [2..<PCB_TABLE_SIZE + 1] \<and>
    pcb_next (pcb_at s1 1) = 0 \<and>
    free_pcb 1 s1 = Inr s2 \<and> is_queue s2 (freelist s2) ([2..<PCB_TABLE_SIZE + 1] @ [1])"
proof -
  obtain s0 where s0: "init_pcb_table s = Inr s0" "current_running s0 = 0"
    "is_queue s0 (freelist s0) [1..<PCB_TABLE_SIZE + 1]"
    using init_pcb_table_freelist [of s] by blast
  have split: "[1..<PCB_TABLE_SIZE + 1] = 1 # [2..<PCB_TABLE_SIZE + 1]"
    by (simp add: PCB_TABLE_SIZE_def upt_conv_Cons numeral_2_eq_2)
  obtain s1 where s1: "alloc_pcb s0 = Inr (1, s1)" "nexts s1 1 = 0"
    "is_queue s1 (freelist s1) [2..<PCB_TABLE_SIZE + 1]"
    using alloc_pcb_shifts [OF s0(3) [unfolded split]] by blast
  obtain s2 where "free_pcb 1 s1 = Inr s2" "is_queue s2 (freelist s2) ([2..<PCB_TABLE_SIZE + 1] @ [1])"
    using free_pcb_appends [OF s1(3), of 1] s1(2) by auto
  with s0 s1 show ?thesis by (auto simp: nexts_def)
qed

section \<open>Scheduling\<close>

text \<open>
  C22: \<open>yield\<close> is round robin. When task \<open>x\<close> yields and \<open>y\<close> is the first runnable task
  behind it in the ready queue, control passes to \<open>y\<close>: the tasks that were passed over keep
  their order behind it, blocked ones leave the queue and exited ones return to the free list.
  The resumed task sees its own page directory with an empty TLB, its own interrupt mask, and
  its own nesting count and interrupt flag. A bound of one iteration per task passed over is
  enough for the scheduler's loop.
\<close>

theorem yield_round_robin:
  assumes "next_runnable fs x as y bs s" "length as < n" "nointerrupt_count_val s < 254"
    and "stays (status (pcb_at s x))"
  shows "\<exists>s'. yield n s = Inr s' \<and>
    is_queue s' y (y # bs @ x # filter (\<lambda>a. stays (status (pcb_at s a))) as) \<and>
    is_queue s' (freelist s') (fs @ filter (\<lambda>a. status (pcb_at s a) = STATUS_EXITED) as) \<and>
    resumed y s s'"
proof -
  let ?t = "upd_pcb (current_running s) (\<lambda>r. r\<lparr>yield_count := yield_count r + 1\<rparr>) (nointerrupt_enter s)"
  have x: "current_running s = x" and xy: "x \<noteq> y"
    using assms(1) by (auto simp: next_runnable_def is_queue_def ring_def)
  have eqs: "nexts ?t = nexts s" "prevs ?t = prevs s" "\<And>p. status (pcb_at ?t p) = status (pcb_at s p)"
    by (auto simp: links_upd_pcb link_simps pcb_at_upd_pcb fun_eq_iff) (simp_all add: nexts_def prevs_def)
  have nr: "next_runnable fs x as y bs ?t"
    using assms(1) next_runnable_cong [of ?t s fs x as y bs] eqs by simp
  have "nointerrupt_count_val ?t < 255"
    using assms(3) by (simp add: nointerrupt_enter_def interrupts_disable_def Let_def word_less_nat_alt
        unat_word_ariths)
  then obtain s' where s': "switch_task n ?t = Inr s'" "picked_links fs x as y bs ?t s'" "resumed y ?t s'"
    using switch_task_switches [OF nr assms(2)] by blast
  have "picked_links fs x as y bs s s'" using s'(2) picked_links_cong [of ?t s s' s'] eqs by simp
  moreover have "resumed y s s'" using s'(3) xy x by (simp add: resumed_def pcb_at_upd_pcb)
  moreover have "status (pcb_at s x) \<noteq> STATUS_EXITED"
    using assms(4) by (auto simp: stays_def status_defs)
  ultimately show ?thesis
    using s'(1) assms(4) by (auto simp: yield_def Let_def picked_links_def resumed_def)
qed

theorem yield_round_robin_witness:
  "\<exists>s'. yield 2 (three_tasks STATUS_READY) = Inr s' \<and> is_queue s' 3 [3, 1, 2]"
  using yield_round_robin [OF three_tasks_next, of STATUS_READY 2]
  by (auto simp: valid_status_def stays_def three_tasks_def status_defs static_tasks_def)

text \<open>
  C23: \<open>block\<close> puts the running task at the end of the wait queue, marked blocked, takes it
  out of the ready queue, and passes control to the first runnable task behind it.
\<close>

theorem block_fifo:
  assumes "next_runnable fs x as y bs s" "is_waitq s q ws"
    and "set ws \<subseteq> {1..dummy_kernel_pcb}" "set ws \<inter> (set (x # as @ y # bs) \<union> set fs) = {}"
    and "length as < n" "nointerrupt_count_val s < 254"
  shows "\<exists>s'. block n q s = Inr (head_of (ws @ [x]), s') \<and>
    is_waitq s' (head_of (ws @ [x])) (ws @ [x]) \<and> current_running s' = y \<and>
    is_queue s' y (y # bs @ filter (\<lambda>a. stays (status (pcb_at s a))) as)"
  using block_appends [OF assms] .

theorem block_fifo_witness:
  "\<exists>s'. block 2 4 (three_tasks STATUS_READY) = Inr (4, s') \<and> is_waitq s' 4 [4, 5, 1] \<and>
    is_queue s' 3 [3, 2]"
  using block_fifo [OF three_tasks_next three_tasks_wait_queue, of STATUS_READY 2]
  by (auto simp: valid_status_def stays_def three_tasks_def status_defs static_tasks_def
      dummy_kernel_pcb_def PCB_TABLE_SIZE_def)

text \<open>
  C24: \<open>unblock\<close> wakes the task that waits longest: it becomes ready and goes to the end of
  the ready queue, and the wait queue keeps the others in order. On the way \<open>queue_shift\<close>,
  which expects a doubly-linked ring, stores the new head of the wait queue through a null
  \<open>previous\<close> link, at physical address zero.
\<close>

theorem unblock_fifo:
  assumes "is_waitq s q (w # ws)" "is_queue s (current_running s) (r # rs)"
    and "set (w # ws) \<inter> set (r # rs) = {}"
  shows "\<exists>s'. unblock q s = Inr (head_of ws, s') \<and> is_waitq s' (head_of ws) ws \<and>
    is_queue s' (current_running s') (r # rs @ [w]) \<and> current_running s' = r \<and>
    status (pcb_at s' w) = STATUS_READY \<and> pcb_next (pcb_at s' 0) = head_of ws"
  using unblock_moves [OF assms] by (auto simp: links_fold)

theorem unblock_fifo_witness:
  "\<exists>s'. unblock 4 (three_tasks STATUS_READY) = Inr (5, s') \<and>
    is_queue s' 1 [1, 2, 3, 4] \<and> pcb_next (pcb_at s' 0) = 5"
  using unblock_fifo [OF three_tasks_wait_queue, of STATUS_READY 1 "[2, 3]"] three_tasks_ready_queue
  by auto

text \<open>
  C25: A process that exits gives its control block back: the block is appended to the free
  list, the count of running processes drops by one, and the next runnable task continues
  with its own context.
\<close>

theorem exit_frees_block:
  assumes "next_runnable fs x as y bs s" "length as < n" "nointerrupt_count_val s < 254"
    and "\<forall>a \<in> set as. stays (status (pcb_at s a))" "is_thread (pcb_at s x) = 0"
  shows "\<exists>s'. exit_task n s = Inr s' \<and> current_running s' = y \<and>
    is_queue s' y (y # bs @ as) \<and> is_queue s' (freelist s') (fs @ [x]) \<and>
    running_processes s' = running_processes s - 1 \<and> resumed y s s'"
proof -
  have x: "current_running s = x" and d: "distinct (x # as @ y # bs)"
    using assms(1) by (auto simp: next_runnable_def is_queue_def ring_def)
  let ?u = "upd_pcb x (\<lambda>r. r\<lparr>status := STATUS_EXITED\<rparr>) (nointerrupt_enter s)"
  let ?t = "?u\<lparr>running_processes := running_processes s - 1\<rparr>"
  have "next_runnable fs x as y bs ?u"
    using assms(1) next_runnable_status [of fs x as y bs "nointerrupt_enter s"]
    by (simp add: valid_status_def)
  then have nr: "next_runnable fs x as y bs ?t"
    using next_runnable_cong [of ?t ?u fs x as y bs] by (simp add: nexts_def prevs_def fun_eq_iff)
  have "nointerrupt_count_val ?t < 255"
    using assms(3) by (simp add: nointerrupt_enter_def interrupts_disable_def Let_def word_less_nat_alt
        unat_word_ariths)
  then obtain s' where s': "switch_task n ?t = Inr s'" "picked_links fs x as y bs ?t s'"
    "resumed y ?t s'" "running_processes s' = running_processes s - 1"
    using switch_task_switches [OF nr assms(2)] by auto
  have st: "status (pcb_at ?t a) = (if a = x then STATUS_EXITED else status (pcb_at s a))" for a
    by (simp add: pcb_at_upd_pcb)
  have f: "filter (\<lambda>a. stays (status (pcb_at ?t a))) (x # as) = as"
    "filter (\<lambda>a. status (pcb_at ?t a) = STATUS_EXITED) (x # as) = [x]"
    unfolding st using d assms(4)
    by (auto simp: filter_id_conv filter_empty_conv stays_def status_defs)
  have "exit_task n s = Inr s'"
    using s'(1) assms(5) x by (simp add: exit_task_def Let_def pcb_at_upd_pcb)
  moreover have "resumed y s s'" using s'(3) d by (simp add: resumed_def pcb_at_upd_pcb)
  ultimately show ?thesis
    using s'(2,4) f unfolding picked_links_def f by (auto simp: resumed_def)
qed

theorem exit_frees_block_witness:
  "\<exists>s'. exit_task 2 (three_tasks STATUS_READY) = Inr s' \<and> is_queue s' 3 [3, 2] \<and>
    is_queue s' (freelist s') [1] \<and> running_processes s' = 2"
  using exit_frees_block [OF three_tasks_next, of STATUS_READY 2]
  by (auto simp: valid_status_def stays_def three_tasks_def status_defs static_tasks_def)


end
