(* ===== verification/Fifo.thy ===== *)
theory Fifo
  imports Machine
begin

text \<open>
  The circular queue of page-frame indices that orders pages for eviction
  (\<open>FIFOQueue\<close> of \<open>kernel/memory.c\<close>), as a refinement of a list of bounded length.
\<close>

section \<open>The bounded queue interface\<close>

text \<open>
  What a client of a bounded queue relies on: an element is appended while the queue
  is shorter than its capacity and refused otherwise, and elements leave from the front.
\<close>

locale bounded_queue =
  fixes invar :: "'q \<Rightarrow> bool"
    and contents :: "'q \<Rightarrow> 'a list"
    and capacity :: nat
    and enq :: "'a \<Rightarrow> 'q \<Rightarrow> bool \<times> 'q"
    and deq :: "'q \<Rightarrow> 'a \<times> bool \<times> 'q"
  assumes contents_bound: "invar q \<Longrightarrow> length (contents q) \<le> capacity"
    and enq_space: "invar q \<Longrightarrow> length (contents q) < capacity \<Longrightarrow>
      \<exists>q'. enq x q = (True, q') \<and> invar q' \<and> contents q' = contents q @ [x]"
    and enq_full: "invar q \<Longrightarrow> length (contents q) = capacity \<Longrightarrow> enq x q = (False, q)"
    and deq_nonempty: "invar q \<Longrightarrow> contents q \<noteq> [] \<Longrightarrow>
      \<exists>q'. deq q = (hd (contents q), False, q') \<and> invar q' \<and> contents q' = tl (contents q)"
    and deq_empty: "invar q \<Longrightarrow> contents q = [] \<Longrightarrow> fst (snd (deq q))"
begin

primrec enq_list :: "'a list \<Rightarrow> 'q \<Rightarrow> 'q" where
  "enq_list [] q = q"
| "enq_list (x # xs) q = enq_list xs (snd (enq x q))"

primrec deq_many :: "nat \<Rightarrow> 'q \<Rightarrow> 'a list \<times> 'q" where
  "deq_many 0 q = ([], q)"
| "deq_many (Suc n) q =
     (let (x, _, q') = deq q; (xs, q'') = deq_many n q' in (x # xs, q''))"

lemma enq_list_contents:
  "invar q \<Longrightarrow> length (contents q) + length xs \<le> capacity \<Longrightarrow>
   invar (enq_list xs q) \<and> contents (enq_list xs q) = contents q @ xs"
proof (induction xs arbitrary: q)
  case Nil
  then show ?case by simp
next
  case (Cons x xs)
  then obtain q' where "enq x q = (True, q')" "invar q'" "contents q' = contents q @ [x]"
    using enq_space [of q x] by auto
  with Cons show ?case by simp
qed

lemma deq_many_contents:
  "invar q \<Longrightarrow> n \<le> length (contents q) \<Longrightarrow>
   fst (deq_many n q) = take n (contents q) \<and> invar (snd (deq_many n q)) \<and>
   contents (snd (deq_many n q)) = drop n (contents q)"
proof (induction n arbitrary: q)
  case 0
  then show ?case by simp
next
  case (Suc n)
  then have ne: "contents q \<noteq> []" by auto
  with Suc.prems obtain q' where q': "deq q = (hd (contents q), False, q')" "invar q'"
    "contents q' = tl (contents q)"
    using deq_nonempty by blast
  with Suc.prems have "n \<le> length (contents q')" by simp
  from Suc.IH [OF q'(2) this] ne q' show ?case
    by (auto simp: Let_def split_beta drop_Suc take_Suc)
qed

lemma fifo_order:
  "invar q \<Longrightarrow> contents q = [] \<Longrightarrow> length xs \<le> capacity \<Longrightarrow> n \<le> length xs \<Longrightarrow>
   fst (deq_many n (enq_list xs q)) = take n xs"
  using enq_list_contents [of q xs] deq_many_contents [of "enq_list xs q" n] by simp

end

section \<open>The queue of the kernel\<close>

record FIFOQueue =
  next_in :: u32
  next_out :: u32
  queue :: "u32 list"
  items :: u32

definition FIFO_LEN :: u32 where
  "FIFO_LEN = of_nat PAGEABLE_PAGES"

definition fifo_init :: FIFOQueue where
  "fifo_init = \<lparr>next_in = 0, next_out = 0, queue = replicate PAGEABLE_PAGES 0, items = 0\<rparr>"

definition fifo_is_empty :: "FIFOQueue \<Rightarrow> bool" where
  "fifo_is_empty q \<longleftrightarrow> items q = 0"

definition fifo_is_full :: "FIFOQueue \<Rightarrow> bool" where
  "fifo_is_full q \<longleftrightarrow> (next_in q + 1) mod FIFO_LEN = next_out q"

definition fifo_enqueue :: "u32 \<Rightarrow> FIFOQueue \<Rightarrow> bool \<times> FIFOQueue" where
  "fifo_enqueue item q =
     (if fifo_is_full q then (False, q)
      else (True, q\<lparr>queue := (queue q)[unat (next_in q) := item],
                    next_in := (next_in q + 1) mod FIFO_LEN,
                    items := items q + 1\<rparr>))"

text \<open>
  \<open>fifo_dequeue(int *error)\<close>: the flag is what \<open>*error\<close> is set to; on an empty queue
  the code still advances \<open>next_out\<close> and decrements \<open>items\<close>.
\<close>

definition fifo_dequeue :: "FIFOQueue \<Rightarrow> u32 \<times> bool \<times> FIFOQueue" where
  "fifo_dequeue q =
     (let error = fifo_is_empty q;
          item = queue q ! unat (next_out q);
          q = q\<lparr>next_out := (next_out q + 1) mod FIFO_LEN, items := items q - 1\<rparr>
      in (item, error, q))"

section \<open>Refinement to a list\<close>

definition fifo_invar :: "FIFOQueue \<Rightarrow> bool" where
  "fifo_invar q \<longleftrightarrow> length (queue q) = PAGEABLE_PAGES \<and>
     unat (next_in q) < PAGEABLE_PAGES \<and> unat (next_out q) < PAGEABLE_PAGES \<and>
     unat (items q) < PAGEABLE_PAGES \<and>
     unat (next_in q) = (unat (next_out q) + unat (items q)) mod PAGEABLE_PAGES"

definition fifo_contents :: "FIFOQueue \<Rightarrow> u32 list" where
  "fifo_contents q =
     map (\<lambda>k. queue q ! ((unat (next_out q) + k) mod PAGEABLE_PAGES)) [0..<unat (items q)]"

lemma unat_mod_FIFO_LEN:
  "unat n < PAGEABLE_PAGES \<Longrightarrow>
   unat ((n + 1) mod FIFO_LEN) = (unat n + 1) mod PAGEABLE_PAGES" for n :: u32
  by (simp add: FIFO_LEN_def PAGEABLE_PAGES_def unat_word_ariths)

lemma length_fifo_contents [simp]: "length (fifo_contents q) = unat (items q)"
  by (simp add: fifo_contents_def)

lemma fifo_full_iff:
  assumes "fifo_invar q"
  shows "fifo_is_full q \<longleftrightarrow> unat (items q) = PAGEABLE_PAGES - 1"
proof -
  from assms have b: "unat (next_in q) < 33" "unat (next_out q) < 33" "unat (items q) < 33"
    "unat (next_in q) = (unat (next_out q) + unat (items q)) mod 33"
    by (auto simp: fifo_invar_def PAGEABLE_PAGES_def)
  have "fifo_is_full q \<longleftrightarrow> (unat (next_in q) + 1) mod 33 = unat (next_out q)"
    using unat_mod_FIFO_LEN [of "next_in q"] b
    by (simp add: fifo_is_full_def word_unat_eq_iff PAGEABLE_PAGES_def)
  also have "\<dots> \<longleftrightarrow> (unat (next_out q) + (unat (items q) + 1)) mod 33 = unat (next_out q)"
    using b(4) by (simp add: mod_Suc_eq)
  also have "\<dots> \<longleftrightarrow> unat (items q) = 32"
    using b(2,3) ring_index [of "unat (next_out q)" 33 "unat (items q) + 1"] by auto
  finally show ?thesis by (simp add: PAGEABLE_PAGES_def)
qed

lemma fifo_enqueue_refines:
  assumes inv: "fifo_invar q" and space: "unat (items q) < PAGEABLE_PAGES - 1"
  shows "\<exists>q'. fifo_enqueue x q = (True, q') \<and> fifo_invar q' \<and>
    fifo_contents q' = fifo_contents q @ [x]"
proof -
  let ?q' = "snd (fifo_enqueue x q)"
  from inv have b: "unat (next_in q) < 33" "unat (next_out q) < 33" "unat (items q) < 33"
    "unat (next_in q) = (unat (next_out q) + unat (items q)) mod 33" "length (queue q) = 33"
    by (auto simp: fifo_invar_def PAGEABLE_PAGES_def)
  have nf: "\<not> fifo_is_full q" using fifo_full_iff [OF inv] space by simp
  have it: "unat (items q + 1) = unat (items q) + 1"
    using unat_add_small [of "items q" 1] b(3) by simp
  have "fifo_invar ?q'"
    using b nf it space unat_mod_FIFO_LEN [of "next_in q"]
    by (simp add: fifo_enqueue_def fifo_invar_def PAGEABLE_PAGES_def mod_simps)
  moreover have "unat (next_in q) \<noteq> (unat (next_out q) + k) mod 33" if "k < unat (items q)" for k
    using that b ring_index_inj [of "unat (next_out q)" 33 "unat (items q)" k] by simp
  then have "fifo_contents ?q' = fifo_contents q @ [x]"
    using nf b(2,5) it b(4) [symmetric]
    by (auto simp: fifo_enqueue_def fifo_contents_def PAGEABLE_PAGES_def)
  ultimately show ?thesis using nf by (simp add: fifo_enqueue_def)
qed

lemma fifo_dequeue_refines:
  assumes inv: "fifo_invar q" and ne: "fifo_contents q \<noteq> []"
  shows "\<exists>q'. fifo_dequeue q = (hd (fifo_contents q), False, q') \<and> fifo_invar q' \<and>
    fifo_contents q' = tl (fifo_contents q)"
proof -
  let ?q' = "snd (snd (fifo_dequeue q))"
  from inv have b: "unat (next_in q) < 33" "unat (next_out q) < 33" "unat (items q) < 33"
    "unat (next_in q) = (unat (next_out q) + unat (items q)) mod 33" "length (queue q) = 33"
    by (auto simp: fifo_invar_def PAGEABLE_PAGES_def)
  from ne have pos: "0 < unat (items q)"
    by (metis length_fifo_contents length_greater_0_conv)
  then have it: "unat (items q - 1) = unat (items q) - 1"
    by (intro unat_minus_one) auto
  from pos obtain n where n: "unat (items q) = Suc n" by (cases "unat (items q)") auto
  have "fifo_invar ?q'"
    using b n it unat_mod_FIFO_LEN [of "next_out q"]
    by (simp add: fifo_dequeue_def Let_def fifo_invar_def PAGEABLE_PAGES_def mod_simps)
  moreover have "fifo_contents ?q' = tl (fifo_contents q)"
    using b pos it unat_mod_FIFO_LEN [of "next_out q"]
    by (intro nth_equalityI)
      (simp_all add: fifo_dequeue_def Let_def fifo_contents_def PAGEABLE_PAGES_def nth_tl mod_simps)
  moreover have "hd (fifo_contents q) = queue q ! unat (next_out q)"
    using pos b by (simp add: fifo_contents_def hd_map upt_conv_Cons PAGEABLE_PAGES_def)
  moreover have "\<not> fifo_is_empty q" using pos by (auto simp: fifo_is_empty_def)
  ultimately show ?thesis by (simp add: fifo_dequeue_def Let_def)
qed

interpretation fifo: bounded_queue fifo_invar fifo_contents "PAGEABLE_PAGES - 1"
  fifo_enqueue fifo_dequeue
proof unfold_locales
  fix q assume "fifo_invar q"
  then show "length (fifo_contents q) \<le> PAGEABLE_PAGES - 1"
    by (auto simp: fifo_invar_def)
next
  fix q x
  assume "fifo_invar q" "length (fifo_contents q) < PAGEABLE_PAGES - 1"
  then show "\<exists>q'. fifo_enqueue x q = (True, q') \<and> fifo_invar q' \<and>
      fifo_contents q' = fifo_contents q @ [x]"
    using fifo_enqueue_refines by simp
next
  fix q x
  assume "fifo_invar q" "length (fifo_contents q) = PAGEABLE_PAGES - 1"
  then show "fifo_enqueue x q = (False, q)"
    using fifo_full_iff by (simp add: fifo_enqueue_def)
next
  fix q
  assume "fifo_invar q" "fifo_contents q \<noteq> []"
  then show "\<exists>q'. fifo_dequeue q = (hd (fifo_contents q), False, q') \<and> fifo_invar q' \<and>
      fifo_contents q' = tl (fifo_contents q)"
    by (rule fifo_dequeue_refines)
next
  fix q
  assume "fifo_invar q" "fifo_contents q = []"
  then show "fst (snd (fifo_dequeue q))"
    by (simp add: fifo_dequeue_def Let_def fifo_is_empty_def fifo_contents_def unat_eq_zero)
qed

lemma fifo_init_invar: "fifo_invar fifo_init" "fifo_contents fifo_init = []"
  by (simp_all add: fifo_init_def fifo_invar_def fifo_contents_def PAGEABLE_PAGES_def)

end
