(* ===== verification/Scsi.thy ===== *)
theory Scsi
  imports Prelude
begin

text \<open>
  Byte order (\<open>lib/libc/netinet/in_core.c\<close>) and the SCSI layer over which pages are
  swapped (\<open>kernel/usb/scsi.c\<close>). The device driver is reached through the two function
  pointers of \<open>struct scsi_ifc\<close> and is a parameter here: a pair of functions over a driver
  state, of which the development assumes, where it needs a disk, that \<open>READ(10)\<close> and
  \<open>WRITE(10)\<close> act on an array of sectors (\<open>disk_like\<close>). A spinlock taken twice by the
  same task spins forever, which is \<open>Inl Deadlock\<close>.
\<close>

unbundle bit_operations_syntax

section \<open>Byte order\<close>

definition ntohl :: "u32 \<Rightarrow> u32" where
  "ntohl d = push_bit 24 (d AND 0x000000ff) OR push_bit 8 (d AND 0x0000ff00) OR
     drop_bit 8 (d AND 0x00ff0000) OR drop_bit 24 (d AND 0xff000000)"

definition htonl :: "u32 \<Rightarrow> u32" where "htonl d = ntohl d"

definition ntohs :: "u16 \<Rightarrow> u16" where
  "ntohs d = push_bit 8 (d AND 0x00ff) OR drop_bit 8 (d AND 0xff00)"

definition htons :: "u16 \<Rightarrow> u16" where "htons d = ntohs d"

text \<open>The bytes of a little-endian field in memory, and the field read back.\<close>

definition le32 :: "u32 \<Rightarrow> u8 list" where
  "le32 v = [ucast v, ucast (drop_bit 8 v), ucast (drop_bit 16 v), ucast (drop_bit 24 v)]"

definition le16 :: "u16 \<Rightarrow> u8 list" where
  "le16 v = [ucast v, ucast (drop_bit 8 v)]"

definition of_le32 :: "u8 list \<Rightarrow> u32" where
  "of_le32 b = ucast (b ! 0) OR push_bit 8 (ucast (b ! 1)) OR push_bit 16 (ucast (b ! 2)) OR
     push_bit 24 (ucast (b ! 3))"

section \<open>The device\<close>

record 'd scsi_dev =
  block_size :: u32
  total_block_count :: u32
  dev_read :: "u8 list \<Rightarrow> int \<Rightarrow> 'd \<Rightarrow> int \<times> u8 list \<times> 'd"
  dev_write :: "u8 list \<Rightarrow> u8 list \<Rightarrow> 'd \<Rightarrow> int \<times> 'd"

record 'd scsi_state =
  scsi :: "'d scsi_dev option"
  scsi_dev_lock :: bool
  driver :: 'd

definition SCSI_RC_GOOD :: int where "SCSI_RC_GOOD = 0"
definition SCSI_RC_FAILED :: int where "SCSI_RC_FAILED = 1"
definition ERR_NO_MEM :: int where "ERR_NO_MEM = - 1"
definition ERR_PROTO :: int where "ERR_PROTO = - 4"

datatype scsi_dir = SCSI_READ | SCSI_WRITE

definition cdb10 :: "u8 \<Rightarrow> u32 \<Rightarrow> u16 \<Rightarrow> u8 list" where
  "cdb10 op_code logical_block_address len =
     [op_code, 0] @ le32 logical_block_address @ [0] @ le16 len @ [0]"

definition cdb6 :: "u8 \<Rightarrow> u8 list" where
  "cdb6 op_code = [op_code, 0, 0, 0, 0, 0]"

definition CDB_READ10 :: u8 where "CDB_READ10 = 0x28"
definition CDB_WRITE10 :: u8 where "CDB_WRITE10 = 0x2a"

definition scsi_lock_acquire :: "'d scsi_state \<Rightarrow> 'd scsi_state res" where
  "scsi_lock_acquire s = (if scsi_dev_lock s then Inl Deadlock else Inr (s\<lparr>scsi_dev_lock := True\<rparr>))"

definition scsi_lock_release :: "'d scsi_state \<Rightarrow> 'd scsi_state" where
  "scsi_lock_release s = s\<lparr>scsi_dev_lock := False\<rparr>"

definition scsi_up :: "'d scsi_state \<Rightarrow> int" where
  "scsi_up s = (if scsi s = None then 0 else 1)"

definition scsi_free :: "'d scsi_state \<Rightarrow> 'd scsi_state res" where
  "scsi_free s = bindR (scsi_lock_acquire s) (\<lambda>s. Inr (scsi_lock_release (s\<lparr>scsi := None\<rparr>)))"

definition scsi_request_sense :: "'d scsi_dev \<Rightarrow> 'd scsi_state \<Rightarrow> 'd scsi_state" where
  "scsi_request_sense dev s =
     (let (rc, sdata, d) = dev_read dev (cdb10 0x03 0 18) 18 (driver s) in s\<lparr>driver := d\<rparr>)"

definition scsi_test_unit_ready :: "'d scsi_dev \<Rightarrow> 'd scsi_state \<Rightarrow> int \<times> 'd scsi_state" where
  "scsi_test_unit_ready dev s =
     (let (rc, _, d) = dev_read dev (cdb6 0x00) 0 (driver s); s = s\<lparr>driver := d\<rparr> in
      if rc = SCSI_RC_FAILED then (- 1, scsi_request_sense dev s) else (0, s))"

primrec scsi_wait_ready :: "nat \<Rightarrow> int \<Rightarrow> 'd scsi_dev \<Rightarrow> 'd scsi_state \<Rightarrow> int \<times> 'd scsi_state" where
  "scsi_wait_ready 0 rc dev s = (rc, s)"
| "scsi_wait_ready (Suc attempts) rc dev s =
     (if rc < 0
      then (let (rc, s) = scsi_test_unit_ready dev s in scsi_wait_ready attempts rc dev s)
      else (rc, s))"

definition scsi_read_capacity ::
    "'d scsi_dev \<Rightarrow> 'd scsi_state \<Rightarrow> int \<times> 'd scsi_dev \<times> 'd scsi_state" where
  "scsi_read_capacity dev s =
     (let (rc, cap_data, d) = dev_read dev (cdb10 0x25 0 0) 8 (driver s); s = s\<lparr>driver := d\<rparr> in
      if rc \<noteq> SCSI_RC_GOOD then (- 1, dev, s)
      else (0, dev\<lparr>total_block_count := ntohl (of_le32 (take 4 cap_data)),
                    block_size := ntohl (of_le32 (drop 4 cap_data))\<rparr>, s))"

text \<open>
  \<open>scsi_init\<close>: \<open>mem\<close> tells whether \<open>kzalloc\<close> gave memory, \<open>dev\<close> is the zeroed device with
  the driver's functions copied into it.
\<close>

definition scsi_init :: "bool \<Rightarrow> 'd scsi_dev \<Rightarrow> 'd scsi_state \<Rightarrow> (int \<times> 'd scsi_state) res" where
  "scsi_init mem dev s =
     bindR (scsi_lock_acquire s) (\<lambda>s.
       if scsi s \<noteq> None then Inr (ERR_PROTO, scsi_lock_release s)
       else if \<not> mem then Inr (ERR_NO_MEM, scsi_lock_release s)
       else
         (let s = s\<lparr>scsi := Some dev\<rparr>;
              (rc, s) = scsi_test_unit_ready dev s;
              (rc, s) = scsi_wait_ready 20 rc dev s in
          if rc < 0 then
            bindR (scsi_free s) (\<lambda>s. Inr (ERR_PROTO, scsi_lock_release s))
          else
            (let (rc, dev, s) = scsi_read_capacity dev s; s = s\<lparr>scsi := Some dev\<rparr> in
             if rc < 0 then bindR (scsi_free (scsi_lock_release s)) (\<lambda>s. Inr (ERR_PROTO, s))
             else Inr (0, scsi_lock_release s))))"

text \<open>
  \<open>scsi_read_write\<close>. For a read the bytes the driver stores in the buffer are returned; for
  a write they are the argument.
\<close>

definition scsi_read_write ::
    "scsi_dir \<Rightarrow> u32 \<Rightarrow> u32 \<Rightarrow> u8 list \<Rightarrow> 'd scsi_state \<Rightarrow> (int \<times> u8 list \<times> 'd scsi_state) res" where
  "scsi_read_write dir block_start block_count data s =
     bindR (scsi_lock_acquire s) (\<lambda>s.
       case scsi s of
         None \<Rightarrow> Inr (- 1, [], scsi_lock_release s)
       | Some dev \<Rightarrow>
           (let cdb = cdb10 (case dir of SCSI_READ \<Rightarrow> CDB_READ10 | SCSI_WRITE \<Rightarrow> CDB_WRITE10)
                        (htonl block_start) (htons (ucast block_count));
                transfer_len = sint (block_count * block_size dev);
                (rc, bytes, d) =
                  (case dir of SCSI_READ \<Rightarrow> dev_read dev cdb transfer_len (driver s)
                   | SCSI_WRITE \<Rightarrow> (let (rc, d) = dev_write dev cdb data (driver s) in (rc, [], d)));
                s = scsi_lock_release (s\<lparr>driver := d\<rparr>)
            in if rc \<noteq> SCSI_RC_GOOD then Inr (- 1, bytes, s) else Inr (0, bytes, s)))"

definition scsi_read :: "u32 \<Rightarrow> u32 \<Rightarrow> 'd scsi_state \<Rightarrow> (int \<times> u8 list \<times> 'd scsi_state) res" where
  "scsi_read block_start block_count s = scsi_read_write SCSI_READ block_start block_count [] s"

text \<open>
  \<open>scsi_write\<close> takes the memory the buffer points into as a function of the number of bytes
  that are transferred.
\<close>

definition scsi_write ::
    "u32 \<Rightarrow> u32 \<Rightarrow> (nat \<Rightarrow> u8 list) \<Rightarrow> 'd scsi_state \<Rightarrow> (int \<times> 'd scsi_state) res" where
  "scsi_write block_start block_count buf s =
     (let len = (case scsi s of None \<Rightarrow> 0 | Some dev \<Rightarrow> nat (sint (block_count * block_size dev))) in
      bindR (scsi_read_write SCSI_WRITE block_start block_count (buf len) s)
        (\<lambda>(rc, _, s). Inr (rc, s)))"

section \<open>Properties of byte order\<close>

lemma byte_masks:
  "(0x000000ff :: u32) = mask 8" "(0x0000ff00 :: u32) = push_bit 8 (mask 8)"
  "(0x00ff0000 :: u32) = push_bit 16 (mask 8)" "(0xff000000 :: u32) = push_bit 24 (mask 8)"
  "(0x00ff :: u16) = mask 8" "(0xff00 :: u16) = push_bit 8 (mask 8)"
  by (simp_all add: mask_eq_exp_minus_1)

lemma bit_ntohl_cases:
  assumes "n < 32"
  shows "bit (ntohl d) n \<longleftrightarrow>
    (24 \<le> n \<and> bit d (n - 24)) \<or> (16 \<le> n \<and> n < 24 \<and> bit d (n - 8)) \<or>
    (8 \<le> n \<and> n < 16 \<and> bit d (8 + n)) \<or> (n < 8 \<and> bit d (24 + n))"
proof -
  consider "n < 8" | "8 \<le> n" "n < 16" | "16 \<le> n" "n < 24" | "24 \<le> n" "n < 32"
    using assms by linarith
  then show ?thesis
    unfolding ntohl_def byte_masks bit_or_iff bit_and_iff bit_push_bit_iff bit_drop_bit_eq
      bit_mask_iff comp_def possible_bit_word
    by cases (simp_all add: less_diff_conv2 le_diff_conv2)
qed

lemma bit_ntohs:
  assumes "n < 16"
  shows "bit (ntohs d) n \<longleftrightarrow> bit d (if n < 8 then 8 + n else n - 8)"
  unfolding ntohs_def byte_masks bit_or_iff bit_and_iff bit_push_bit_iff bit_drop_bit_eq bit_mask_iff
    comp_def possible_bit_word
  using assms by auto

lemma ntohl_ntohl: "ntohl (ntohl d) = d"
proof (rule bit_word_eqI)
  fix n
  assume "n < LENGTH(32)"
  then consider "n < 8" | "8 \<le> n" "n < 16" | "16 \<le> n" "n < 24" | "24 \<le> n" "n < 32"
    unfolding len_of_numeral_defs by linarith
  then show "bit (ntohl (ntohl d)) n = bit d n"
    by cases (simp_all add: bit_ntohl_cases less_diff_conv2 le_diff_conv2)
qed

lemma ntohs_ntohs: "ntohs (ntohs d) = d"
  by (rule bit_word_eqI) (auto simp: bit_ntohs)

text \<open>A field in network order holds its most significant byte first.\<close>

lemma le32_htonl:
  "le32 (htonl v) = [ucast (drop_bit 24 v), ucast (drop_bit 16 v), ucast (drop_bit 8 v), ucast v]"
proof -
  have "(ucast (ntohl v) :: u8) = ucast (drop_bit 24 v)"
    "(ucast (drop_bit 8 (ntohl v)) :: u8) = ucast (drop_bit 16 v)"
    "(ucast (drop_bit 16 (ntohl v)) :: u8) = ucast (drop_bit 8 v)"
    "(ucast (drop_bit 24 (ntohl v)) :: u8) = ucast v"
    by (rule bit_word_eqI; simp add: bit_simps bit_ntohl_cases less_diff_conv2 le_diff_conv2)+
  then show ?thesis by (simp add: le32_def htonl_def)
qed

lemma le16_htons: "le16 (htons v) = [ucast (drop_bit 8 v), ucast v]"
proof -
  have "(ucast (ntohs v) :: u8) = ucast (drop_bit 8 v)"
    by (rule bit_word_eqI) (simp add: bit_simps bit_ntohs)
  moreover have "(ucast (drop_bit 8 (ntohs v)) :: u8) = ucast v"
    by (rule bit_word_eqI) (simp add: bit_simps bit_ntohs)
  ultimately show ?thesis by (simp add: le16_def htons_def)
qed

section \<open>Disks\<close>

text \<open>
  What the swap code relies on: \<open>READ(10)\<close> returns, and \<open>WRITE(10)\<close> replaces, \<open>n\<close> sectors of
  512 bytes from the block address in the command, within the capacity of the disk. \<open>sec d i\<close>
  is the content of sector \<open>i\<close> in driver state \<open>d\<close>.
\<close>

definition SECTOR_BYTES :: nat where "SECTOR_BYTES = 512"

definition disk_like :: "'d scsi_dev \<Rightarrow> ('d \<Rightarrow> nat \<Rightarrow> u8 list) \<Rightarrow> nat \<Rightarrow> bool" where
  "disk_like dev sec cap \<longleftrightarrow>
     block_size dev = of_nat SECTOR_BYTES \<and> (\<forall>d i. length (sec d i) = SECTOR_BYTES) \<and>
     (\<forall>d lba n. unat lba + n \<le> cap \<longrightarrow> n < 2 ^ 16 \<longrightarrow>
        dev_read dev (cdb10 CDB_READ10 (htonl lba) (htons (of_nat n))) (int (SECTOR_BYTES * n)) d =
          (SCSI_RC_GOOD, concat (map (\<lambda>i. sec d (unat lba + i)) [0..<n]), d)) \<and>
     (\<forall>d lba n data. unat lba + n \<le> cap \<longrightarrow> n < 2 ^ 16 \<longrightarrow> length data = SECTOR_BYTES * n \<longrightarrow>
        (\<exists>d'. dev_write dev (cdb10 CDB_WRITE10 (htonl lba) (htons (of_nat n))) data d =
            (SCSI_RC_GOOD, d') \<and>
          (\<forall>i. sec d' i =
            (if unat lba \<le> i \<and> i < unat lba + n
             then take SECTOR_BYTES (drop (SECTOR_BYTES * (i - unat lba)) data) else sec d i))))"

definition disk_ready :: "'d scsi_state \<Rightarrow> ('d \<Rightarrow> nat \<Rightarrow> u8 list) \<Rightarrow> nat \<Rightarrow> bool" where
  "disk_ready s sec cap \<longleftrightarrow> \<not> scsi_dev_lock s \<and>
     (\<exists>dev. scsi s = Some dev \<and> disk_like dev sec cap)"

lemma disk_like_read:
  assumes "disk_like dev sec cap" "unat lba + n \<le> cap" "n < 2 ^ 16"
  shows "dev_read dev (cdb10 CDB_READ10 (htonl lba) (htons (of_nat n))) (int (SECTOR_BYTES * n)) d =
          (SCSI_RC_GOOD, concat (map (\<lambda>i. sec d (unat lba + i)) [0..<n]), d)"
  using assms unfolding disk_like_def by blast

lemma disk_like_write:
  assumes "disk_like dev sec cap" "unat lba + n \<le> cap" "n < 2 ^ 16" "length data = SECTOR_BYTES * n"
  shows "\<exists>d'. dev_write dev (cdb10 CDB_WRITE10 (htonl lba) (htons (of_nat n))) data d =
            (SCSI_RC_GOOD, d') \<and>
          (\<forall>i. sec d' i =
            (if unat lba \<le> i \<and> i < unat lba + n
             then take SECTOR_BYTES (drop (SECTOR_BYTES * (i - unat lba)) data) else sec d i))"
  using assms unfolding disk_like_def by blast

lemma disk_like_block: "disk_like dev sec cap \<Longrightarrow> block_size dev = of_nat SECTOR_BYTES"
  "disk_like dev sec cap \<Longrightarrow> length (sec d i) = SECTOR_BYTES"
  unfolding disk_like_def by blast+

lemma transfer_len:
  assumes "n < 2 ^ 16"
  shows "sint (of_nat n * of_nat SECTOR_BYTES :: u32) = int (SECTOR_BYTES * n)"
proof -
  have "(of_nat n * of_nat SECTOR_BYTES :: u32) = of_nat (SECTOR_BYTES * n)"
    by (simp add: mult.commute)
  moreover have "sint (of_nat (SECTOR_BYTES * n) :: u32) = int (SECTOR_BYTES * n)"
    unfolding signed_of_nat using assms by (simp add: signed_take_bit_int_eq_self SECTOR_BYTES_def)
  ultimately show ?thesis by (simp only:)
qed

lemma ucast_of_nat16: "ucast (of_nat n :: u32) = (of_nat n :: u16)"
  by transfer (simp add: take_bit_take_bit)

lemma scsi_read_sectors:
  assumes "disk_ready s sec cap" "unat lba + n \<le> cap" "n < 2 ^ 16"
  shows "scsi_read lba (of_nat n) s =
    Inr (0, concat (map (\<lambda>i. sec (driver s) (unat lba + i)) [0..<n]), s)"
proof -
  obtain dev where dev: "scsi s = Some dev" "disk_like dev sec cap" "\<not> scsi_dev_lock s"
    using assms(1) by (auto simp: disk_ready_def)
  have "dev_read dev (cdb10 CDB_READ10 (htonl lba) (htons (of_nat n))) (int (SECTOR_BYTES * n)) (driver s) =
          (SCSI_RC_GOOD, concat (map (\<lambda>i. sec (driver s) (unat lba + i)) [0..<n]), driver s)"
    using disk_like_read [OF dev(2) assms(2,3)] .
  then show ?thesis
    using dev(1,3) transfer_len [OF assms(3)] disk_like_block(1) [OF dev(2)]
    by (simp add: scsi_read_def scsi_read_write_def scsi_lock_acquire_def scsi_lock_release_def
        ucast_of_nat16 SCSI_RC_GOOD_def del: of_nat_mult)
qed

lemma scsi_write_sectors:
  assumes "disk_ready s sec cap" "unat lba + n \<le> cap" "n < 2 ^ 16"
    "length (buf (SECTOR_BYTES * n)) = SECTOR_BYTES * n"
  shows "\<exists>d'. scsi_write lba (of_nat n) buf s = Inr (0, s\<lparr>driver := d'\<rparr>) \<and>
    (\<forall>i. sec d' i =
       (if unat lba \<le> i \<and> i < unat lba + n
        then take SECTOR_BYTES (drop (SECTOR_BYTES * (i - unat lba)) (buf (SECTOR_BYTES * n)))
        else sec (driver s) i))"
proof -
  obtain dev where dev: "scsi s = Some dev" "disk_like dev sec cap" "\<not> scsi_dev_lock s"
    using assms(1) by (auto simp: disk_ready_def)
  from disk_like_write [OF dev(2) assms(2-4), of "driver s"] obtain d' where d':
    "dev_write dev (cdb10 CDB_WRITE10 (htonl lba) (htons (of_nat n))) (buf (SECTOR_BYTES * n)) (driver s) =
       (SCSI_RC_GOOD, d')"
    "\<forall>i. sec d' i =
       (if unat lba \<le> i \<and> i < unat lba + n
        then take SECTOR_BYTES (drop (SECTOR_BYTES * (i - unat lba)) (buf (SECTOR_BYTES * n)))
        else sec (driver s) i)" by blast
  have "scsi_write lba (of_nat n) buf s = Inr (0, s\<lparr>driver := d'\<rparr>)"
    using dev(1,3) d'(1) transfer_len [OF assms(3)] disk_like_block(1) [OF dev(2)]
    by (simp add: scsi_write_def scsi_read_write_def scsi_lock_acquire_def scsi_lock_release_def
        ucast_of_nat16 SCSI_RC_GOOD_def nat_int del: of_nat_mult)
  with d'(2) show ?thesis by blast
qed

lemma scsi_write_returns:
  "\<not> scsi_dev_lock s \<Longrightarrow>
   \<exists>rc d. scsi_write lba n buf s = Inr (rc, s\<lparr>driver := d\<rparr>)"
  by (cases s; cases "scsi s")
    (auto simp: scsi_write_def scsi_read_write_def scsi_lock_acquire_def scsi_lock_release_def
      Let_def split_beta split: if_splits)

text \<open>
  A device that answers every \<open>TEST UNIT READY\<close> with a failure: after twenty retries
  \<open>scsi_init\<close> frees the device with the device lock still held, and \<open>scsi_free\<close> waits for
  that lock.
\<close>

lemma scsi_test_unit_ready_failed:
  assumes "\<And>len d. fst (dev_read dev (cdb6 0) len d) = SCSI_RC_FAILED"
  shows "\<exists>t. scsi_test_unit_ready dev s = (- 1, t) \<and> scsi_dev_lock t = scsi_dev_lock s"
proof -
  obtain x d where "dev_read dev (cdb6 0) 0 (driver s) = (SCSI_RC_FAILED, x, d)"
    using assms [of 0 "driver s"] by (metis prod.collapse)
  then show ?thesis
    by (simp add: scsi_test_unit_ready_def scsi_request_sense_def split_beta)
qed

lemma scsi_wait_ready_failed:
  assumes "\<And>len d. fst (dev_read dev (cdb6 0) len d) = SCSI_RC_FAILED"
  shows "\<exists>t. scsi_wait_ready n (- 1) dev s = (- 1, t) \<and> scsi_dev_lock t = scsi_dev_lock s"
proof (induction n arbitrary: s)
  case (Suc n)
  then show ?case using scsi_test_unit_ready_failed [OF assms, of s] by fastforce
qed simp

lemma scsi_init_not_ready_deadlock:
  assumes "\<And>len d. fst (dev_read dev (cdb6 0) len d) = SCSI_RC_FAILED"
    "scsi s = None" "\<not> scsi_dev_lock s"
  shows "scsi_init True dev s = Inl Deadlock"
proof -
  let ?s = "s\<lparr>scsi_dev_lock := True, scsi := Some dev\<rparr>"
  obtain t where t: "scsi_test_unit_ready dev ?s = (- 1, t)" "scsi_dev_lock t"
    using scsi_test_unit_ready_failed [OF assms(1), of ?s] by auto
  obtain u where u: "scsi_wait_ready 20 (- 1) dev t = (- 1, u)" "scsi_dev_lock u"
    using scsi_wait_ready_failed [OF assms(1), of 20 t] t(2) by auto
  show ?thesis
    using assms(2,3) t(1) u
    by (simp add: scsi_init_def scsi_lock_acquire_def scsi_free_def del: scsi_wait_ready.simps)
qed

end
