(* ===== verification/PageTables.thy ===== *)
theory PageTables
  imports Machine
begin

text \<open>
  Two-level page tables in physical memory: the index and entry operations of
  \<open>kernel/memory.c\<close>, and the walk the i386 memory management unit makes over the same
  bytes, against which the operations are specified.
\<close>

unbundle bit_operations_syntax

section \<open>Operations\<close>

definition get_directory_index :: "u32 \<Rightarrow> u32" where
  "get_directory_index vaddr = drop_bit PAGE_DIRECTORY_BITS (vaddr AND PAGE_DIRECTORY_MASK)"

definition get_table_index :: "u32 \<Rightarrow> u32" where
  "get_table_index vaddr = drop_bit PAGE_TABLE_BITS (vaddr AND PAGE_TABLE_MASK)"

text \<open>\<open>base[index]\<close> for a \<open>uint32_t *\<close>.\<close>

definition entry_addr :: "u32 \<Rightarrow> u32 \<Rightarrow> u32" where
  "entry_addr base index = base + 4 * index"

definition table_map_page ::
    "u32 \<Rightarrow> u32 \<Rightarrow> u32 \<Rightarrow> u32 \<Rightarrow> 'a machine_scheme \<Rightarrow> 'a machine_scheme" where
  "table_map_page table vaddr paddr mode s =
     (let index = get_table_index vaddr;
          s = s\<lparr>pmem := write32 (pmem s) (entry_addr table index)
                   ((paddr AND PE_BASE_ADDR_MASK) OR (mode AND NOT PE_BASE_ADDR_MASK))\<rparr>
      in invalidate_page vaddr s)"

definition dir_ins_table ::
    "u32 \<Rightarrow> u32 \<Rightarrow> u32 \<Rightarrow> u32 \<Rightarrow> 'a machine_scheme \<Rightarrow> 'a machine_scheme" where
  "dir_ins_table directory vaddr table mode s =
     (let access = mode AND MODE_MASK; index = get_directory_index vaddr
      in s\<lparr>pmem := write32 (pmem s) (entry_addr directory index)
             ((table AND PE_BASE_ADDR_MASK) OR access)\<rparr>)"

definition page_set_mode :: "u32 \<Rightarrow> u32 \<Rightarrow> u32 \<Rightarrow> 'a machine_scheme \<Rightarrow> 'a machine_scheme res" where
  "page_set_mode pdir vaddr mode s =
     (let dir_index = get_directory_index vaddr; index = get_table_index vaddr;
          dir_entry = read32 (pmem s) (entry_addr pdir dir_index) in
      if dir_entry AND PE_P = 0 then Inl AssertFail
      else
        (let table = dir_entry AND PE_BASE_ADDR_MASK;
             entry = read32 (pmem s) (entry_addr table index) AND PE_BASE_ADDR_MASK;
             entry = entry OR (mode AND NOT PE_BASE_ADDR_MASK);
             s = s\<lparr>pmem := write32 (pmem s) (entry_addr table index) entry\<rparr>
         in Inr (invalidate_page vaddr s)))"

definition is_page_dirty :: "u32 \<Rightarrow> u32 \<Rightarrow> 'a machine_scheme \<Rightarrow> bool" where
  "is_page_dirty vaddr page_directory s =
     (let dir_entry = read32 (pmem s) (entry_addr page_directory (get_directory_index vaddr)) in
      if dir_entry AND PE_P = 0 then False
      else read32 (pmem s) (entry_addr (dir_entry AND PE_BASE_ADDR_MASK) (get_table_index vaddr))
             AND PE_D \<noteq> 0)"

definition unmap_physical_page :: "u32 \<Rightarrow> u32 \<Rightarrow> 'a machine_scheme \<Rightarrow> 'a machine_scheme res" where
  "unmap_physical_page process_directory vaddr s = page_set_mode process_directory vaddr 0 s"

definition get_page_table :: "u32 \<Rightarrow> u32 \<Rightarrow> 'a machine_scheme \<Rightarrow> u32" where
  "get_page_table vaddr page_directory s =
     (let dir_entry = read32 (pmem s) (entry_addr page_directory (get_directory_index vaddr)) in
      if dir_entry AND PE_P = 0 then 0 else dir_entry AND PE_BASE_ADDR_MASK)"

section \<open>The hardware's walk\<close>

text \<open>
  The entries the memory management unit reads for a virtual address, and the translation:
  a page is accessible from user mode when both entries have the user bit.
\<close>

definition mmu_walk :: "pmem_t \<Rightarrow> u32 \<Rightarrow> u32 \<Rightarrow> (u32 \<times> u32) option" where
  "mmu_walk m dir vaddr =
     (let pde = read32 m (entry_addr (dir AND PE_BASE_ADDR_MASK) (drop_bit 22 vaddr)) in
      if \<not> bit pde 0 then None
      else
        (let pte = read32 m (entry_addr (pde AND PE_BASE_ADDR_MASK) (drop_bit 12 vaddr AND 0x3ff))
         in if \<not> bit pte 0 then None else Some (pde, pte)))"

definition mmu_translate :: "pmem_t \<Rightarrow> u32 \<Rightarrow> bool \<Rightarrow> u32 \<Rightarrow> u32 option" where
  "mmu_translate m dir user vaddr =
     (case mmu_walk m dir vaddr of
        None \<Rightarrow> None
      | Some (pde, pte) \<Rightarrow>
          if user \<and> \<not> (bit pde 2 \<and> bit pte 2) then None
          else Some ((pte AND PE_BASE_ADDR_MASK) OR (vaddr AND 0xfff)))"

section \<open>Index lemmas\<close>

lemma pe_masks:
  "PE_BASE_ADDR_MASK = NOT (mask 12)" "PAGE_DIRECTORY_MASK = NOT (mask 22)"
  "PAGE_TABLE_MASK = push_bit 12 (mask 10)" "MODE_MASK = mask 10" "(0xfff :: u32) = mask 12"
  "(0x3ff :: u32) = mask 10"
  by (simp_all add: pe_defs mask_eq_exp_minus_1)

lemma pe_bits: "PE_P = push_bit 0 1" "PE_RW = push_bit 1 1" "PE_US = push_bit 2 1" "PE_PCD = push_bit 4 1"
  "PE_D = push_bit 6 1"
  by (simp_all add: pe_defs)

lemma and_pe_bit: "(w AND push_bit n 1 = 0) \<longleftrightarrow> \<not> bit w n" if "n < 32" for w :: u32
proof -
  have "bit (w AND push_bit n 1) i \<longleftrightarrow> i = n \<and> bit w n" if "i < 32" for i
    using that by (auto simp: bit_simps)
  then show ?thesis using that by (auto simp: bit_eq_iff possible_bit_word)
qed

lemma and_PE_P: "(w AND PE_P = 0) \<longleftrightarrow> \<not> bit w 0"
  and and_PE_D: "(w AND PE_D = 0) \<longleftrightarrow> \<not> bit w 6"
  unfolding pe_bits by (rule and_pe_bit; simp)+

lemma get_directory_index_eq: "get_directory_index v = drop_bit 22 v"
  unfolding get_directory_index_def pe_masks PAGE_DIRECTORY_BITS_def
  by (rule bit_word_eqI) (auto simp: bit_simps dest: bit_imp_le_length)

lemma get_table_index_eq: "get_table_index v = drop_bit 12 v AND mask 10"
  unfolding get_table_index_def pe_masks PAGE_TABLE_BITS_def
  by (rule bit_word_eqI) (auto simp: bit_simps)

lemma unat_directory_index: "unat (get_directory_index v) = unat v div 2 ^ 22"
  by (simp add: get_directory_index_eq unat_drop_bit32 del: drop_bit_numeral_minus_bit1)

lemma unat_table_index: "unat (get_table_index v) = unat v div 2 ^ 12 mod 2 ^ 10"
proof -
  have "unat (get_table_index v) = take_bit 10 (unat (drop_bit 12 v))"
    unfolding get_table_index_eq take_bit_eq_mask [symmetric] unsigned_take_bit_eq ..
  then show ?thesis by (simp only: unat_drop_bit32 take_bit_eq_mod)
qed

lemma index_bounds: "unat (get_directory_index v) < 1024" "unat (get_table_index v) < 1024"
  using unat_bound32 [of v]
  by (simp_all add: unat_directory_index unat_table_index less_mult_imp_div_less)

section \<open>Entries\<close>

lemma page_alignedE:
  assumes "page_aligned b"
  obtains k where "unat b = 4096 * k" "k < 1048576"
proof -
  from assms obtain k where "unat b = 4096 * k"
    by (metis page_aligned_def mod_0_imp_dvd dvdE)
  moreover from this have "k < 1048576" using unat_bound32 [of b] by linarith
  ultimately show thesis by (rule that)
qed

lemma page_aligned_bound: "page_aligned b \<Longrightarrow> unat b + 4095 < 4294967296"
  by (erule page_alignedE) linarith

lemma unat_entry:
  assumes "page_aligned b" "unat i < 1024"
  shows "unat (entry_addr b i) = unat b + 4 * unat i"
proof -
  have i: "unat (4 * i) = 4 * unat i" using assms(2) by (simp add: unat_word_ariths)
  then show ?thesis
    using page_aligned_bound [OF assms(1)] assms(2)
    by (simp add: entry_addr_def unat_word_ariths i)
qed

lemma aligned4_entry: "page_aligned b \<Longrightarrow> unat i < 1024 \<Longrightarrow> aligned4 (entry_addr b i)"
  by (erule page_alignedE) (simp add: aligned4_def unat_entry page_aligned_def)

lemma entry_addr_eq:
  assumes "page_aligned b" "page_aligned b'" "unat i < 1024" "unat i' < 1024"
  shows "entry_addr b i = entry_addr b' i' \<longleftrightarrow> b = b' \<and> i = i'"
proof
  assume "entry_addr b i = entry_addr b' i'"
  then have "unat b + 4 * unat i = unat b' + 4 * unat i'"
    using unat_entry assms by metis
  moreover obtain k k' where "unat b = 4096 * k" "unat b' = 4096 * k'"
    using page_alignedE assms(1,2) by metis
  ultimately have "unat b = unat b' \<and> unat i = unat i'"
    using assms(3,4) by (cases k k' rule: linorder_cases) auto
  then show "b = b' \<and> i = i'" by (simp add: word_unat_eq_iff)
qed simp

lemma read32_write32_entry:
  assumes "page_aligned b" "page_aligned b'" "unat i < 1024" "unat i' < 1024"
  shows "read32 (write32 m (entry_addr b i) v) (entry_addr b' i') =
    (if b = b' \<and> i = i' then v else read32 m (entry_addr b' i'))"
proof (cases "b = b' \<and> i = i'")
  case True
  then show ?thesis by simp
next
  case False
  then show ?thesis
    using assms by (auto simp: read32_write32_other aligned4_entry entry_addr_eq)
qed

text \<open>A store to an entry of the table in page \<open>b\<close> leaves every other page as it is.\<close>

lemma write32_entry_outside:
  assumes "page_aligned b" "unat i < 1024" "\<not> in_page b x"
  shows "write32 m (entry_addr b i) v x = m x"
  using assms aligned4_entry [of b i]
  by (intro write32_outside) (auto simp: unat_entry in_page_def)

lemma page_aligned_mask [simp]: "page_aligned (w AND PE_BASE_ADDR_MASK)"
proof -
  have "take_bit 12 (w AND PE_BASE_ADDR_MASK) = 0"
    unfolding pe_masks by (rule bit_word_eqI) (simp add: bit_simps)
  then have "take_bit 12 (unat (w AND PE_BASE_ADDR_MASK)) = 0"
    by (simp flip: unsigned_take_bit_eq)
  then show ?thesis by (simp add: page_aligned_def take_bit_eq_mod)
qed

lemma page_aligned_and_mask: "page_aligned b \<Longrightarrow> b AND PE_BASE_ADDR_MASK = b"
proof -
  assume "page_aligned b"
  then have "take_bit 12 (unat b) = 0" by (simp add: page_aligned_def take_bit_eq_mod)
  then have "take_bit 12 b = 0" by (simp add: word_unat_eq_iff unsigned_take_bit_eq)
  then have *: "\<not> bit b n" if "n < 12" for n
    using that by (metis bit_take_bit_iff bit_0_eq bot_apply bot_bool_def)
  show "b AND PE_BASE_ADDR_MASK = b"
    unfolding pe_masks using * by (intro bit_word_eqI) (auto simp: bit_simps not_less [symmetric])
qed

section \<open>Entries as the hardware reads them\<close>

definition pte_of :: "u32 \<Rightarrow> u32 \<Rightarrow> u32" where
  "pte_of paddr mode = (paddr AND PE_BASE_ADDR_MASK) OR (mode AND NOT PE_BASE_ADDR_MASK)"

definition pde_of :: "u32 \<Rightarrow> u32 \<Rightarrow> u32" where
  "pde_of table mode = (table AND PE_BASE_ADDR_MASK) OR (mode AND MODE_MASK)"

lemma bit_pte_of: "n < 12 \<Longrightarrow> bit (pte_of p mode) n = bit mode n"
  unfolding pte_of_def pe_masks by (auto simp: bit_simps)

lemma bit_pde_of: "n < 10 \<Longrightarrow> bit (pde_of p mode) n = bit mode n"
  unfolding pde_of_def pe_masks by (auto simp: bit_simps)

lemma pte_of_base: "pte_of p mode AND PE_BASE_ADDR_MASK = p AND PE_BASE_ADDR_MASK"
  unfolding pte_of_def pe_masks by (rule bit_word_eqI) (auto simp: bit_simps)

lemma pde_of_base: "pde_of p mode AND PE_BASE_ADDR_MASK = p AND PE_BASE_ADDR_MASK"
  unfolding pde_of_def pe_masks by (rule bit_word_eqI) (auto simp: bit_simps)

lemma mmu_walk_eq:
  assumes "page_aligned dir"
  shows "mmu_walk m dir v =
    (let pde = read32 m (entry_addr dir (get_directory_index v));
         pte = read32 m (entry_addr (pde AND PE_BASE_ADDR_MASK) (get_table_index v))
     in if bit pde 0 \<and> bit pte 0 then Some (pde, pte) else None)"
proof -
  have "get_table_index v = drop_bit 12 v AND 0x3ff" by (simp only: get_table_index_eq pe_masks)
  then show ?thesis
    by (simp add: mmu_walk_def get_directory_index_eq Let_def page_aligned_and_mask [OF assms])
qed

lemma pmem_table_map_page [simp]:
  "pmem (table_map_page table v p mode s) =
     write32 (pmem s) (entry_addr table (get_table_index v)) (pte_of p mode)"
  by (simp add: table_map_page_def Let_def pte_of_def)

lemma pmem_dir_ins_table [simp]:
  "pmem (dir_ins_table dir v table mode s) =
     write32 (pmem s) (entry_addr dir (get_directory_index v)) (pde_of table mode)"
  by (simp add: dir_ins_table_def Let_def pde_of_def)

text \<open>
  Mapping a page through a table that the directory already holds: the walk of \<open>vaddr\<close> finds
  the new entry, and the walk of every page with another table index is as before.
\<close>

lemma mmu_walk_table_map_page:
  assumes al: "page_aligned dir" "page_aligned table" "dir \<noteq> table"
    and pde: "read32 (pmem s) (entry_addr dir (get_directory_index v)) AND PE_BASE_ADDR_MASK = table"
      "bit (read32 (pmem s) (entry_addr dir (get_directory_index v))) 0"
    and mode: "bit mode 0"
  shows "mmu_walk (pmem (table_map_page table v p mode s)) dir v =
    Some (read32 (pmem s) (entry_addr dir (get_directory_index v)), pte_of p mode)"
  using assms
  by (simp add: mmu_walk_eq read32_write32_entry index_bounds Let_def bit_pte_of)

lemma mmu_walk_table_map_page_other:
  assumes al: "page_aligned dir" "page_aligned table" "dir \<noteq> table"
    and ne: "get_table_index v' \<noteq> get_table_index v"
  shows "mmu_walk (pmem (table_map_page table v p mode s)) dir v' = mmu_walk (pmem s) dir v'"
  using assms
  by (simp add: mmu_walk_eq read32_write32_entry index_bounds Let_def)

end
