(* ===== verification/PageFrames.thy ===== *)
theory PageFrames
  imports Fifo Scheduler Scsi PageTables
begin

text \<open>
  Bookkeeping of the physical page frames (\<open>kernel/memory.c\<close>): the table of frame
  descriptors with its free list and its chains of shared descriptors, the counter of pinned
  frames, and the allocation of free frames. The record \<open>vm\<close> is the whole state of the
  memory manager on top of the task state; its last field is the disk that pages are swapped
  to. The model follows one task: a lock that is free is taken, and waiting for a lock that is
  held is \<open>Inl Deadlock\<close>.
\<close>

unbundle bit_operations_syntax

section \<open>State\<close>

text \<open>
  Pointers to descriptors: \<open>Info i\<close> is \<open>&page_frame_info[i]\<close> and \<open>Shared i\<close> is
  \<open>&page_frame_info_shared[i]\<close>.
\<close>

datatype info_ptr = InfoNull | Info nat | Shared nat

record page_frame_info_t =
  fi_owner :: pcb_ptr
  next_shared_info :: info_ptr
  next_free_page :: info_ptr
  fi_paddr :: u32
  fi_vaddr :: u32
  info_mode :: u32

datatype vm_lock = PageMapLock | PageFrameInfoLock | PinnedPagesCounterLock | NextFreeMemLock
  | WriteBufferLock | ReadBufferLock

record 'd vm = tasks +
  infos :: "info_ptr \<Rightarrow> page_frame_info_t"
  page_free_head :: info_ptr
  fifo_queue :: FIFOQueue
  number_of_pinned_page_frames :: u32
  kernel_pdir :: u32
  user_kernel_ptable :: u32
  first_process :: u32
  first_process_pid :: u32
  next_free_mem :: u32
  random_index_val :: u32
  vm_locked :: "vm_lock \<Rightarrow> bool"
  read_buffer :: "u8 list"
  disk :: "'d scsi_state"

definition PE_INFO_USER_MODE :: u32 where "PE_INFO_USER_MODE = 1"
definition PE_INFO_KERNEL_DUMMY :: u32 where "PE_INFO_KERNEL_DUMMY = 2"
definition PE_INFO_PINNED :: u32 where "PE_INFO_PINNED = 4"
definition PE_INFO_STACK :: u32 where "PE_INFO_STACK = 8"

lemmas pe_info_defs = PE_INFO_USER_MODE_def PE_INFO_KERNEL_DUMMY_def PE_INFO_PINNED_def
  PE_INFO_STACK_def

definition vm_acquire :: "vm_lock \<Rightarrow> 'd vm \<Rightarrow> 'd vm res" where
  "vm_acquire l s =
     (if vm_locked s l then Inl Deadlock else Inr (s\<lparr>vm_locked := (vm_locked s)(l := True)\<rparr>))"

definition vm_release :: "vm_lock \<Rightarrow> 'd vm \<Rightarrow> 'd vm" where
  "vm_release l s = s\<lparr>vm_locked := (vm_locked s)(l := False)\<rparr>"

definition upd_info ::
    "info_ptr \<Rightarrow> (page_frame_info_t \<Rightarrow> page_frame_info_t) \<Rightarrow> 'd vm \<Rightarrow> 'd vm" where
  "upd_info p f s = s\<lparr>infos := (infos s)(p := f (infos s p))\<rparr>"

text \<open>\<open>&page_frame_info[index]\<close>; an index outside the array is an access outside of it.\<close>

definition info_ref :: "u32 \<Rightarrow> info_ptr res" where
  "info_ref index = (if unat index < PAGEABLE_PAGES then Inr (Info (unat index)) else Inl WildAccess)"

section \<open>Descriptors\<close>

definition set_frame_info ::
    "info_ptr \<Rightarrow> pcb_ptr \<Rightarrow> info_ptr \<Rightarrow> u32 \<Rightarrow> u32 \<Rightarrow> 'd vm \<Rightarrow> 'd vm" where
  "set_frame_info frame ownerv next_shared_infov paddrv info_modev =
     upd_info frame (\<lambda>r. r\<lparr>fi_owner := ownerv, next_shared_info := next_shared_infov,
       fi_paddr := paddrv, info_mode := info_modev\<rparr>)"

definition init_frame_step :: "nat \<Rightarrow> u32 \<times> 'd vm \<Rightarrow> u32 \<times> 'd vm" where
  "init_frame_step i = (\<lambda>(paddr, s).
     let paddr = paddr + PAGE_SIZE;
         s = set_frame_info (Info i) 0 InfoNull paddr 0 s;
         s = set_frame_info (Shared i) 0 InfoNull 0 0 s;
         s = upd_info (Info (i - 1)) (\<lambda>r. r\<lparr>next_free_page := Info i\<rparr>) s
     in (paddr, s))"

definition initialize_page_frame_infos :: "'d vm \<Rightarrow> 'd vm" where
  "initialize_page_frame_infos s =
     (let paddr = PAGING_AREA_MIN_PADDR;
          s = s\<lparr>page_free_head := Info 0\<rparr>;
          s = set_frame_info (Info 0) 0 InfoNull paddr 0 s;
          s = set_frame_info (Shared 0) 0 InfoNull 0 0 s;
          (paddr, s) = fold init_frame_step [1..<PAGEABLE_PAGES] (paddr, s)
      in upd_info (Info (PAGEABLE_PAGES - 1)) (\<lambda>r. r\<lparr>next_free_page := InfoNull\<rparr>) s)"

definition calculate_info_index :: "u32 \<Rightarrow> u32" where
  "calculate_info_index paddr = (paddr - PAGING_AREA_MIN_PADDR) div PAGE_SIZE"

definition add_page_frame_to_free_list_info :: "u32 \<Rightarrow> 'd vm \<Rightarrow> 'd vm res" where
  "add_page_frame_to_free_list_info paddress s =
     bindR (info_ref (calculate_info_index paddress)) (\<lambda>page_frame.
       let s = upd_info page_frame (\<lambda>r. r\<lparr>next_free_page := page_free_head s\<rparr>) s
       in Inr (s\<lparr>page_free_head := page_frame\<rparr>))"

definition remove_page_frame_from_free_list_info :: "'d vm \<Rightarrow> info_ptr \<times> 'd vm" where
  "remove_page_frame_from_free_list_info s =
     (if page_free_head s = InfoNull then (InfoNull, s)
      else
        (let allocated_page_frame = page_free_head s;
             s = s\<lparr>page_free_head := next_free_page (infos s allocated_page_frame)\<rparr>;
             s = upd_info allocated_page_frame (\<lambda>r. r\<lparr>next_free_page := InfoNull\<rparr>) s
         in (allocated_page_frame, s)))"

text \<open>
  The last descriptor of a chain. There are \<open>2 * PAGEABLE_PAGES\<close> descriptors, so a walk of
  that many links that does not end follows a cycle.
\<close>

fun last_shared_info :: "nat \<Rightarrow> info_ptr \<Rightarrow> 'd vm \<Rightarrow> info_ptr res" where
  "last_shared_info 0 p s = Inl Diverges"
| "last_shared_info (Suc n) p s =
     (if next_shared_info (infos s p) \<noteq> InfoNull
      then last_shared_info n (next_shared_info (infos s p)) s else Inr p)"

definition insert_page_frame_info ::
    "u32 \<Rightarrow> u32 \<Rightarrow> pcb_ptr \<Rightarrow> u32 \<Rightarrow> 'd vm \<Rightarrow> (info_ptr \<times> 'd vm) res" where
  "insert_page_frame_info paddr vaddr owner_pcb mode s =
     bindR (info_ref (calculate_info_index paddr)) (\<lambda>info.
       let vaddr = vaddr AND 0xfffff000 in
       if fi_owner (infos s info) \<noteq> 0 then
         (if is_thread (pcb_at s (fi_owner (infos s info))) = 0 \<and>
             \<not> (PAGING_AREA_MIN_PADDR \<le> vaddr \<and> vaddr < PAGING_AREA_MAX_PADDR)
          then Inl AssertFail
          else
            bindR (last_shared_info (2 * PAGEABLE_PAGES + 1) info s) (\<lambda>last_info.
              case find (\<lambda>i. fi_owner (infos s (Shared i)) = 0) [0..<PAGEABLE_PAGES] of
                Some i \<Rightarrow>
                  (let shared_info = Shared i;
                       s = upd_info last_info (\<lambda>r. r\<lparr>next_shared_info := shared_info\<rparr>) s;
                       s = upd_info shared_info (\<lambda>r. r\<lparr>fi_owner := owner_pcb, fi_paddr := paddr,
                             fi_vaddr := vaddr, info_mode := mode\<rparr>) s
                   in Inr (shared_info, s))
              | None \<Rightarrow> Inr (InfoNull, nointerrupt_leave (nointerrupt_enter s))))
       else
         Inr (info, upd_info info (\<lambda>r. r\<lparr>fi_owner := owner_pcb, next_shared_info := InfoNull,
           fi_vaddr := vaddr, info_mode := mode\<rparr>) s))"

definition inc_pinned_pages :: "u32 \<Rightarrow> 'd vm \<Rightarrow> 'd vm res" where
  "inc_pinned_pages increment s =
     bindR (vm_acquire PinnedPagesCounterLock s) (\<lambda>s.
       let s = s\<lparr>number_of_pinned_page_frames := number_of_pinned_page_frames s + increment\<rparr>
       in Inr (vm_release PinnedPagesCounterLock s))"

fun clear_info_chain :: "nat \<Rightarrow> info_ptr \<Rightarrow> 'd vm \<Rightarrow> 'd vm res" where
  "clear_info_chain 0 p s = Inl Diverges"
| "clear_info_chain (Suc n) p s =
     (let s = upd_info p (\<lambda>r. r\<lparr>fi_owner := 0, fi_vaddr := 0, info_mode := 0\<rparr>) s;
          nxt = next_shared_info (infos s p);
          s = upd_info p (\<lambda>r. r\<lparr>next_shared_info := InfoNull\<rparr>) s
      in if nxt \<noteq> InfoNull then clear_info_chain n nxt s else Inr s)"

definition page_clear_info :: "u32 \<Rightarrow> 'd vm \<Rightarrow> 'd vm res" where
  "page_clear_info paddr s =
     bindR (info_ref (calculate_info_index paddr))
       (\<lambda>info_frame. clear_info_chain (2 * PAGEABLE_PAGES + 1) info_frame s)"

section \<open>Eviction queue entries\<close>

definition fifo_enqueue_info :: "u32 \<Rightarrow> 'd vm \<Rightarrow> 'd vm res" where
  "fifo_enqueue_info paddr s =
     bindR (info_ref (calculate_info_index paddr)) (\<lambda>info.
       if info_mode (infos s info) AND PE_INFO_PINNED = 0
       then Inr (s\<lparr>fifo_queue := snd (fifo_enqueue (calculate_info_index paddr) (fifo_queue s))\<rparr>)
       else Inr s)"

text \<open>
  \<open>fifo_dequeue_info(int *error)\<close> tests the pointer \<open>error\<close>, not what it points to:
  \<open>has_ptr\<close> is whether the pointer is not null. The flag returned is what \<open>*error\<close> is set to.
\<close>

definition fifo_dequeue_info :: "bool \<Rightarrow> 'd vm \<Rightarrow> (u32 \<times> bool \<times> 'd vm) res" where
  "fifo_dequeue_info has_ptr s =
     (let (fifo_index, err, q) = fifo_dequeue (fifo_queue s); s = s\<lparr>fifo_queue := q\<rparr> in
      if has_ptr then Inr (0, err, s)
      else bindR (info_ref fifo_index) (\<lambda>info. Inr (fi_paddr (infos s info), err, s)))"

section \<open>Allocation of free frames\<close>

text \<open>\<open>for (int i = 0; i < PAGE_SIZE; i++) *(paddr + i) = 0\<close> on a \<open>uint32_t *\<close>.\<close>

definition zero_words :: "nat \<Rightarrow> u32 \<Rightarrow> pmem_t \<Rightarrow> pmem_t" where
  "zero_words n paddr m = fold (\<lambda>i m. write32 m (paddr + 4 * of_nat i) 0) [0..<n] m"

definition allocate_page_internal :: "'d vm \<Rightarrow> u32 \<times> 'd vm" where
  "allocate_page_internal s =
     (let (page_info_frame, s) = remove_page_frame_from_free_list_info s in
      if page_info_frame \<noteq> InfoNull
      then (let paddr = fi_paddr (infos s page_info_frame)
            in (paddr, s\<lparr>pmem := zero_words (unat PAGE_SIZE) paddr (pmem s)\<rparr>))
      else (0, s))"

definition free_memory :: "u32 \<Rightarrow> 'd vm \<Rightarrow> 'd vm res" where
  "free_memory ptr s =
     bindR (vm_acquire NextFreeMemLock s) (\<lambda>s. Inr (vm_release NextFreeMemLock s))"

section \<open>Fields that machine operations leave alone\<close>

lemma vm_nointerrupt_enter [simp]:
  "infos (nointerrupt_enter s) = infos s"
  "page_free_head (nointerrupt_enter s) = page_free_head s"
  "fifo_queue (nointerrupt_enter s) = fifo_queue s"
  "number_of_pinned_page_frames (nointerrupt_enter s) = number_of_pinned_page_frames s"
  "kernel_pdir (nointerrupt_enter s) = kernel_pdir s"
  "user_kernel_ptable (nointerrupt_enter s) = user_kernel_ptable s"
  "first_process (nointerrupt_enter s) = first_process s"
  "first_process_pid (nointerrupt_enter s) = first_process_pid s"
  "next_free_mem (nointerrupt_enter s) = next_free_mem s"
  "random_index_val (nointerrupt_enter s) = random_index_val s"
  "vm_locked (nointerrupt_enter s) = vm_locked s"
  "read_buffer (nointerrupt_enter s) = read_buffer s"
  "disk (nointerrupt_enter s) = disk s"
  for s :: "'d vm"
  by (simp_all add: nointerrupt_enter_def interrupts_disable_def Let_def)

lemma vm_nointerrupt_leave [simp]:
  "infos (nointerrupt_leave s) = infos s"
  "page_free_head (nointerrupt_leave s) = page_free_head s"
  "fifo_queue (nointerrupt_leave s) = fifo_queue s"
  "number_of_pinned_page_frames (nointerrupt_leave s) = number_of_pinned_page_frames s"
  "kernel_pdir (nointerrupt_leave s) = kernel_pdir s"
  "user_kernel_ptable (nointerrupt_leave s) = user_kernel_ptable s"
  "first_process (nointerrupt_leave s) = first_process s"
  "first_process_pid (nointerrupt_leave s) = first_process_pid s"
  "next_free_mem (nointerrupt_leave s) = next_free_mem s"
  "random_index_val (nointerrupt_leave s) = random_index_val s"
  "vm_locked (nointerrupt_leave s) = vm_locked s"
  "read_buffer (nointerrupt_leave s) = read_buffer s"
  "disk (nointerrupt_leave s) = disk s"
  for s :: "'d vm"
  by (simp_all add: nointerrupt_leave_def interrupts_enable_def Let_def)

lemma vm_invalidate_page [simp]:
  "infos (invalidate_page v s) = infos s"
  "page_free_head (invalidate_page v s) = page_free_head s"
  "fifo_queue (invalidate_page v s) = fifo_queue s"
  "number_of_pinned_page_frames (invalidate_page v s) = number_of_pinned_page_frames s"
  "kernel_pdir (invalidate_page v s) = kernel_pdir s"
  "user_kernel_ptable (invalidate_page v s) = user_kernel_ptable s"
  "first_process (invalidate_page v s) = first_process s"
  "first_process_pid (invalidate_page v s) = first_process_pid s"
  "next_free_mem (invalidate_page v s) = next_free_mem s"
  "random_index_val (invalidate_page v s) = random_index_val s"
  "vm_locked (invalidate_page v s) = vm_locked s"
  "read_buffer (invalidate_page v s) = read_buffer s"
  "disk (invalidate_page v s) = disk s"
  "pcb_at (invalidate_page v s) = pcb_at s"
  "current_running (invalidate_page v s) = current_running s"
  "running_processes (invalidate_page v s) = running_processes s"
  "freelist (invalidate_page v s) = freelist s"
  "next_pid (invalidate_page v s) = next_pid s"
  "next_stack (invalidate_page v s) = next_stack s"
  "saved_ctx (invalidate_page v s) = saved_ctx s"
  for s :: "'d vm"
  by (simp_all add: invalidate_page_def)

lemma vm_table_map_page [simp]:
  "infos (table_map_page t v p m s) = infos s"
  "page_free_head (table_map_page t v p m s) = page_free_head s"
  "fifo_queue (table_map_page t v p m s) = fifo_queue s"
  "number_of_pinned_page_frames (table_map_page t v p m s) = number_of_pinned_page_frames s"
  "kernel_pdir (table_map_page t v p m s) = kernel_pdir s"
  "user_kernel_ptable (table_map_page t v p m s) = user_kernel_ptable s"
  "first_process (table_map_page t v p m s) = first_process s"
  "first_process_pid (table_map_page t v p m s) = first_process_pid s"
  "next_free_mem (table_map_page t v p m s) = next_free_mem s"
  "random_index_val (table_map_page t v p m s) = random_index_val s"
  "vm_locked (table_map_page t v p m s) = vm_locked s"
  "read_buffer (table_map_page t v p m s) = read_buffer s"
  "disk (table_map_page t v p m s) = disk s"
  "pcb_at (table_map_page t v p m s) = pcb_at s"
  "current_running (table_map_page t v p m s) = current_running s"
  "running_processes (table_map_page t v p m s) = running_processes s"
  "freelist (table_map_page t v p m s) = freelist s"
  "next_pid (table_map_page t v p m s) = next_pid s"
  "next_stack (table_map_page t v p m s) = next_stack s"
  "saved_ctx (table_map_page t v p m s) = saved_ctx s"
  "cr2 (table_map_page t v p m s) = cr2 s"
  "cr3 (table_map_page t v p m s) = cr3 s"
  "invlpg_slot (table_map_page t v p m s) = invlpg_slot s"
  "nointerrupt_count_val (table_map_page t v p m s) = nointerrupt_count_val s"
  "intr_flag (table_map_page t v p m s) = intr_flag s"
  "tsc (table_map_page t v p m s) = tsc s"
  "tsc_pos (table_map_page t v p m s) = tsc_pos s"
  for s :: "'d vm"
  by (simp_all add: table_map_page_def Let_def)

lemma vm_dir_ins_table [simp]:
  "infos (dir_ins_table t v p m s) = infos s"
  "page_free_head (dir_ins_table t v p m s) = page_free_head s"
  "fifo_queue (dir_ins_table t v p m s) = fifo_queue s"
  "number_of_pinned_page_frames (dir_ins_table t v p m s) = number_of_pinned_page_frames s"
  "kernel_pdir (dir_ins_table t v p m s) = kernel_pdir s"
  "user_kernel_ptable (dir_ins_table t v p m s) = user_kernel_ptable s"
  "first_process (dir_ins_table t v p m s) = first_process s"
  "first_process_pid (dir_ins_table t v p m s) = first_process_pid s"
  "next_free_mem (dir_ins_table t v p m s) = next_free_mem s"
  "random_index_val (dir_ins_table t v p m s) = random_index_val s"
  "vm_locked (dir_ins_table t v p m s) = vm_locked s"
  "read_buffer (dir_ins_table t v p m s) = read_buffer s"
  "disk (dir_ins_table t v p m s) = disk s"
  "pcb_at (dir_ins_table t v p m s) = pcb_at s"
  "current_running (dir_ins_table t v p m s) = current_running s"
  "running_processes (dir_ins_table t v p m s) = running_processes s"
  "freelist (dir_ins_table t v p m s) = freelist s"
  "next_pid (dir_ins_table t v p m s) = next_pid s"
  "next_stack (dir_ins_table t v p m s) = next_stack s"
  "saved_ctx (dir_ins_table t v p m s) = saved_ctx s"
  "cr2 (dir_ins_table t v p m s) = cr2 s"
  "cr3 (dir_ins_table t v p m s) = cr3 s"
  "invlpg_slot (dir_ins_table t v p m s) = invlpg_slot s"
  "nointerrupt_count_val (dir_ins_table t v p m s) = nointerrupt_count_val s"
  "intr_flag (dir_ins_table t v p m s) = intr_flag s"
  "tsc (dir_ins_table t v p m s) = tsc s"
  "tsc_pos (dir_ins_table t v p m s) = tsc_pos s"
  "tlb (dir_ins_table t v p m s) = tlb s"
  for s :: "'d vm"
  by (simp_all add: dir_ins_table_def Let_def)

lemma vm_upd_pcb [simp]:
  "infos (upd_pcb p f s) = infos s"
  "page_free_head (upd_pcb p f s) = page_free_head s"
  "fifo_queue (upd_pcb p f s) = fifo_queue s"
  "number_of_pinned_page_frames (upd_pcb p f s) = number_of_pinned_page_frames s"
  "kernel_pdir (upd_pcb p f s) = kernel_pdir s"
  "user_kernel_ptable (upd_pcb p f s) = user_kernel_ptable s"
  "first_process (upd_pcb p f s) = first_process s"
  "first_process_pid (upd_pcb p f s) = first_process_pid s"
  "next_free_mem (upd_pcb p f s) = next_free_mem s"
  "random_index_val (upd_pcb p f s) = random_index_val s"
  "vm_locked (upd_pcb p f s) = vm_locked s"
  "read_buffer (upd_pcb p f s) = read_buffer s"
  "disk (upd_pcb p f s) = disk s"
  for s :: "'d vm"
  by (simp_all add: upd_pcb_def)

lemma vm_upd_info [simp]:
  "page_free_head (upd_info p f s) = page_free_head s"
  "fifo_queue (upd_info p f s) = fifo_queue s"
  "number_of_pinned_page_frames (upd_info p f s) = number_of_pinned_page_frames s"
  "kernel_pdir (upd_info p f s) = kernel_pdir s"
  "user_kernel_ptable (upd_info p f s) = user_kernel_ptable s"
  "first_process (upd_info p f s) = first_process s"
  "first_process_pid (upd_info p f s) = first_process_pid s"
  "next_free_mem (upd_info p f s) = next_free_mem s"
  "random_index_val (upd_info p f s) = random_index_val s"
  "vm_locked (upd_info p f s) = vm_locked s"
  "read_buffer (upd_info p f s) = read_buffer s"
  "disk (upd_info p f s) = disk s"
  "pcb_at (upd_info p f s) = pcb_at s"
  "current_running (upd_info p f s) = current_running s"
  "running_processes (upd_info p f s) = running_processes s"
  "freelist (upd_info p f s) = freelist s"
  "next_pid (upd_info p f s) = next_pid s"
  "next_stack (upd_info p f s) = next_stack s"
  "saved_ctx (upd_info p f s) = saved_ctx s"
  "cr2 (upd_info p f s) = cr2 s"
  "cr3 (upd_info p f s) = cr3 s"
  "invlpg_slot (upd_info p f s) = invlpg_slot s"
  "nointerrupt_count_val (upd_info p f s) = nointerrupt_count_val s"
  "intr_flag (upd_info p f s) = intr_flag s"
  "tsc (upd_info p f s) = tsc s"
  "tsc_pos (upd_info p f s) = tsc_pos s"
  "tlb (upd_info p f s) = tlb s"
  "pmem (upd_info p f s) = pmem s"
  for s :: "'d vm"
  by (simp_all add: upd_info_def)

lemma vm_vm_release [simp]:
  "infos (vm_release l s) = infos s"
  "page_free_head (vm_release l s) = page_free_head s"
  "fifo_queue (vm_release l s) = fifo_queue s"
  "number_of_pinned_page_frames (vm_release l s) = number_of_pinned_page_frames s"
  "kernel_pdir (vm_release l s) = kernel_pdir s"
  "user_kernel_ptable (vm_release l s) = user_kernel_ptable s"
  "first_process (vm_release l s) = first_process s"
  "first_process_pid (vm_release l s) = first_process_pid s"
  "next_free_mem (vm_release l s) = next_free_mem s"
  "random_index_val (vm_release l s) = random_index_val s"
  "read_buffer (vm_release l s) = read_buffer s"
  "disk (vm_release l s) = disk s"
  "pcb_at (vm_release l s) = pcb_at s"
  "current_running (vm_release l s) = current_running s"
  "running_processes (vm_release l s) = running_processes s"
  "freelist (vm_release l s) = freelist s"
  "next_pid (vm_release l s) = next_pid s"
  "next_stack (vm_release l s) = next_stack s"
  "saved_ctx (vm_release l s) = saved_ctx s"
  "cr2 (vm_release l s) = cr2 s"
  "cr3 (vm_release l s) = cr3 s"
  "invlpg_slot (vm_release l s) = invlpg_slot s"
  "nointerrupt_count_val (vm_release l s) = nointerrupt_count_val s"
  "intr_flag (vm_release l s) = intr_flag s"
  "tsc (vm_release l s) = tsc s"
  "tsc_pos (vm_release l s) = tsc_pos s"
  "tlb (vm_release l s) = tlb s"
  "pmem (vm_release l s) = pmem s"
  for s :: "'d vm"
  by (simp_all add: vm_release_def)

section \<open>Frame addresses\<close>

definition frame_addr :: "nat \<Rightarrow> u32" where
  "frame_addr i = PAGING_AREA_MIN_PADDR + PAGE_SIZE * of_nat i"

lemma unat_frame_addr: "i < 1000 \<Longrightarrow> unat (frame_addr i) = 1048576 + 4096 * i"
  by (simp add: frame_addr_def addr_defs unat_word_ariths unat_of_nat)

lemma frame_addr_aligned: "i < 1000 \<Longrightarrow> page_aligned (frame_addr i)"
  by (simp add: page_aligned_def unat_frame_addr)

lemma frame_addr_nonzero: "i < 1000 \<Longrightarrow> frame_addr i \<noteq> 0"
  using unat_frame_addr [of i] by auto

lemma frame_addr_inj: "i < 1000 \<Longrightarrow> j < 1000 \<Longrightarrow> frame_addr i = frame_addr j \<longleftrightarrow> i = j"
proof
  assume "i < 1000" "j < 1000" "frame_addr i = frame_addr j"
  then have "1048576 + 4096 * i = 1048576 + 4096 * j" using unat_frame_addr by metis
  then show "i = j" by simp
qed simp

lemma frame_addr_Suc: "frame_addr (Suc i) = frame_addr i + PAGE_SIZE"
  by (simp add: frame_addr_def addr_defs algebra_simps)

lemma info_index_frame: "i < 1000 \<Longrightarrow> calculate_info_index (frame_addr i) = of_nat i"
  by (simp add: calculate_info_index_def frame_addr_def addr_defs word_unat_eq_iff unat_word_ariths
      unat_div unat_of_nat)

lemma info_ref_frame: "i < PAGEABLE_PAGES \<Longrightarrow> info_ref (of_nat i) = Inr (Info i)"
  by (simp add: info_ref_def PAGEABLE_PAGES_def unat_of_nat)

lemma info_ref_frame_addr:
  "i < PAGEABLE_PAGES \<Longrightarrow> info_ref (calculate_info_index (frame_addr i)) = Inr (Info i)"
  by (simp add: info_ref_frame info_index_frame PAGEABLE_PAGES_def)

lemma in_page_frame_disjoint:
  "in_page (frame_addr i) a \<Longrightarrow> in_page (frame_addr j) a \<Longrightarrow> i < 1000 \<Longrightarrow> j < 1000 \<Longrightarrow> i = j"
  by (auto simp: in_page_def unat_frame_addr)

section \<open>Zeroing\<close>

lemma zero_words_Suc: "zero_words (Suc n) p m = write32 (zero_words n p m) (p + 4 * of_nat n) 0"
  by (simp add: zero_words_def)

lemma write32_zero:
  assumes "aligned4 a"
  shows "write32 m a 0 x = (if unat a \<le> unat x \<and> unat x < unat a + 4 then 0 else m x)"
proof (cases "unat a \<le> unat x \<and> unat x < unat a + 4")
  case True
  then have "unat x = unat a \<or> unat x = unat (a + 1) \<or> unat x = unat (a + 2) \<or> unat x = unat (a + 3)"
    using aligned4_unat_add [OF assms] by linarith
  then have "x = a \<or> x = a + 1 \<or> x = a + 2 \<or> x = a + 3" by (simp only: word_unat_eq_iff)
  then show ?thesis using True by (auto simp: write32_def)
next
  case False
  then show ?thesis using write32_outside [OF assms, of x m 0] by auto
qed

text \<open>
  \<open>n\<close> words are \<open>4 * n\<close> bytes: with \<open>PAGE_SIZE\<close> for \<open>n\<close>, four pages.
\<close>

lemma zero_words_eq:
  assumes "aligned4 p" "unat p + 4 * n < 2 ^ 32"
  shows "zero_words n p m x = (if unat p \<le> unat x \<and> unat x < unat p + 4 * n then 0 else m x)"
  using assms(2)
proof (induction n)
  case 0
  then show ?case by (auto simp: zero_words_def)
next
  case (Suc n)
  have u: "unat (p + 4 * of_nat n) = unat p + 4 * n"
    using unat_add_small [of p "4 * n"] Suc.prems by simp
  then have "aligned4 (p + 4 * of_nat n)" using assms(1) by (simp add: aligned4_def)
  then show ?case using Suc u by (auto simp: zero_words_Suc write32_zero)
qed

section \<open>The free list\<close>

text \<open>
  Frames leave the free list from its head and none returns (no caller of \<open>page_free\<close> asks
  for it), so the free frames are always those from some index \<open>k\<close> on.
\<close>

definition free_from :: "nat \<Rightarrow> 'd vm \<Rightarrow> bool" where
  "free_from k s \<longleftrightarrow> k \<le> PAGEABLE_PAGES \<and>
     page_free_head s = (if k < PAGEABLE_PAGES then Info k else InfoNull) \<and>
     (\<forall>i < PAGEABLE_PAGES. fi_paddr (infos s (Info i)) = frame_addr i) \<and>
     (\<forall>i. k \<le> i \<and> i < PAGEABLE_PAGES \<longrightarrow>
        next_free_page (infos s (Info i)) = (if Suc i < PAGEABLE_PAGES then Info (Suc i) else InfoNull) \<and>
        fi_owner (infos s (Info i)) = 0 \<and> info_mode (infos s (Info i)) = 0)"

lemma init_frame_step_eq:
  "init_frame_step (Suc n) (frame_addr n, t) =
    (frame_addr (Suc n), t\<lparr>infos := (infos t)
      (Info (Suc n) := (infos t (Info (Suc n)))\<lparr>fi_owner := 0, next_shared_info := InfoNull,
         fi_paddr := frame_addr (Suc n), info_mode := 0\<rparr>,
       Shared (Suc n) := (infos t (Shared (Suc n)))\<lparr>fi_owner := 0, next_shared_info := InfoNull,
         fi_paddr := 0, info_mode := 0\<rparr>,
       Info n := (infos t (Info n))\<lparr>next_free_page := Info (Suc n)\<rparr>)\<rparr>)"
  by (simp add: init_frame_step_def Let_def set_frame_info_def upd_info_def
      frame_addr_Suc [symmetric])

definition frames_initialised :: "nat \<Rightarrow> 'd vm \<Rightarrow> bool" where
  "frames_initialised n t \<longleftrightarrow> page_free_head t = Info 0 \<and>
    (\<forall>i \<le> n. fi_paddr (infos t (Info i)) = frame_addr i \<and> fi_owner (infos t (Info i)) = 0 \<and>
       info_mode (infos t (Info i)) = 0 \<and> fi_owner (infos t (Shared i)) = 0) \<and>
    (\<forall>i < n. next_free_page (infos t (Info i)) = Info (Suc i))"

lemma init_frame_fold:
  assumes "frames_initialised 0 s"
  shows "\<exists>t. fold init_frame_step [1..<Suc n] (frame_addr 0, s) = (frame_addr n, t) \<and>
    frames_initialised n t \<and> t = s\<lparr>infos := infos t\<rparr>"
proof (induction n)
  case 0
  then show ?case using assms by simp
next
  case (Suc n)
  then obtain t where t: "fold init_frame_step [1..<Suc n] (frame_addr 0, s) = (frame_addr n, t)"
    "frames_initialised n t" "t = s\<lparr>infos := infos t\<rparr>" by auto
  obtain u where u: "init_frame_step (Suc n) (frame_addr n, t) = (frame_addr (Suc n), u)"
    "u = t\<lparr>infos := infos u\<rparr>" "frames_initialised (Suc n) u"
    using t(2) by (simp add: init_frame_step_eq frames_initialised_def le_Suc_eq less_Suc_eq)
  have "fold init_frame_step [1..<Suc (Suc n)] (frame_addr 0, s) =
      init_frame_step (Suc n) (fold init_frame_step [1..<Suc n] (frame_addr 0, s))"
    by simp
  also have "\<dots> = (frame_addr (Suc n), u)" by (simp only: t(1) u(1))
  finally show ?case using t(3) u(2,3) by (metis vm.update_convs(1) vm.surjective)
qed

lemma initialize_page_frame_infos_free:
  "free_from 0 (initialize_page_frame_infos s) \<and>
   (\<forall>i < PAGEABLE_PAGES. fi_owner (infos (initialize_page_frame_infos s) (Shared i)) = 0) \<and>
   initialize_page_frame_infos s =
     s\<lparr>infos := infos (initialize_page_frame_infos s), page_free_head := Info 0\<rparr>"
proof -
  let ?s = "set_frame_info (Shared 0) 0 InfoNull 0 0
    (set_frame_info (Info 0) 0 InfoNull PAGING_AREA_MIN_PADDR 0 (s\<lparr>page_free_head := Info 0\<rparr>))"
  have f0: "PAGING_AREA_MIN_PADDR = frame_addr 0" by (simp add: frame_addr_def)
  have "frames_initialised 0 ?s"
    by (simp add: frames_initialised_def set_frame_info_def upd_info_def f0)
  from init_frame_fold [OF this, of "PAGEABLE_PAGES - 1"] obtain t where t:
    "fold init_frame_step [1..<PAGEABLE_PAGES] (PAGING_AREA_MIN_PADDR, ?s) =
       (frame_addr (PAGEABLE_PAGES - 1), t)"
    "frames_initialised (PAGEABLE_PAGES - 1) t" "t = ?s\<lparr>infos := infos t\<rparr>"
    by (auto simp: f0 PAGEABLE_PAGES_def)
  have i: "initialize_page_frame_infos s =
      upd_info (Info (PAGEABLE_PAGES - 1)) (\<lambda>r. r\<lparr>next_free_page := InfoNull\<rparr>) t"
    using t(1) by (simp add: initialize_page_frame_infos_def Let_def)
  moreover have "t\<lparr>infos := f\<rparr> = s\<lparr>infos := f, page_free_head := Info 0\<rparr>" for f
    by (subst t(3)) (simp add: set_frame_info_def upd_info_def)
  ultimately show ?thesis
    using t(2) by (auto simp: free_from_def frames_initialised_def upd_info_def PAGEABLE_PAGES_def)
qed

lemma remove_page_frame_free:
  assumes "free_from k s" "k < PAGEABLE_PAGES"
  shows "remove_page_frame_from_free_list_info s =
    (Info k, s\<lparr>page_free_head := (if Suc k < PAGEABLE_PAGES then Info (Suc k) else InfoNull),
       infos := (infos s)(Info k := (infos s (Info k))\<lparr>next_free_page := InfoNull\<rparr>)\<rparr>)"
  using assms by (auto simp: remove_page_frame_from_free_list_info_def free_from_def upd_info_def Let_def)

lemma remove_page_frame_empty:
  "free_from PAGEABLE_PAGES s \<Longrightarrow> remove_page_frame_from_free_list_info s = (InfoNull, s)"
  by (simp add: remove_page_frame_from_free_list_info_def free_from_def)

text \<open>
  What allocating the free frame \<open>k\<close> does: the frame is zero, every frame below it keeps its
  contents, and so does all memory outside of the four pages that are cleared.
\<close>

lemma allocate_page_internal_free:
  assumes "free_from k s" "k < PAGEABLE_PAGES"
  shows "\<exists>s'. allocate_page_internal s = (frame_addr k, s') \<and> free_from (Suc k) s' \<and>
    (\<forall>a. pmem s' a = (if unat (frame_addr k) \<le> unat a \<and> unat a < unat (frame_addr k) + 16384
                      then 0 else pmem s a)) \<and>
    infos s' = (infos s)(Info k := (infos s (Info k))\<lparr>next_free_page := InfoNull\<rparr>) \<and>
    s' = s\<lparr>page_free_head := page_free_head s', infos := infos s', pmem := pmem s'\<rparr>"
proof -
  have k: "k < 33" using assms(2) by (simp add: PAGEABLE_PAGES_def)
  have al: "aligned4 (frame_addr k)" using frame_addr_aligned [of k] k
    by (simp add: aligned4_def unat_frame_addr)
  have z: "zero_words (unat PAGE_SIZE) (frame_addr k) m a =
      (if unat (frame_addr k) \<le> unat a \<and> unat a < unat (frame_addr k) + 16384 then 0 else m a)" for m a
    using zero_words_eq [OF al, of 4096 m a] k by (simp add: unat_frame_addr addr_defs)
  have p: "fi_paddr (infos s (Info k)) = frame_addr k" using assms by (simp add: free_from_def)
  let ?u = "s\<lparr>page_free_head := (if Suc k < PAGEABLE_PAGES then Info (Suc k) else InfoNull),
       infos := (infos s)(Info k := (infos s (Info k))\<lparr>next_free_page := InfoNull\<rparr>),
       pmem := zero_words (unat PAGE_SIZE) (frame_addr k) (pmem s)\<rparr>"
  have "allocate_page_internal s = (frame_addr k, ?u)"
    using remove_page_frame_free [OF assms] p by (simp add: allocate_page_internal_def Let_def)
  moreover have "free_from (Suc k) ?u"
    using assms by (auto simp: free_from_def)
  ultimately show ?thesis by (intro exI [of _ ?u]) (simp add: z)
qed

lemma allocate_page_internal_empty:
  "free_from PAGEABLE_PAGES s \<Longrightarrow> allocate_page_internal s = (0, s)"
  by (simp add: allocate_page_internal_def remove_page_frame_empty)

end
