(* ===== verification/Paging.thy ===== *)
theory Paging
  imports PageFrames
begin

text \<open>
  Demand paging (\<open>kernel/memory.c\<close>): the choice of a victim, the write-back of dirty pages to
  the process image on disk, the release of a frame, the allocation that falls back on
  eviction, and the page fault handler. Logging is left out; the uninterruptable sections
  around log messages are kept.
\<close>

unbundle bit_operations_syntax

section \<open>Releasing a frame\<close>

definition page_free_step :: "info_ptr \<Rightarrow> bool \<Rightarrow> u32 \<Rightarrow> 'd vm \<Rightarrow> (info_ptr \<times> 'd vm) res" where
  "page_free_step p evict paddr s =
     (let r = infos s p; pdir = page_directory (pcb_at s (fi_owner r)) in
      if fi_owner r = dummy_kernel_pcb \<or> pdir = kernel_pdir s then Inl Abortk
      else
        (let s = nointerrupt_enter s in
         bindR (if evict then unmap_physical_page pdir (fi_vaddr r) s
                else add_page_frame_to_free_list_info paddr s) (\<lambda>s.
           let s = nointerrupt_leave s;
               s = upd_info p (\<lambda>r. r\<lparr>fi_owner := 0, fi_vaddr := 0, info_mode := 0\<rparr>) s;
               nxt = next_shared_info (infos s p);
               s = upd_info p (\<lambda>r. r\<lparr>next_shared_info := InfoNull\<rparr>) s
           in Inr (nxt, s))))"

fun page_free_loop :: "nat \<Rightarrow> info_ptr \<Rightarrow> bool \<Rightarrow> u32 \<Rightarrow> 'd vm \<Rightarrow> 'd vm res" where
  "page_free_loop 0 p evict paddr s = Inl Diverges"
| "page_free_loop (Suc n) p evict paddr s =
     bindR (page_free_step p evict paddr s) (\<lambda>(nxt, s).
       if nxt \<noteq> InfoNull then page_free_loop n nxt evict paddr s else Inr s)"

definition page_free :: "u32 \<Rightarrow> bool \<Rightarrow> 'd vm \<Rightarrow> 'd vm res" where
  "page_free paddr evict s =
     bindR (info_ref (calculate_info_index paddr))
       (\<lambda>info_frame. page_free_loop (2 * PAGEABLE_PAGES + 1) info_frame evict paddr s)"

section \<open>Choosing a victim\<close>

definition select_page_for_eviction_v2 :: "'d vm \<Rightarrow> (u32 \<times> 'd vm) res" where
  "select_page_for_eviction_v2 s =
     bindR (fifo_dequeue_info True s) (\<lambda>(paddr, error_empty_queue, s).
       if error_empty_queue then Inl Abortk else Inr (paddr, s))"

definition select_page_for_eviction_v1 :: "'d vm \<Rightarrow> (u32 \<times> 'd vm) res" where
  "select_page_for_eviction_v1 s =
     (let (index, error_empty_queue, q) = fifo_dequeue (fifo_queue s); s = s\<lparr>fifo_queue := q\<rparr> in
      if error_empty_queue then Inl Abortk
      else
        bindR (vm_acquire PageFrameInfoLock s) (\<lambda>s.
        bindR (info_ref index) (\<lambda>info.
          let paddr = fi_paddr (infos s info); s = vm_release PageFrameInfoLock s
          in Inr (paddr, s))))"

definition random_index_generator :: "'d vm \<Rightarrow> u32 \<times> 'd vm" where
  "random_index_generator s =
     (let (t, s) = read_cpu_ticks s;
          v = ucast (ucast (random_index_val s * 1103515245 + 12345) + t mod 2397 :: u64);
          s = s\<lparr>random_index_val := v\<rparr>
      in ((v div 65536) mod of_nat PAGEABLE_PAGES, s))"

text \<open>
  The random strategy draws until it meets a frame that is not pinned, which may never
  happen: the first argument bounds the number of draws.
\<close>

fun evict_random_page :: "nat \<Rightarrow> 'd vm \<Rightarrow> (u32 \<times> 'd vm) res" where
  "evict_random_page 0 s = Inl Diverges"
| "evict_random_page (Suc n) s =
     (let (index, s) = random_index_generator s in
      bindR (info_ref index) (\<lambda>info.
        if info_mode (infos s info) AND PE_INFO_PINNED \<noteq> 0 then evict_random_page n s
        else Inr (fi_paddr (infos s info), s)))"

datatype eviction_strategy = EVICTION_STRATEGY_FIFO | EVICTION_STRATEGY_RANDOM nat

definition select_page_for_eviction :: "eviction_strategy \<Rightarrow> 'd vm \<Rightarrow> (u32 \<times> 'd vm) res" where
  "select_page_for_eviction strategy s =
     bindR (case strategy of EVICTION_STRATEGY_RANDOM n \<Rightarrow> evict_random_page n s
            | EVICTION_STRATEGY_FIFO \<Rightarrow> select_page_for_eviction_v1 s) (\<lambda>(evicted_page, s).
     bindR (info_ref (calculate_info_index evicted_page)) (\<lambda>info.
       let s = (if fi_owner (infos s info) \<noteq> 0 then invalidate_page (fi_vaddr (infos s info)) s else s)
       in Inr (evicted_page, s)))"

section \<open>Swapping\<close>

definition sector_offset :: "u32 \<Rightarrow> u32" where
  "sector_offset vaddr = ((vaddr - PROCESS_VADDR) div PAGE_SIZE) * (PAGE_SIZE div SECTOR_SIZE)"

definition block_count_at :: "u32 \<Rightarrow> u32 \<Rightarrow> u32" where
  "block_count_at image_size disk_offset =
     (if PAGE_SIZE div SECTOR_SIZE < image_size - disk_offset then PAGE_SIZE div SECTOR_SIZE
      else image_size - disk_offset)"

definition write_page_back_to_disk :: "u32 \<Rightarrow> pcb_ptr \<Rightarrow> u32 \<Rightarrow> 'd vm \<Rightarrow> (int \<times> 'd vm) res" where
  "write_page_back_to_disk vaddr p paddr s =
     (let disk_offset = sector_offset vaddr;
          write_block_count = block_count_at (swap_size (pcb_at s p)) disk_offset;
          disk_loc = swap_loc (pcb_at s p) + disk_offset in
      if disk_offset > swap_size (pcb_at s p)
      then Inr (- 1, nointerrupt_leave (nointerrupt_enter s))
      else if get_page_table vaddr (page_directory (pcb_at s p)) s = 0 then Inr (- 1, s)
      else
        bindR (vm_acquire WriteBufferLock s) (\<lambda>s.
        bindR (scsi_write disk_loc write_block_count (load_bytes (pmem s) paddr) (disk s))
          (\<lambda>(success, d).
            let s = s\<lparr>disk := d\<rparr>; s = invalidate_page vaddr s; s = vm_release WriteBufferLock s
            in Inr (success, s))))"

text \<open>
  \<open>disk_loader\<close>: the driver stores what it read at the start of \<open>read_buffer\<close>; more bytes
  than the buffer holds would be stored behind it.
\<close>

definition disk_loader :: "u32 \<Rightarrow> u32 \<Rightarrow> u32 \<Rightarrow> 'd vm \<Rightarrow> (int \<times> 'd vm) res" where
  "disk_loader disk_loc block_count frameref s =
     bindR (vm_acquire ReadBufferLock s) (\<lambda>s.
       let s = s\<lparr>read_buffer := replicate (unat PAGE_SIZE) 0\<rparr> in
       bindR (scsi_read disk_loc block_count (disk s)) (\<lambda>(success, bytes, d).
         if unat PAGE_SIZE < length bytes then Inl WildAccess
         else
           (let s = s\<lparr>disk := d, read_buffer := bytes @ drop (length bytes) (read_buffer s)\<rparr>;
                s = (if success \<ge> 0
                     then (let s = nointerrupt_enter s;
                               s = s\<lparr>pmem := store_bytes frameref (read_buffer s) (pmem s)\<rparr>
                           in nointerrupt_leave s)
                     else s);
                s = vm_release ReadBufferLock s
            in Inr (success, s))))"

text \<open>
  The number of dirty mappings of a frame, or \<open>-1\<close> for a frame of the kernel. The chain of
  descriptors is followed as in \<open>last_shared_info\<close>.
\<close>

fun check_dirty_loop :: "nat \<Rightarrow> info_ptr \<Rightarrow> int \<Rightarrow> 'd vm \<Rightarrow> (int \<times> 'd vm) res" where
  "check_dirty_loop 0 p dirty s = Inl Diverges"
| "check_dirty_loop (Suc n) p dirty s =
     (if p \<noteq> InfoNull \<and> fi_owner (infos s p) \<noteq> 0 then
        (let current_pdir = page_directory (pcb_at s (fi_owner (infos s p)));
             vaddr = fi_vaddr (infos s p) in
         if info_mode (infos s p) AND PE_INFO_KERNEL_DUMMY = 0 then
           check_dirty_loop n (next_shared_info (infos s p))
             (dirty + (if is_page_dirty vaddr current_pdir s then 1 else 0)) s
         else Inr (- 1, nointerrupt_leave (nointerrupt_enter s)))
      else Inr (dirty, s))"

definition page_frame_check_dirty :: "u32 \<Rightarrow> 'd vm \<Rightarrow> (int \<times> 'd vm) res" where
  "page_frame_check_dirty paddr s =
     bindR (info_ref (calculate_info_index paddr))
       (\<lambda>info_frame. check_dirty_loop (2 * PAGEABLE_PAGES + 2) info_frame 0 s)"

section \<open>Eviction and allocation\<close>

definition try_evict_page_v2 :: "eviction_strategy \<Rightarrow> 'd vm \<Rightarrow> (u32 \<times> 'd vm) res" where
  "try_evict_page_v2 strategy s =
     bindR (select_page_for_eviction strategy s) (\<lambda>(page_frame_ref, s).
       if page_frame_ref = 0 then Inr (0, nointerrupt_leave (nointerrupt_enter s))
       else
         bindR (info_ref (calculate_info_index page_frame_ref)) (\<lambda>info.
           if info_mode (infos s info) AND PE_INFO_PINNED \<noteq> 0 then Inl Abortk
           else if info_mode (infos s info) AND PE_INFO_KERNEL_DUMMY \<noteq> 0 then Inl Abortk
           else
             (let vaddr = fi_vaddr (infos s info);
                  s = (if fi_owner (infos s info) = current_running s
                       then invalidate_page vaddr s else s) in
              bindR (page_frame_check_dirty page_frame_ref s) (\<lambda>(dirty, s).
              bindR (if dirty \<noteq> 0
                     then bindR (write_page_back_to_disk vaddr (fi_owner (infos s info))
                                   (fi_paddr (infos s info)) s) (\<lambda>(_, s). Inr s)
                     else Inr s) (\<lambda>s.
              bindR (page_free (fi_paddr (infos s info)) True s) (\<lambda>s.
                Inr (page_frame_ref, s)))))))"

definition try_evict_page :: "eviction_strategy \<Rightarrow> 'd vm \<Rightarrow> (u32 \<times> 'd vm) res" where
  "try_evict_page strategy s = try_evict_page_v2 strategy s"

definition allocate_page :: "eviction_strategy \<Rightarrow> 'd vm \<Rightarrow> (u32 \<times> 'd vm) res" where
  "allocate_page strategy s =
     (let (paddr, s) = allocate_page_internal s in
      bindR (if paddr = 0
             then bindR (try_evict_page strategy (nointerrupt_enter s))
                    (\<lambda>(paddr, s). Inr (paddr, nointerrupt_leave s))
             else Inr (paddr, s)) (\<lambda>(paddr, s).
        if paddr = 0 then Inl Abortk
        else Inr (paddr, nointerrupt_leave (nointerrupt_enter s))))"

section \<open>Page faults\<close>

definition PIN_SHELL :: bool where "PIN_SHELL = False"

definition load_page_from_disk ::
    "eviction_strategy \<Rightarrow> u32 \<Rightarrow> pcb_ptr \<Rightarrow> 'd vm \<Rightarrow> (int \<times> 'd vm) res" where
  "load_page_from_disk strategy vaddr p s =
     (let fault_dir = page_directory (pcb_at s p);
          disk_offset = sector_offset vaddr;
          disk_loc = swap_loc (pcb_at s p) + disk_offset;
          block_count = block_count_at (swap_size (pcb_at s p)) disk_offset;
          s = nointerrupt_leave (nointerrupt_enter s);
          mode = PE_P OR PE_RW OR PE_US in
      if is_thread (pcb_at s p) \<noteq> 0 then Inl Abortk
      else
        (let imode = PE_INFO_USER_MODE;
             mode = mode OR PE_US;
             imode = (if pid (pcb_at s p) = first_process_pid s \<and> PIN_SHELL
                      then imode OR PE_INFO_PINNED else imode) in
         bindR (allocate_page strategy s) (\<lambda>(frameref, s).
         bindR (disk_loader disk_loc block_count frameref (invalidate_page vaddr s))
           (\<lambda>(success, s).
         let s = invalidate_page vaddr s; frameref_table = get_page_table vaddr fault_dir s in
         bindR (if frameref_table = 0 then
                  bindR (allocate_page strategy s) (\<lambda>(frameref_table, s).
                  bindR (insert_page_frame_info frameref_table vaddr p imode s) (\<lambda>(_, s).
                  bindR (inc_pinned_pages 1 s) (\<lambda>s.
                    Inr (frameref_table, dir_ins_table fault_dir vaddr frameref_table mode s))))
                else Inr (frameref_table, s)) (\<lambda>(frameref_table, s).
         if success < 0 then Inr (success, vm_release PageMapLock s)
         else
           bindR (if imode AND PE_INFO_PINNED = 0 \<and> strategy = EVICTION_STRATEGY_FIFO
                  then fifo_enqueue_info frameref s else Inr s) (\<lambda>s.
           bindR (insert_page_frame_info frameref vaddr p imode s) (\<lambda>(_, s).
             let s = table_map_page frameref_table vaddr frameref mode s;
                 s = dir_ins_table fault_dir vaddr frameref_table mode s;
                 s = invalidate_page vaddr s;
                 s = nointerrupt_leave (nointerrupt_enter s)
             in Inr (success, s))))))))"

definition page_fault_handler :: "eviction_strategy \<Rightarrow> u32 \<Rightarrow> 'd vm \<Rightarrow> 'd vm res" where
  "page_fault_handler strategy error_code s =
     (let fault_address = load_page_fault_addr s;
          s = invalidate_page fault_address s;
          fault_pcb = current_running s;
          s = upd_pcb fault_pcb (\<lambda>r. r\<lparr>page_fault_count := page_fault_count r + 1\<rparr>) s in
      if error_code AND 1 \<noteq> 0 then Inl Abortk
      else
        (let s = nointerrupt_leave (nointerrupt_enter s);
             s = nointerrupt_leave s in
         bindR (vm_acquire PageMapLock s) (\<lambda>s.
         bindR (load_page_from_disk strategy fault_address fault_pcb s) (\<lambda>(success, s).
           let s = vm_release PageMapLock s; s = nointerrupt_enter s
           in if success \<ge> 0 then Inr s else Inl Abortk))))"

section \<open>The invariant of the memory manager\<close>

definition in_fifo :: "'d vm \<Rightarrow> nat \<Rightarrow> bool" where
  "in_fifo s i \<longleftrightarrow> of_nat i \<in> set (fifo_contents (fifo_queue s))"

text \<open>
  \<open>tables_at s k A p v d t\<close>: the directory of task \<open>p\<close> is in frame \<open>d\<close> and its entry for
  \<open>v\<close> refers to the page table in frame \<open>t\<close>, which is no task's directory; both frames are
  in use, neither is a candidate for eviction, and neither is in \<open>A\<close>, the frames that
  were allocated but not entered in the tables yet.
\<close>

definition tables_at :: "'d vm \<Rightarrow> nat \<Rightarrow> nat set \<Rightarrow> pcb_ptr \<Rightarrow> u32 \<Rightarrow> nat \<Rightarrow> nat \<Rightarrow> bool" where
  "tables_at s k A p v d t \<longleftrightarrow> d < k \<and> t < k \<and> d \<notin> A \<and> t \<notin> A \<and>
     \<not> in_fifo s d \<and> \<not> in_fifo s t \<and> page_directory (pcb_at s p) = frame_addr d \<and>
     (\<forall>p'. page_directory (pcb_at s p') \<noteq> frame_addr t) \<and>
     bit (read32 (pmem s) (entry_addr (frame_addr d) (get_directory_index v))) 0 \<and>
     read32 (pmem s) (entry_addr (frame_addr d) (get_directory_index v)) AND PE_BASE_ADDR_MASK =
       frame_addr t"

definition evictable :: "'d vm \<Rightarrow> nat \<Rightarrow> nat set \<Rightarrow> nat \<Rightarrow> bool" where
  "evictable s k A i \<longleftrightarrow> i < k \<and> i \<notin> A \<and>
     fi_owner (infos s (Info i)) \<noteq> 0 \<and> fi_owner (infos s (Info i)) \<noteq> dummy_kernel_pcb \<and>
     info_mode (infos s (Info i)) = PE_INFO_USER_MODE \<and>
     next_shared_info (infos s (Info i)) = InfoNull \<and>
     page_directory (pcb_at s (fi_owner (infos s (Info i)))) \<noteq> kernel_pdir s \<and>
     (\<exists>d t. tables_at s k A (fi_owner (infos s (Info i))) (fi_vaddr (infos s (Info i))) d t)"

definition vm_inv :: "nat \<Rightarrow> nat set \<Rightarrow> 'd vm \<Rightarrow> bool" where
  "vm_inv k A s \<longleftrightarrow> free_from k s \<and> fifo_invar (fifo_queue s) \<and>
     distinct (fifo_contents (fifo_queue s)) \<and>
     (\<forall>x \<in> set (fifo_contents (fifo_queue s)). evictable s k A (unat x)) \<and>
     (\<forall>l. l \<noteq> PageMapLock \<longrightarrow> \<not> vm_locked s l) \<and> \<not> scsi_dev_lock (disk s)"

text \<open>What paging never changes.\<close>

definition same_vm :: "'d vm \<Rightarrow> 'd vm \<Rightarrow> bool" where
  "same_vm s s' \<longleftrightarrow> pcb_at s' = pcb_at s \<and> current_running s' = current_running s \<and>
     freelist s' = freelist s \<and> running_processes s' = running_processes s \<and>
     kernel_pdir s' = kernel_pdir s \<and> user_kernel_ptable s' = user_kernel_ptable s \<and>
     vm_locked s' = vm_locked s \<and> first_process s' = first_process s \<and>
     first_process_pid s' = first_process_pid s \<and> cr2 s' = cr2 s \<and> cr3 s' = cr3 s \<and>
     nointerrupt_count_val s' = nointerrupt_count_val s \<and> invlpg_slot s' = invlpg_slot s"

lemma same_vm_refl [simp]: "same_vm s s"
  by (simp add: same_vm_def)

lemma same_vm_trans: "same_vm s t \<Longrightarrow> same_vm t u \<Longrightarrow> same_vm s u"
  by (simp add: same_vm_def)

section \<open>Eviction\<close>

lemma write_page_back_frame:
  assumes "\<not> vm_locked s WriteBufferLock" "\<not> scsi_dev_lock (disk s)"
  shows "\<exists>rc s'. write_page_back_to_disk v p pa s = Inr (rc, s') \<and> same_vm s s' \<and>
    pmem s' = pmem s \<and> infos s' = infos s \<and> fifo_queue s' = fifo_queue s \<and>
    page_free_head s' = page_free_head s \<and> \<not> scsi_dev_lock (disk s') \<and> scsi (disk s') = scsi (disk s)"
proof -
  have unl: "(vm_locked s)(WriteBufferLock := False) = vm_locked s"
    using assms(1) by (simp add: fun_upd_idem)
  obtain rc d where "scsi_write (swap_loc (pcb_at s p) + sector_offset v)
      (block_count_at (swap_size (pcb_at s p)) (sector_offset v)) (load_bytes (pmem s) pa) (disk s) =
        Inr (rc, (disk s)\<lparr>driver := d\<rparr>)"
    using scsi_write_returns [OF assms(2)] by blast
  then show ?thesis
    using assms unl
    by (auto simp: write_page_back_to_disk_def Let_def vm_acquire_def vm_release_def same_vm_def)
qed

lemma check_dirty_single:
  assumes "fi_owner (infos s (Info i)) \<noteq> 0" "next_shared_info (infos s (Info i)) = InfoNull"
    "info_mode (infos s (Info i)) = PE_INFO_USER_MODE"
  shows "check_dirty_loop (Suc (Suc n)) (Info i) 0 s =
    Inr (if is_page_dirty (fi_vaddr (infos s (Info i)))
           (page_directory (pcb_at s (fi_owner (infos s (Info i))))) s then 1 else 0, s)"
  using assms by (simp add: Let_def pe_info_defs)

lemma page_frame_check_dirty_single:
  assumes "i < PAGEABLE_PAGES" "fi_owner (infos s (Info i)) \<noteq> 0"
    "next_shared_info (infos s (Info i)) = InfoNull"
    "info_mode (infos s (Info i)) = PE_INFO_USER_MODE"
  shows "page_frame_check_dirty (frame_addr i) s =
    Inr (if is_page_dirty (fi_vaddr (infos s (Info i)))
           (page_directory (pcb_at s (fi_owner (infos s (Info i))))) s then 1 else 0, s)"
proof -
  have fuel: "2 * PAGEABLE_PAGES + 2 = Suc (Suc 66)" by (simp add: PAGEABLE_PAGES_def)
  show ?thesis
    unfolding page_frame_check_dirty_def info_ref_frame_addr [OF assms(1)] bindR_Inr fuel
    by (rule check_dirty_single [OF assms(2-4)])
qed

text \<open>The mapping of a page is cleared: its entry keeps the frame address only.\<close>

lemma unmap_clears:
  assumes "tables_at s k A p v d t" "k \<le> PAGEABLE_PAGES"
  shows "unmap_physical_page (page_directory (pcb_at s p)) v s =
    Inr (invalidate_page v (s\<lparr>pmem := write32 (pmem s) (entry_addr (frame_addr t) (get_table_index v))
      (read32 (pmem s) (entry_addr (frame_addr t) (get_table_index v)) AND PE_BASE_ADDR_MASK)\<rparr>))"
  using assms
  by (simp add: unmap_physical_page_def page_set_mode_def Let_def tables_at_def and_PE_P)

lemma page_free_evict:
  assumes "evictable s k A i" "k \<le> PAGEABLE_PAGES"
    and dt: "tables_at s k A (fi_owner (infos s (Info i))) (fi_vaddr (infos s (Info i))) d t"
  shows "\<exists>s'. page_free (frame_addr i) True s = Inr s' \<and>
    pmem s' = write32 (pmem s) (entry_addr (frame_addr t) (get_table_index (fi_vaddr (infos s (Info i)))))
      (read32 (pmem s) (entry_addr (frame_addr t) (get_table_index (fi_vaddr (infos s (Info i)))))
         AND PE_BASE_ADDR_MASK) \<and>
    infos s' = (infos s)(Info i := (infos s (Info i))\<lparr>fi_owner := 0, fi_vaddr := 0, info_mode := 0\<rparr>) \<and>
    same_vm s s' \<and> fifo_queue s' = fifo_queue s \<and> page_free_head s' = page_free_head s \<and>
    disk s' = disk s"
proof -
  let ?r = "infos s (Info i)" and ?s = "nointerrupt_enter s"
  have i: "i < PAGEABLE_PAGES" "fi_owner ?r \<noteq> dummy_kernel_pcb"
    "page_directory (pcb_at s (fi_owner ?r)) \<noteq> kernel_pdir s" "next_shared_info ?r = InfoNull"
    using assms by (auto simp: evictable_def)
  have "tables_at ?s k A (fi_owner ?r) (fi_vaddr ?r) d t" using dt by (simp add: tables_at_def in_fifo_def)
  note u = unmap_clears [OF this assms(2)]
  have ri: "?r\<lparr>fi_owner := 0, fi_vaddr := 0, info_mode := 0, next_shared_info := InfoNull\<rparr> =
      ?r\<lparr>fi_owner := 0, fi_vaddr := 0, info_mode := 0\<rparr>"
    using i(4) by (cases "infos s (Info i)") simp
  obtain s' where st: "page_free_step (Info i) True (frame_addr i) s = Inr (InfoNull, s')"
    "pmem s' = write32 (pmem s) (entry_addr (frame_addr t) (get_table_index (fi_vaddr ?r)))
      (read32 (pmem s) (entry_addr (frame_addr t) (get_table_index (fi_vaddr ?r)))
         AND PE_BASE_ADDR_MASK)"
    "infos s' = (infos s)(Info i := ?r\<lparr>fi_owner := 0, fi_vaddr := 0, info_mode := 0\<rparr>)"
    "same_vm s s'" "fifo_queue s' = fifo_queue s" "page_free_head s' = page_free_head s"
    "disk s' = disk s"
    using i u by (simp add: page_free_step_def Let_def) (simp add: upd_info_def same_vm_def ri)
  have fuel: "2 * PAGEABLE_PAGES + 1 = Suc 66" by (simp add: PAGEABLE_PAGES_def)
  have "page_free (frame_addr i) True s = Inr s'"
    unfolding page_free_def info_ref_frame_addr [OF i(1)] bindR_Inr fuel page_free_loop.simps st(1)
    by simp
  then show ?thesis using st(2-) by blast
qed

lemma select_fifo:
  assumes inv: "vm_inv k A s" and q: "fifo_contents (fifo_queue s) = x # xs"
  shows "\<exists>s' q'. select_page_for_eviction EVICTION_STRATEGY_FIFO s = Inr (frame_addr (unat x), s') \<and>
    fifo_invar q' \<and> fifo_contents q' = xs \<and>
    s' = s\<lparr>fifo_queue := q', tlb := tlb s'\<rparr>"
proof -
  obtain q' where q': "fifo_dequeue (fifo_queue s) = (x, False, q')" "fifo_invar q'" "fifo_contents q' = xs"
    using fifo_dequeue_refines [of "fifo_queue s"] inv q by (auto simp: vm_inv_def)
  have e: "evictable s k A (unat x)" "unat x < PAGEABLE_PAGES"
    using inv q by (auto simp: vm_inv_def evictable_def free_from_def)
  have l: "\<not> vm_locked s PageFrameInfoLock" "(vm_locked s)(PageFrameInfoLock := False) = vm_locked s"
    using inv by (auto simp: vm_inv_def fun_upd_idem_iff)
  have pa: "fi_paddr (infos s (Info (unat x))) = frame_addr (unat x)"
    using inv e(2) by (simp add: vm_inv_def free_from_def)
  have ir: "info_ref x = Inr (Info (unat x))" using e(2) by (simp add: info_ref_def)
  have "select_page_for_eviction_v1 s = Inr (frame_addr (unat x), s\<lparr>fifo_queue := q'\<rparr>)"
    using q'(1) l ir pa by (simp add: select_page_for_eviction_v1_def vm_acquire_def vm_release_def)
  moreover have "fi_owner (infos s (Info (unat x))) \<noteq> 0" using e by (simp add: evictable_def)
  ultimately show ?thesis
    using q'(2,3)
    by (auto simp: select_page_for_eviction_def info_ref_frame_addr [OF e(2)] invalidate_page_def)
qed

text \<open>
  Eviction with the first-in first-out strategy: the oldest page is unmapped and its frame
  returned; memory changes only in the page table entry of that page.
\<close>

lemma try_evict_fifo:
  assumes inv: "vm_inv k A s" and q: "fifo_contents (fifo_queue s) = x # xs"
  shows "\<exists>d t s'. try_evict_page EVICTION_STRATEGY_FIFO s = Inr (frame_addr (unat x), s') \<and>
    tables_at s k A (fi_owner (infos s (Info (unat x)))) (fi_vaddr (infos s (Info (unat x)))) d t \<and>
    pmem s' = write32 (pmem s)
      (entry_addr (frame_addr t) (get_table_index (fi_vaddr (infos s (Info (unat x))))))
      (read32 (pmem s) (entry_addr (frame_addr t) (get_table_index (fi_vaddr (infos s (Info (unat x))))))
         AND PE_BASE_ADDR_MASK) \<and>
    infos s' = (infos s)(Info (unat x) :=
      (infos s (Info (unat x)))\<lparr>fi_owner := 0, fi_vaddr := 0, info_mode := 0\<rparr>) \<and>
    same_vm s s' \<and> fifo_invar (fifo_queue s') \<and> fifo_contents (fifo_queue s') = xs \<and>
    page_free_head s' = page_free_head s \<and> \<not> scsi_dev_lock (disk s') \<and> scsi (disk s') = scsi (disk s)"
proof -
  let ?i = "unat x" let ?r = "infos s (Info ?i)"
  obtain s1 q' where s1: "select_page_for_eviction EVICTION_STRATEGY_FIFO s = Inr (frame_addr ?i, s1)"
    "fifo_invar q'" "fifo_contents q' = xs" "s1 = s\<lparr>fifo_queue := q', tlb := tlb s1\<rparr>"
    using select_fifo [OF inv q] by blast
  have k: "k \<le> PAGEABLE_PAGES" using inv by (simp add: vm_inv_def free_from_def)
  have e: "evictable s k A ?i" "?i < PAGEABLE_PAGES" using inv q k by (auto simp: vm_inv_def evictable_def)
  have f: "frame_addr ?i \<noteq> 0" using e(2) by (intro frame_addr_nonzero) (simp add: PAGEABLE_PAGES_def)
  define s2 where "s2 = (if fi_owner ?r = current_running s then invalidate_page (fi_vaddr ?r) s1 else s1)"
  have s2: "infos s2 = infos s" "pcb_at s2 = pcb_at s" "pmem s2 = pmem s" "kernel_pdir s2 = kernel_pdir s"
    "fifo_queue s2 = q'" "disk s2 = disk s" "vm_locked s2 = vm_locked s" "same_vm s s2"
    "page_free_head s2 = page_free_head s"
    unfolding s2_def by (subst s1(4); simp add: same_vm_def)+
  have sub: "in_fifo s2 j \<Longrightarrow> in_fifo s j" for j using s1(3) s2(5) q by (simp add: in_fifo_def)
  then have e2: "evictable s2 k A ?i"
    using e(1) unfolding evictable_def tables_at_def s2 by blast
  obtain d t where dt: "tables_at s k A (fi_owner ?r) (fi_vaddr ?r) d t"
    using e(1) by (auto simp: evictable_def)
  have cd: "page_frame_check_dirty (frame_addr ?i) s2 =
    Inr (if is_page_dirty (fi_vaddr ?r) (page_directory (pcb_at s (fi_owner ?r))) s2 then 1 else 0, s2)"
    using page_frame_check_dirty_single [of ?i s2] e2 e(2) s2 by (simp add: evictable_def)
  have "\<exists>s3. (if is_page_dirty (fi_vaddr ?r) (page_directory (pcb_at s (fi_owner ?r))) s2
      then bindR (write_page_back_to_disk (fi_vaddr ?r) (fi_owner ?r) (frame_addr ?i) s2) (\<lambda>(_, s). Inr s)
      else Inr s2) = Inr s3 \<and> same_vm s2 s3 \<and> pmem s3 = pmem s2 \<and> infos s3 = infos s2 \<and>
      fifo_queue s3 = fifo_queue s2 \<and> page_free_head s3 = page_free_head s2 \<and>
      \<not> scsi_dev_lock (disk s3) \<and> scsi (disk s3) = scsi (disk s)"
    using write_page_back_frame [of s2 "fi_vaddr ?r" "fi_owner ?r" "frame_addr ?i"] inv s2
    by (auto simp: vm_inv_def)
  then obtain s3 where s3: "(if is_page_dirty (fi_vaddr ?r) (page_directory (pcb_at s (fi_owner ?r))) s2
      then bindR (write_page_back_to_disk (fi_vaddr ?r) (fi_owner ?r) (frame_addr ?i) s2) (\<lambda>(_, s). Inr s)
      else Inr s2) = Inr s3" "same_vm s2 s3" "pmem s3 = pmem s2" "infos s3 = infos s2"
      "fifo_queue s3 = fifo_queue s2" "page_free_head s3 = page_free_head s2"
      "\<not> scsi_dev_lock (disk s3)" "scsi (disk s3) = scsi (disk s)"
    by blast
  have e3: "evictable s3 k A ?i"
    using e2 s3 unfolding evictable_def tables_at_def in_fifo_def same_vm_def by simp
  have dt3: "tables_at s3 k A (fi_owner (infos s3 (Info ?i))) (fi_vaddr (infos s3 (Info ?i))) d t"
    using dt sub s2 s3 unfolding tables_at_def in_fifo_def same_vm_def by auto
  obtain s4 where s4: "page_free (frame_addr ?i) True s3 = Inr s4"
    "pmem s4 = write32 (pmem s) (entry_addr (frame_addr t) (get_table_index (fi_vaddr ?r)))
      (read32 (pmem s) (entry_addr (frame_addr t) (get_table_index (fi_vaddr ?r))) AND PE_BASE_ADDR_MASK)"
    "infos s4 = (infos s)(Info ?i := ?r\<lparr>fi_owner := 0, fi_vaddr := 0, info_mode := 0\<rparr>)"
    "same_vm s3 s4" "fifo_queue s4 = fifo_queue s3" "page_free_head s4 = page_free_head s3"
    "disk s4 = disk s3"
    using page_free_evict [OF e3 k dt3] s2 s3(3,4) by auto
  have "try_evict_page EVICTION_STRATEGY_FIFO s = Inr (frame_addr ?i, s4)"
  proof -
    have r1: "infos s1 = infos s" "current_running s1 = current_running s" by (subst s1(4); simp)+
    have pa: "fi_paddr ?r = frame_addr ?i" using inv e(2) by (simp add: vm_inv_def free_from_def)
    have m: "info_mode ?r = PE_INFO_USER_MODE" using e(1) by (simp add: evictable_def)
    show ?thesis
      unfolding try_evict_page_def try_evict_page_v2_def s1(1) bindR_Inr
      using f cd s3(1) s4(1) m
      by (simp add: info_ref_frame_addr [OF e(2)] r1 s2_def [symmetric] s2 pa s3(4) pe_info_defs
          Let_def split: if_splits)
  qed
  then show ?thesis
    using dt s4 s3 s2 s1(2,3) by (intro exI [of _ d] exI [of _ t] exI [of _ s4]) (auto simp: same_vm_def)
qed

end
