(* ===== verification/Faults.thy ===== *)
theory Faults
  imports Paging
begin

text \<open>
  Correctness of demand paging (\<open>kernel/memory.c\<close>): allocation with eviction keeps the
  invariant of the memory manager, and a page fault on a page of a process image ends with the
  page mapped for its process and holding what the image on disk holds.
\<close>

unbundle bit_operations_syntax

section \<open>Page directories stay as they are\<close>

lemma read32_entry_cong:
  assumes "\<And>a. in_page b a \<Longrightarrow> m' a = m a" "page_aligned b" "unat i < 1024"
  shows "read32 m' (entry_addr b i) = read32 m (entry_addr b i)"
proof -
  have u: "unat (entry_addr b i) = unat b + 4 * unat i" by (rule unat_entry [OF assms(2,3)])
  note v = aligned4_unat_add [OF aligned4_entry [OF assms(2,3)]]
  show ?thesis
    by (rule read32_cong; rule assms(1); insert u v assms(3); simp add: in_page_def)
qed

lemma tables_at_keep:
  assumes tab: "tables_at s k A p v d t" and k: "k \<le> k'" "k \<le> PAGEABLE_PAGES"
    and dt: "d \<notin> A'" "t \<notin> A'" "\<not> in_fifo s' d" "\<not> in_fifo s' t"
    and pd: "\<And>p'. page_directory (pcb_at s' p') = page_directory (pcb_at s p')"
    and mem: "\<And>a. in_page (frame_addr d) a \<Longrightarrow> pmem s' a = pmem s a"
  shows "tables_at s' k' A' p v d t"
proof -
  have "d < 1000" using tab k by (simp add: tables_at_def PAGEABLE_PAGES_def)
  then have "read32 (pmem s') (entry_addr (frame_addr d) (get_directory_index v)) =
      read32 (pmem s) (entry_addr (frame_addr d) (get_directory_index v))"
    by (intro read32_entry_cong mem frame_addr_aligned index_bounds)
  then show ?thesis using tab k dt pd by (simp add: tables_at_def)
qed

lemma evictable_keep:
  assumes e: "evictable s k A i" and k: "k \<le> k'" "k \<le> PAGEABLE_PAGES"
    and same: "infos s' (Info i) = infos s (Info i)" "pcb_at s' = pcb_at s" "kernel_pdir s' = kernel_pdir s"
    and A': "i \<notin> A'"
    and tab: "\<And>p v d t. tables_at s k A p v d t \<Longrightarrow> tables_at s' k' A' p v d t"
  shows "evictable s' k' A' i"
  using e k same A' tab unfolding evictable_def by fastforce

section \<open>Allocation\<close>

text \<open>What every allocation guarantees, whether the frame was free or is taken from a page.\<close>

definition allocated :: "nat \<Rightarrow> nat set \<Rightarrow> 'd vm \<Rightarrow> nat \<Rightarrow> nat \<Rightarrow> 'd vm \<Rightarrow> bool" where
  "allocated k A s j k' s' \<longleftrightarrow> vm_inv k' (insert j A) s' \<and> k \<le> k' \<and> j < k' \<and> j \<notin> A \<and> same_vm s s' \<and>
     fi_owner (infos s' (Info j)) = 0 \<and> info_mode (infos s' (Info j)) = 0 \<and>
     scsi (disk s') = scsi (disk s) \<and> (\<forall>i. in_fifo s' i \<longrightarrow> in_fifo s i) \<and> \<not> in_fifo s' j \<and>
     (\<forall>p v d t. tables_at s k A p v d t \<longrightarrow> tables_at s' k' (insert j A) p v d t)"

lemma allocate_free:
  assumes inv: "vm_inv k A s" and k: "k < PAGEABLE_PAGES" and A: "A \<subseteq> {..<k}"
  shows "\<exists>s'. allocate_page strategy s = Inr (frame_addr k, s') \<and> allocated k A s k (Suc k) s' \<and>
    disk s' = disk s \<and> fifo_queue s' = fifo_queue s \<and>
    infos s' = (infos s)(Info k := (infos s (Info k))\<lparr>next_free_page := InfoNull\<rparr>) \<and>
    (\<forall>a. pmem s' a = (if unat (frame_addr k) \<le> unat a \<and> unat a < unat (frame_addr k) + 16384
                      then 0 else pmem s a))"
proof -
  have ff: "free_from k s" using inv by (simp add: vm_inv_def)
  obtain t where t: "allocate_page_internal s = (frame_addr k, t)" "free_from (Suc k) t"
    "\<forall>a. pmem t a = (if unat (frame_addr k) \<le> unat a \<and> unat a < unat (frame_addr k) + 16384
                      then 0 else pmem s a)"
    "infos t = (infos s)(Info k := (infos s (Info k))\<lparr>next_free_page := InfoNull\<rparr>)"
    "t = s\<lparr>page_free_head := page_free_head t, infos := infos t, pmem := pmem t\<rparr>"
    using allocate_page_internal_free [OF ff k] by blast
  let ?u = "nointerrupt_leave (nointerrupt_enter t)"
  have al: "allocate_page strategy s = Inr (frame_addr k, ?u)"
    using t(1) frame_addr_nonzero [of k] k by (simp add: allocate_page_def PAGEABLE_PAGES_def)
  have f: "pcb_at ?u = pcb_at s" "fifo_queue ?u = fifo_queue s" "disk ?u = disk s"
    "kernel_pdir ?u = kernel_pdir s" "vm_locked ?u = vm_locked s" "same_vm s ?u"
    by (subst t(5); simp add: same_vm_def)+
  have mem: "pmem ?u a = pmem s a" if "in_page (frame_addr d) a" "d < k" for a d
    using that t(3) k by (simp add: in_page_def unat_frame_addr PAGEABLE_PAGES_def)
  have fk: "\<not> in_fifo s k"
  proof
    assume "in_fifo s k"
    then have "evictable s k A (unat (of_nat k :: u32))" using inv by (auto simp: in_fifo_def vm_inv_def)
    then show False using k by (simp add: evictable_def PAGEABLE_PAGES_def unat_of_nat)
  qed
  have fifo: "in_fifo ?u i = in_fifo s i" for i using f(2) by (simp add: in_fifo_def)
  have tab: "tables_at ?u (Suc k) (insert k A) p v d t'" if tb: "tables_at s k A p v d t'" for p v d t'
    by (rule tables_at_keep [OF tb]) (use tb k f fifo mem in \<open>auto simp: tables_at_def\<close>)
  have ev: "evictable ?u (Suc k) (insert k A) (unat x)" if x: "x \<in> set (fifo_contents (fifo_queue s))" for x
  proof -
    have e: "evictable s k A (unat x)" using inv x by (simp add: vm_inv_def)
    then have "unat x < k" "unat x \<notin> A" by (simp_all add: evictable_def)
    then show ?thesis
      by (intro evictable_keep [OF e] tab) (use k f t(4) in auto)
  qed
  have "free_from (Suc k) ?u" using t(2) by (simp add: free_from_def)
  then have "vm_inv (Suc k) (insert k A) ?u"
    using inv ev f by (simp add: vm_inv_def)
  then have "allocated k A s k (Suc k) ?u"
    unfolding allocated_def using A k fk fifo f tab t(4) ff by (auto simp: free_from_def)
  then show ?thesis using al f t(3,4) by auto
qed

lemma inv_nointerrupt [simp]:
  "in_fifo (nointerrupt_enter s) i = in_fifo s i" "in_fifo (nointerrupt_leave s) i = in_fifo s i"
  "tables_at (nointerrupt_enter s) k A p v d t = tables_at s k A p v d t"
  "tables_at (nointerrupt_leave s) k A p v d t = tables_at s k A p v d t"
  "evictable (nointerrupt_enter s) k A i = evictable s k A i"
  "evictable (nointerrupt_leave s) k A i = evictable s k A i"
  "vm_inv k A (nointerrupt_enter s) = vm_inv k A s" "vm_inv k A (nointerrupt_leave s) = vm_inv k A s"
  by (simp_all add: in_fifo_def tables_at_def evictable_def vm_inv_def free_from_def)

lemma unat_of_nat_index: "unat (of_nat (unat x) :: u32) = unat x" for x :: u32
  by simp

lemma allocate_evict:
  assumes inv: "vm_inv PAGEABLE_PAGES A s" and q: "fifo_contents (fifo_queue s) = x # xs"
  shows "\<exists>d t s'. allocate_page EVICTION_STRATEGY_FIFO s = Inr (frame_addr (unat x), s') \<and>
    allocated PAGEABLE_PAGES A s (unat x) PAGEABLE_PAGES s' \<and>
    fifo_contents (fifo_queue s') = xs \<and>
    tables_at s PAGEABLE_PAGES A (fi_owner (infos s (Info (unat x)))) (fi_vaddr (infos s (Info (unat x)))) d t \<and>
    pmem s' = write32 (pmem s)
      (entry_addr (frame_addr t) (get_table_index (fi_vaddr (infos s (Info (unat x))))))
      (read32 (pmem s) (entry_addr (frame_addr t) (get_table_index (fi_vaddr (infos s (Info (unat x))))))
         AND PE_BASE_ADDR_MASK)"
proof -
  let ?i = "unat x" and ?n = PAGEABLE_PAGES let ?r = "infos s (Info ?i)"
  have ff: "free_from ?n s" using inv by (simp add: vm_inv_def)
  have inv': "vm_inv ?n A (nointerrupt_enter s)" using inv by simp
  have e: "evictable s ?n A ?i" using inv q by (simp add: vm_inv_def)
  obtain d t u where u: "try_evict_page EVICTION_STRATEGY_FIFO (nointerrupt_enter s) = Inr (frame_addr ?i, u)"
    "tables_at s ?n A (fi_owner ?r) (fi_vaddr ?r) d t"
    "pmem u = write32 (pmem s) (entry_addr (frame_addr t) (get_table_index (fi_vaddr ?r)))
      (read32 (pmem s) (entry_addr (frame_addr t) (get_table_index (fi_vaddr ?r))) AND PE_BASE_ADDR_MASK)"
    "infos u = (infos s)(Info ?i := ?r\<lparr>fi_owner := 0, fi_vaddr := 0, info_mode := 0\<rparr>)"
    "same_vm (nointerrupt_enter s) u" "fifo_invar (fifo_queue u)" "fifo_contents (fifo_queue u) = xs"
    "page_free_head u = page_free_head s" "\<not> scsi_dev_lock (disk u)" "scsi (disk u) = scsi (disk s)"
    using try_evict_fifo [OF inv'] q by auto
  let ?v = "nointerrupt_leave (nointerrupt_enter (nointerrupt_leave u))"
  have i: "?i < ?n" "?i \<notin> A" using e by (simp_all add: evictable_def)
  then have f0: "frame_addr ?i \<noteq> 0" by (intro frame_addr_nonzero) (simp add: PAGEABLE_PAGES_def)
  have al: "allocate_page EVICTION_STRATEGY_FIFO s = Inr (frame_addr ?i, ?v)"
    using allocate_page_internal_empty [OF ff] u(1) f0 by (simp add: allocate_page_def)
  have sv: "same_vm s ?v" using u(5) by (simp add: same_vm_def)
  have pc: "pcb_at ?v = pcb_at s" "kernel_pdir ?v = kernel_pdir s" using sv by (simp_all add: same_vm_def)
  have dist: "distinct (x # xs)" using inv q by (simp add: vm_inv_def)
  have fifo: "in_fifo ?v j \<longleftrightarrow> in_fifo s j \<and> of_nat j \<noteq> x" for j
    using u(7) q dist by (auto simp: in_fifo_def)
  have td: "t < ?n" "\<forall>p'. page_directory (pcb_at s p') \<noteq> frame_addr t" using u(2) by (auto simp: tables_at_def)
  have mem: "pmem ?v a = pmem s a" if "in_page (frame_addr d') a" "d' \<noteq> t" "d' < ?n" for a d'
    using that td(1) in_page_frame_disjoint [of d' a t] u(3)
    by (auto simp: PAGEABLE_PAGES_def frame_addr_aligned index_bounds intro!: write32_entry_outside)
  have tab: "tables_at ?v ?n (insert ?i A) p v d' t'" if tb: "tables_at s ?n A p v d' t'" for p v d' t'
  proof (rule tables_at_keep [OF tb])
    have "in_fifo s ?i" using q by (simp add: in_fifo_def)
    then show "d' \<notin> insert ?i A" "t' \<notin> insert ?i A" "\<not> in_fifo ?v d'" "\<not> in_fifo ?v t'"
      using tb fifo by (auto simp: tables_at_def)
    have "d' \<noteq> t" "d' < ?n" using tb td(2) by (auto simp: tables_at_def)
    then show "pmem ?v a = pmem s a" if "in_page (frame_addr d') a" for a using mem that by blast
  qed (use pc in simp_all)
  have ev: "evictable ?v ?n (insert ?i A) (unat y)" if y: "y \<in> set xs" for y
  proof -
    have e: "evictable s ?n A (unat y)" using inv q y by (simp add: vm_inv_def)
    moreover have "unat y \<noteq> ?i" using y dist word_unat_eq_iff [of y x] by auto
    ultimately show ?thesis
      by (intro evictable_keep [OF e] tab) (use u(4) pc in \<open>auto simp: evictable_def\<close>)
  qed
  have "free_from ?n ?v" using ff u(4,8) by (auto simp: free_from_def)
  then have "vm_inv ?n (insert ?i A) ?v"
    using inv ev u(6,7,9) dist sv by (simp add: vm_inv_def same_vm_def)
  then have "allocated ?n A s ?i ?n ?v"
    unfolding allocated_def using i sv u(4,10) fifo tab by simp
  then show ?thesis using al u(2,3,7) by auto
qed

lemma allocate_page_spec:
  assumes inv: "vm_inv k A s" and avail: "k < PAGEABLE_PAGES \<or> fifo_contents (fifo_queue s) \<noteq> []"
    and A: "A \<subseteq> {..<k}"
  shows "\<exists>j k' s'. allocate_page EVICTION_STRATEGY_FIFO s = Inr (frame_addr j, s') \<and>
    allocated k A s j k' s'"
proof (cases "k < PAGEABLE_PAGES")
  case True
  then show ?thesis using allocate_free [OF inv True A] by blast
next
  case False
  then have k: "k = PAGEABLE_PAGES" using inv by (simp add: vm_inv_def free_from_def)
  then obtain x xs where "fifo_contents (fifo_queue s) = x # xs"
    using avail False by (cases "fifo_contents (fifo_queue s)") auto
  then show ?thesis using allocate_evict [of A s x xs] inv k by blast
qed

section \<open>Loading a page\<close>

lemma unat_sub:
  "unat (a - f) = (if unat f \<le> unat a then unat a - unat f else unat a + 4294967296 - unat f)"
  for a f :: u32
  by (simp add: unat_sub_if_size word_size)

lemma store_bytes_page:
  assumes "page_aligned f" "length bs = 4096"
  shows "store_bytes f bs m a = (if in_page f a then bs ! (unat a - unat f) else m a)"
  using page_aligned_bound [OF assms(1)] assms(2)
  by (auto simp: store_bytes_def in_page_def unat_sub)

lemma load_store_bytes:
  assumes "page_aligned f" "length bs = 4096"
  shows "load_bytes (store_bytes f bs m) f 4096 = bs"
proof (rule nth_equalityI)
  show "length (load_bytes (store_bytes f bs m) f 4096) = length bs" by (simp add: load_bytes_def assms)
next
  fix i
  assume "i < length (load_bytes (store_bytes f bs m) f 4096)"
  then have i: "i < 4096" by (simp add: load_bytes_def)
  have "unat (f + of_nat i) = unat f + i"
    using page_aligned_bound [OF assms(1)] i by (intro unat_add_small) simp
  then show "load_bytes (store_bytes f bs m) f 4096 ! i = bs ! i"
    using i assms by (simp add: load_bytes_def store_bytes_page in_page_def)
qed

lemma load_bytes_cong:
  assumes "page_aligned f" "\<And>a. in_page f a \<Longrightarrow> m' a = m a"
  shows "load_bytes m' f 4096 = load_bytes m f 4096"
proof -
  have "in_page f (f + of_nat i)" if "i < 4096" for i
    using page_aligned_bound [OF assms(1)] that unat_add_small [of f i] by (simp add: in_page_def)
  then show ?thesis using assms(2) by (simp add: load_bytes_def)
qed

text \<open>The page of an image that starts at a sector: \<open>n\<close> sectors, then zeros.\<close>

definition image_page :: "('d \<Rightarrow> nat \<Rightarrow> u8 list) \<Rightarrow> 'd \<Rightarrow> nat \<Rightarrow> nat \<Rightarrow> u8 list" where
  "image_page sec d start n =
     concat (map (\<lambda>i. sec d (start + i)) [0..<n]) @ replicate (4096 - SECTOR_BYTES * n) 0"

lemma length_sectors:
  "(\<And>i. length (f i) = SECTOR_BYTES) \<Longrightarrow> length (concat (map f [0..<n])) = SECTOR_BYTES * n"
  by (induction n) auto

lemma length_image_page:
  assumes "disk_ready ds sec cap" "n \<le> 8"
  shows "length (image_page sec d start n) = 4096"
proof -
  have "length (sec d i) = SECTOR_BYTES" for i
    using assms(1) disk_like_block(2) by (auto simp: disk_ready_def)
  then show ?thesis using assms(2) by (simp add: image_page_def length_sectors SECTOR_BYTES_def)
qed

lemma disk_loader_spec:
  assumes "\<not> vm_locked s ReadBufferLock" "disk_ready (disk s) sec cap" "unat loc + n \<le> cap" "n \<le> 8"
  shows "\<exists>s'. disk_loader loc (of_nat n) f s = Inr (0, s') \<and> same_vm s s' \<and> infos s' = infos s \<and>
    fifo_queue s' = fifo_queue s \<and> page_free_head s' = page_free_head s \<and> disk s' = disk s \<and>
    pmem s' = store_bytes f (image_page sec (driver (disk s)) (unat loc) n) (pmem s)"
proof -
  let ?b = "concat (map (\<lambda>i. sec (driver (disk s)) (unat loc + i)) [0..<n])"
  have r: "scsi_read loc (of_nat n) (disk s) = Inr (0, ?b, disk s)"
    using assms(2,3,4) by (intro scsi_read_sectors) auto
  have "length (sec d i) = SECTOR_BYTES" for d i
    using assms(2) disk_like_block(2) by (auto simp: disk_ready_def)
  then have l: "length ?b = SECTOR_BYTES * n" by (rule length_sectors)
  have b: "\<not> 4096 < length ?b" "?b @ drop (length ?b) (replicate 4096 0) =
      image_page sec (driver (disk s)) (unat loc) n"
    using assms(4) l by (simp_all add: SECTOR_BYTES_def image_page_def drop_replicate)
  have unl: "(vm_locked s)(ReadBufferLock := False) = vm_locked s"
    using assms(1) by (simp add: fun_upd_idem)
  have ps: "unat PAGE_SIZE = 4096" by (simp add: addr_defs)
  show ?thesis
    unfolding disk_loader_def ps using assms(1) r b unl
    by (simp add: vm_acquire_def Let_def del: drop_replicate length_concat)
      (simp add: vm_release_def same_vm_def)
qed

text \<open>
  Writing a page back: afterwards the image on disk holds the page, up to the end of the image.
\<close>

lemma concat_chunks:
  "concat (map (\<lambda>i. take B (drop (B * i) data)) [0..<n]) = take (B * n) data"
proof (induction n)
  case (Suc n)
  have "take (B * n + B) data = take (B * n) data @ take B (drop (B * n) data)"
    by (simp add: take_add)
  with Suc show ?case by (simp add: add.commute)
qed simp

lemma write_page_back_stores:
  assumes free: "\<not> vm_locked s WriteBufferLock" and dr: "disk_ready (disk s) sec cap"
    and off: "sector_offset v \<le> swap_size (pcb_at s p)"
    and tab: "get_page_table v (page_directory (pcb_at s p)) s \<noteq> 0"
    and n: "n = unat (block_count_at (swap_size (pcb_at s p)) (sector_offset v))" "n \<le> 8"
    and loc: "loc = unat (swap_loc (pcb_at s p) + sector_offset v)" and cap: "loc + n \<le> cap"
  shows "\<exists>s'. write_page_back_to_disk v p pa s = Inr (0, s') \<and> pmem s' = pmem s \<and>
    disk_ready (disk s') sec cap \<and> vm_locked s' = vm_locked s \<and>
    image_page sec (driver (disk s')) loc n =
      load_bytes (pmem s) pa (SECTOR_BYTES * n) @ replicate (4096 - SECTOR_BYTES * n) 0"
proof -
  let ?bc = "block_count_at (swap_size (pcb_at s p)) (sector_offset v)"
    and ?lba = "swap_loc (pcb_at s p) + sector_offset v"
  have bc: "?bc = of_nat n" by (simp add: n(1))
  have len: "length (load_bytes (pmem s) pa (SECTOR_BYTES * n)) = SECTOR_BYTES * n"
    by (simp add: load_bytes_def)
  have cap': "unat ?lba + n \<le> cap" "n < 2 ^ 16" using cap loc n(2) by simp_all
  from scsi_write_sectors [OF dr cap', of "load_bytes (pmem s) pa"] len obtain d' where
    d': "scsi_write ?lba (of_nat n) (load_bytes (pmem s) pa) (disk s) = Inr (0, (disk s)\<lparr>driver := d'\<rparr>)"
    "\<And>i. sec d' i = (if unat ?lba \<le> i \<and> i < unat ?lba + n
        then take SECTOR_BYTES (drop (SECTOR_BYTES * (i - unat ?lba)) (load_bytes (pmem s) pa (SECTOR_BYTES * n)))
        else sec (driver (disk s)) i)" by blast
  have "map (\<lambda>i. sec d' (loc + i)) [0..<n] =
      map (\<lambda>i. take SECTOR_BYTES (drop (SECTOR_BYTES * i) (load_bytes (pmem s) pa (SECTOR_BYTES * n)))) [0..<n]"
    by (simp add: d'(2) loc)
  note chunks = this
  have img: "image_page sec d' loc n =
      load_bytes (pmem s) pa (SECTOR_BYTES * n) @ replicate (4096 - SECTOR_BYTES * n) 0"
    unfolding image_page_def chunks concat_chunks using len by simp
  have unl: "(vm_locked s)(WriteBufferLock := False) = vm_locked s"
    using free by (simp add: fun_upd_idem)
  let ?s = "invalidate_page v (s\<lparr>vm_locked := (vm_locked s)(WriteBufferLock := True),
      disk := (disk s)\<lparr>driver := d'\<rparr>\<rparr>)"
  have "write_page_back_to_disk v p pa s = Inr (0, vm_release WriteBufferLock ?s)"
    using free off tab d'(1) by (simp add: write_page_back_to_disk_def Let_def vm_acquire_def bc)
  moreover have "disk_ready ((disk s)\<lparr>driver := d'\<rparr>) sec cap"
    using dr by (simp add: disk_ready_def)
  ultimately show ?thesis using img unl by (simp add: vm_release_def)
qed

lemma index_page_mask:
  "get_directory_index (v AND 0xfffff000) = get_directory_index v"
  "get_table_index (v AND 0xfffff000) = get_table_index v"
proof -
  have m: "(0xfffff000 :: u32) = NOT (mask 12)" by (simp add: mask_eq_exp_minus_1)
  show "get_directory_index (v AND 0xfffff000) = get_directory_index v"
    unfolding get_directory_index_eq m
    by (rule bit_word_eqI) (auto simp: bit_simps dest: bit_imp_le_length)
  show "get_table_index (v AND 0xfffff000) = get_table_index v"
    unfolding get_table_index_eq m by (rule bit_word_eqI) (auto simp: bit_simps)
qed

text \<open>
  Memory after a page was loaded into frame \<open>j\<close> and mapped through the table in frame
  \<open>t\<close> of the directory in frame \<open>d\<close>.
\<close>

definition mapped_mem :: "nat \<Rightarrow> nat \<Rightarrow> nat \<Rightarrow> u32 \<Rightarrow> u8 list \<Rightarrow> pmem_t \<Rightarrow> pmem_t" where
  "mapped_mem d t j v bs m =
     write32 (write32 (store_bytes (frame_addr j) bs m)
         (entry_addr (frame_addr t) (get_table_index v)) (pte_of (frame_addr j) 7))
       (entry_addr (frame_addr d) (get_directory_index v)) (pde_of (frame_addr t) 7)"

lemma mapped_mem_entry:
  assumes "d < 1000" "t < 1000" "j < 1000" "e < 1000" "e \<noteq> j" "length bs = 4096" "unat i < 1024"
  shows "read32 (mapped_mem d t j v bs m) (entry_addr (frame_addr e) i) =
    (if e = d \<and> i = get_directory_index v then pde_of (frame_addr t) 7
     else if e = t \<and> i = get_table_index v then pte_of (frame_addr j) 7
     else read32 m (entry_addr (frame_addr e) i))"
proof -
  have "read32 (store_bytes (frame_addr j) bs m) (entry_addr (frame_addr e) i) =
      read32 m (entry_addr (frame_addr e) i)"
    using assms in_page_frame_disjoint [of e _ j]
    by (intro read32_entry_cong) (auto simp: store_bytes_page frame_addr_aligned)
  then show ?thesis
    using assms by (auto simp: mapped_mem_def read32_write32_entry frame_addr_aligned index_bounds
        frame_addr_inj)
qed

lemma mapped_mem_data:
  assumes "d < 1000" "t < 1000" "j < 1000" "j \<noteq> d" "j \<noteq> t" "length bs = 4096"
  shows "load_bytes (mapped_mem d t j v bs m) (frame_addr j) 4096 = bs"
proof -
  have "mapped_mem d t j v bs m a = store_bytes (frame_addr j) bs m a" if "in_page (frame_addr j) a" for a
  proof -
    have "\<not> in_page (frame_addr d) a" "\<not> in_page (frame_addr t) a"
      using in_page_frame_disjoint that assms(1-5) by blast+
    then show ?thesis
      using assms(1,2)
      by (simp add: mapped_mem_def write32_entry_outside frame_addr_aligned index_bounds)
  qed
  then have "load_bytes (mapped_mem d t j v bs m) (frame_addr j) 4096 =
      load_bytes (store_bytes (frame_addr j) bs m) (frame_addr j) 4096"
    using assms(3) by (intro load_bytes_cong frame_addr_aligned)
  then show ?thesis using assms by (simp add: load_store_bytes frame_addr_aligned)
qed

lemma pde_pte_7: "bit (pde_of p 7) 0" "bit (pde_of p 7) 2" "bit (pte_of p 7) 0" "bit (pte_of p 7) 2"
  by (simp_all add: bit_pde_of bit_pte_of)

lemma mapped_mem_translate:
  assumes "d < 1000" "t < 1000" "j < 1000" "j \<noteq> d" "j \<noteq> t" "d \<noteq> t" "length bs = 4096"
  shows "mmu_translate (mapped_mem d t j v bs m) (frame_addr d) True v =
    Some (frame_addr j OR (v AND 0xfff))"
proof -
  have "mmu_walk (mapped_mem d t j v bs m) (frame_addr d) v =
      Some (pde_of (frame_addr t) 7, pte_of (frame_addr j) 7)"
    using assms
    by (simp add: mmu_walk_eq frame_addr_aligned mapped_mem_entry index_bounds Let_def pde_of_base
        page_aligned_and_mask pde_pte_7)
  then show ?thesis
    using assms(3) by (simp add: mmu_translate_def pde_pte_7 pte_of_base page_aligned_and_mask
        frame_addr_aligned)
qed

lemma tables_at_bounds:
  assumes "tables_at s k A p v d t" "k \<le> PAGEABLE_PAGES"
  shows "d < 1000" "t < 1000" "d \<noteq> t" "d \<notin> A" "t \<notin> A"
  using assms unfolding tables_at_def PAGEABLE_PAGES_def by auto

lemma tables_at_mapped:
  assumes tab: "tables_at s k (insert j A) p v d t" and tb: "tables_at s k (insert j A) p2 v2 d2 t2"
    and k: "k \<le> PAGEABLE_PAGES" "j < k" and bs: "length bs = 4096"
    and s': "pmem s' = mapped_mem d t j v bs (pmem s)"
      "\<And>p'. page_directory (pcb_at s' p') = page_directory (pcb_at s p')"
      "\<And>i. in_fifo s' i \<Longrightarrow> i < PAGEABLE_PAGES \<Longrightarrow> in_fifo s i \<or> i = j"
  shows "tables_at s' k A p2 v2 d2 t2"
proof -
  have b: "d < 1000" "t < 1000" "j < 1000" "d2 < 1000" "t2 < 1000" "d2 \<noteq> j" "d2 \<noteq> t" "t2 \<noteq> j"
    using tab tb k by (auto simp: tables_at_def PAGEABLE_PAGES_def)
  have "read32 (pmem s') (entry_addr (frame_addr d2) (get_directory_index v2)) =
      (if d2 = d \<and> get_directory_index v2 = get_directory_index v then pde_of (frame_addr t) 7
       else read32 (pmem s) (entry_addr (frame_addr d2) (get_directory_index v2)))"
    using b bs by (simp add: s'(1) mapped_mem_entry index_bounds)
  moreover have "t2 = t" if "d2 = d" "get_directory_index v2 = get_directory_index v"
    using tab tb that b by (simp add: tables_at_def frame_addr_inj)
  moreover have "pde_of (frame_addr t) 7 AND PE_BASE_ADDR_MASK = frame_addr t"
    using b by (simp add: pde_of_base page_aligned_and_mask frame_addr_aligned)
  moreover have "\<not> in_fifo s' d2" "\<not> in_fifo s' t2"
    using tb k b s'(3) [of d2] s'(3) [of t2] by (auto simp: tables_at_def)
  ultimately show ?thesis
    using tb s'(2) by (auto simp: tables_at_def pde_pte_7)
qed

lemma fifo_room:
  assumes inv: "vm_inv k A s" and ij: "\<not> in_fifo s i" "\<not> in_fifo s j" "i \<noteq> j"
    "i < PAGEABLE_PAGES" "j < PAGEABLE_PAGES"
  shows "unat (items (fifo_queue s)) < PAGEABLE_PAGES - 1"
proof -
  let ?q = "fifo_contents (fifo_queue s)"
  have lt: "unat x < PAGEABLE_PAGES" if "x \<in> set ?q" for x
    using inv that by (auto simp: vm_inv_def evictable_def free_from_def)
  have "unat ` set ?q \<subseteq> {..<PAGEABLE_PAGES} - {i, j}"
  proof
    fix y assume "y \<in> unat ` set ?q"
    then obtain x where x: "x \<in> set ?q" "y = unat x" by blast
    then have "x \<noteq> of_nat i" "x \<noteq> of_nat j" using ij(1,2) by (auto simp: in_fifo_def)
    then have "y \<noteq> i" "y \<noteq> j" using x(2) by auto
    then show "y \<in> {..<PAGEABLE_PAGES} - {i, j}" using lt x by simp
  qed
  then have "card (unat ` set ?q) \<le> card ({..<PAGEABLE_PAGES} - {i, j})" by (rule card_mono [rotated]) simp
  moreover have "card ({..<PAGEABLE_PAGES} - {i, j}) = PAGEABLE_PAGES - 2"
    using ij by (subst card_Diff_subset) auto
  moreover have "card (unat ` set ?q) = length ?q"
    using inv by (simp add: card_image inj_on_def word_unat_eq_iff distinct_card vm_inv_def)
  ultimately show ?thesis by (simp add: PAGEABLE_PAGES_def)
qed

text \<open>
  The steps of \<open>load_page_from_disk\<close> after a frame was allocated, for a page whose page
  table exists.
\<close>

lemma enqueue_and_insert:
  assumes fi': "fifo_invar (fifo_queue s)" and j: "j < PAGEABLE_PAGES"
    and fi: "fi_owner (infos s (Info j)) = 0" "info_mode (infos s (Info j)) = 0"
    and room: "unat (items (fifo_queue s)) < PAGEABLE_PAGES - 1"
  shows "\<exists>q. fifo_enqueue_info (frame_addr j) s = Inr (s\<lparr>fifo_queue := q\<rparr>) \<and> fifo_invar q \<and>
    fifo_contents q = fifo_contents (fifo_queue s) @ [of_nat j] \<and>
    insert_page_frame_info (frame_addr j) v p m (s\<lparr>fifo_queue := q\<rparr>) =
      Inr (Info j, s\<lparr>fifo_queue := q, infos := (infos s)(Info j := (infos s (Info j))\<lparr>fi_owner := p,
        next_shared_info := InfoNull, fi_vaddr := v AND 0xfffff000, info_mode := m\<rparr>)\<rparr>)"
proof -
  obtain q where q: "fifo_enqueue (of_nat j) (fifo_queue s) = (True, q)" "fifo_invar q"
    "fifo_contents q = fifo_contents (fifo_queue s) @ [of_nat j]"
    using fifo_enqueue_refines [OF fi' room] by blast
  have "calculate_info_index (frame_addr j) = of_nat j"
    using j by (simp add: info_index_frame PAGEABLE_PAGES_def)
  then show ?thesis
    using q fi j info_ref_frame_addr [OF j]
    by (intro exI [of _ q])
      (simp add: fifo_enqueue_info_def insert_page_frame_info_def Let_def upd_info_def)
qed

text \<open>A task whose page \<open>v\<close> can be loaded: a process with its page table in place.\<close>

definition loadable :: "'d vm \<Rightarrow> nat \<Rightarrow> pcb_ptr \<Rightarrow> u32 \<Rightarrow> nat \<Rightarrow> nat \<Rightarrow> bool" where
  "loadable s k p v d t \<longleftrightarrow> vm_inv k {} s \<and> tables_at s k {} p v d t \<and>
     (k < PAGEABLE_PAGES \<or> fifo_contents (fifo_queue s) \<noteq> []) \<and>
     p \<noteq> 0 \<and> p \<noteq> dummy_kernel_pcb \<and> is_thread (pcb_at s p) = 0 \<and>
     page_directory (pcb_at s p) \<noteq> kernel_pdir s"

lemma vm_inv_map:
  assumes inv: "vm_inv k (insert j A) s" and tab: "tables_at s k (insert j A) p v d t"
    and j: "j < k" "\<not> in_fifo s j" "j \<notin> A"
    and p: "p \<noteq> 0" "p \<noteq> dummy_kernel_pcb" "page_directory (pcb_at s p) \<noteq> kernel_pdir s"
    and bs: "length bs = 4096"
    and q: "fifo_invar q" "fifo_contents q = fifo_contents (fifo_queue s) @ [of_nat j]"
    and s': "pmem s' = mapped_mem d t j v bs (pmem s)" "same_vm s s'" "fifo_queue s' = q"
      "infos s' = (infos s)(Info j := (infos s (Info j))\<lparr>fi_owner := p,
        next_shared_info := InfoNull, fi_vaddr := v AND 0xfffff000, info_mode := PE_INFO_USER_MODE\<rparr>)"
      "page_free_head s' = page_free_head s" "disk s' = disk s"
  shows "vm_inv k A s' \<and> tables_at s' k A p v d t"
proof -
  have k: "k \<le> PAGEABLE_PAGES" using inv by (simp add: vm_inv_def free_from_def)
  have same: "pcb_at s' = pcb_at s" "kernel_pdir s' = kernel_pdir s" "vm_locked s' = vm_locked s"
    using s'(2) by (simp_all add: same_vm_def)
  have fifo: "in_fifo s' i \<Longrightarrow> i < PAGEABLE_PAGES \<Longrightarrow> in_fifo s i \<or> i = j" for i
    using q(2) s'(3) j(1) k
    by (auto simp: in_fifo_def word_unat_eq_iff unat_of_nat PAGEABLE_PAGES_def)
  have tb: "tables_at s' k A p2 v2 d2 t2" if "tables_at s k (insert j A) p2 v2 d2 t2" for p2 v2 d2 t2
    by (rule tables_at_mapped [OF tab that k j(1) bs s'(1) _ fifo]) (simp_all add: same)
  have "tables_at s' k A p (v AND 0xfffff000) d t"
    using tb [OF tab] by (simp add: tables_at_def index_page_mask)
  then have ej: "evictable s' k A j"
    using j p s'(4) same by (auto simp: evictable_def)
  have ev: "evictable s' k A (unat x)" if x: "x \<in> set (fifo_contents (fifo_queue s))" for x
  proof -
    have e: "evictable s k (insert j A) (unat x)" using inv x by (simp add: vm_inv_def)
    then have "unat x \<noteq> j" "unat x \<notin> A" by (simp_all add: evictable_def)
    then show ?thesis
      by (intro evictable_keep [OF e] tb) (use k s'(4) same in auto)
  qed
  have uj: "unat (of_nat j :: u32) = j" using j(1) k by (simp add: unat_of_nat PAGEABLE_PAGES_def)
  have "of_nat j \<notin> set (fifo_contents (fifo_queue s))" using j(2) by (simp add: in_fifo_def)
  then have "vm_inv k A s'"
    using inv q s'(3-) same ej ev uj j(1) unfolding vm_inv_def free_from_def by auto
  then show ?thesis using tb [OF tab] by simp
qed

lemma loadable_allocated:
  assumes ld: "loadable s k p v d t"
  shows "\<exists>j k' s'. allocate_page EVICTION_STRATEGY_FIFO s = Inr (frame_addr j, s') \<and>
    allocated k {} s j k' s' \<and> k' \<le> PAGEABLE_PAGES \<and> tables_at s' k' {j} p v d t \<and>
    unat (items (fifo_queue s')) < PAGEABLE_PAGES - 1"
proof -
  obtain j k' s' where a: "allocate_page EVICTION_STRATEGY_FIFO s = Inr (frame_addr j, s')"
    "allocated k {} s j k' s'"
    using allocate_page_spec [of k "{}" s] ld by (auto simp: loadable_def)
  have i: "vm_inv k' {j} s'" using a(2) by (simp add: allocated_def)
  then have k': "k' \<le> PAGEABLE_PAGES" by (simp add: vm_inv_def free_from_def)
  have t: "tables_at s' k' {j} p v d t" using a(2) ld by (auto simp: allocated_def loadable_def)
  have "d \<noteq> t" "d < PAGEABLE_PAGES" "t < PAGEABLE_PAGES" "\<not> in_fifo s' d" "\<not> in_fifo s' t"
    using t k' by (auto simp: tables_at_def)
  then have "unat (items (fifo_queue s')) < PAGEABLE_PAGES - 1" using fifo_room [OF i] by blast
  then show ?thesis using a k' t by blast
qed

lemma block_count_le: "unat (block_count_at sz off) \<le> 8"
  by (simp add: block_count_at_def addr_defs word_less_nat_alt)

lemma inv_invalidate [simp]:
  "in_fifo (invalidate_page w s) i = in_fifo s i"
  "tables_at (invalidate_page w s) k A p v d t = tables_at s k A p v d t"
  "evictable (invalidate_page w s) k A i = evictable s k A i"
  "vm_inv k A (invalidate_page w s) = vm_inv k A s"
  by (simp_all add: in_fifo_def tables_at_def evictable_def vm_inv_def free_from_def)

text \<open>\<open>page_loaded\<close>: the page at \<open>v\<close> of task \<open>p\<close> was read from sector \<open>loc\<close> into frame \<open>j\<close>.\<close>

definition page_loaded ::
    "('d \<Rightarrow> nat \<Rightarrow> u8 list) \<Rightarrow> nat \<Rightarrow> nat \<Rightarrow> pcb_ptr \<Rightarrow> u32 \<Rightarrow> nat \<Rightarrow> nat \<Rightarrow> nat \<Rightarrow> 'd vm \<Rightarrow> 'd vm \<Rightarrow> bool"
  where
  "page_loaded sec loc n p v d t j s1 s' \<longleftrightarrow>
     pmem s' = mapped_mem d t j v (image_page sec (driver (disk s1)) loc n) (pmem s1) \<and>
     disk s' = disk s1 \<and>
     fifo_contents (fifo_queue s') = fifo_contents (fifo_queue s1) @ [of_nat j] \<and>
     infos s' = (infos s1)(Info j := (infos s1 (Info j))\<lparr>fi_owner := p,
        next_shared_info := InfoNull, fi_vaddr := v AND 0xfffff000, info_mode := PE_INFO_USER_MODE\<rparr>)"

lemma loaded_table:
  assumes "tables_at s1 k' A p v d t" "k' \<le> PAGEABLE_PAGES" "j < k'" "length b = 4096"
    and "pmem s3 = store_bytes (frame_addr j) b (pmem s1)" and "j \<in> A"
  shows "(let e = read32 (pmem s3) (entry_addr (frame_addr d) (get_directory_index v)) in
    if e AND PE_P = 0 then 0 else e AND PE_BASE_ADDR_MASK) = frame_addr t"
proof -
  have b: "d < 1000" "j < 1000" "d \<noteq> j" using assms by (auto simp: tables_at_def PAGEABLE_PAGES_def)
  have "read32 (pmem s3) (entry_addr (frame_addr d) (get_directory_index v)) =
      read32 (pmem s1) (entry_addr (frame_addr d) (get_directory_index v))"
    using b in_page_frame_disjoint [of d _ j] assms(4,5)
    by (intro read32_entry_cong) (auto simp: store_bytes_page frame_addr_aligned index_bounds)
  then show ?thesis using assms(1) by (simp add: tables_at_def and_PE_P Let_def)
qed

lemma load_page_spec:
  assumes ld: "loadable s k p v d t" and dr: "disk_ready (disk s) sec cap"
    and n: "n = unat (block_count_at (swap_size (pcb_at s p)) (sector_offset v))"
    and loc: "loc = unat (swap_loc (pcb_at s p) + sector_offset v)" and cap: "loc + n \<le> cap"
  shows "\<exists>j k' s1 s'. load_page_from_disk EVICTION_STRATEGY_FIFO v p s = Inr (0, s') \<and>
    allocated k {} (nointerrupt_leave (nointerrupt_enter s)) j k' s1 \<and> vm_inv k' {} s' \<and>
    tables_at s' k' {} p v d t \<and> tables_at s1 k' {j} p v d t \<and> k' \<le> PAGEABLE_PAGES \<and>
    page_loaded sec loc n p v d t j s1 s' \<and> same_vm s s'"
proof -
  let ?s = "nointerrupt_leave (nointerrupt_enter s)"
  have "loadable ?s k p v d t" using ld by (simp add: loadable_def)
  then obtain j k' s1 where a: "allocate_page EVICTION_STRATEGY_FIFO ?s = Inr (frame_addr j, s1)"
    "allocated k {} ?s j k' s1" "k' \<le> PAGEABLE_PAGES" "tables_at s1 k' {j} p v d t"
    "unat (items (fifo_queue s1)) < PAGEABLE_PAGES - 1"
    using loadable_allocated by blast
  have i1: "vm_inv k' {j} s1" and sv1: "same_vm s s1" and j: "j < k'" "\<not> in_fifo s1 j"
    and fi: "fi_owner (infos s1 (Info j)) = 0" "info_mode (infos s1 (Info j)) = 0"
    and sc: "scsi (disk s1) = scsi (disk s)"
    using a(2) by (auto simp: allocated_def same_vm_def)
  have dr1: "disk_ready (disk s1) sec cap" using dr sc i1 by (auto simp: disk_ready_def vm_inv_def)
  have jn: "j < PAGEABLE_PAGES" using j(1) a(3) by simp
  let ?s2 = "invalidate_page v s1" let ?b = "image_page sec (driver (disk s1)) loc n"
  have n8: "n \<le> 8" using n block_count_le by simp
  have "\<not> vm_locked ?s2 ReadBufferLock" "disk_ready (disk ?s2) sec cap" using i1 dr1 by (auto simp: vm_inv_def)
  then obtain s3 where s3: "disk_loader (swap_loc (pcb_at s p) + sector_offset v) (of_nat n) (frame_addr j) ?s2 = Inr (0, s3)"
    "same_vm ?s2 s3" "infos s3 = infos s1" "fifo_queue s3 = fifo_queue s1"
    "page_free_head s3 = page_free_head s1" "disk s3 = disk s1" "pmem s3 = store_bytes (frame_addr j) ?b (pmem s1)"
    using disk_loader_spec [of ?s2 sec cap "swap_loc (pcb_at s p) + sector_offset v" n "frame_addr j"]
      cap loc n8 by auto
  have lb: "length ?b = 4096" by (rule length_image_page [OF dr1 n8])
  have nj: "j \<notin> {}" by simp
  let ?s4 = "invalidate_page v s3"
  have d4: "get_page_table v (frame_addr d) ?s4 = frame_addr t"
    using loaded_table [OF a(4,3) j(1) lb s3(7)] by (simp add: get_page_table_def)
  obtain q where q: "fifo_enqueue_info (frame_addr j) ?s4 = Inr (?s4\<lparr>fifo_queue := q\<rparr>)" "fifo_invar q"
    "fifo_contents q = fifo_contents (fifo_queue s1) @ [of_nat j]"
    "insert_page_frame_info (frame_addr j) v p PE_INFO_USER_MODE (?s4\<lparr>fifo_queue := q\<rparr>) =
      Inr (Info j, ?s4\<lparr>fifo_queue := q, infos := (infos s1)(Info j := (infos s1 (Info j))\<lparr>fi_owner := p,
        next_shared_info := InfoNull, fi_vaddr := v AND 0xfffff000, info_mode := PE_INFO_USER_MODE\<rparr>)\<rparr>)"
    using enqueue_and_insert [of ?s4 j v p PE_INFO_USER_MODE] i1 jn fi a(5) s3(3,4)
    by (auto simp: vm_inv_def)
  let ?s5 = "?s4\<lparr>fifo_queue := q, infos := (infos s1)(Info j := (infos s1 (Info j))\<lparr>fi_owner := p,
        next_shared_info := InfoNull, fi_vaddr := v AND 0xfffff000, info_mode := PE_INFO_USER_MODE\<rparr>)\<rparr>"
  let ?s6 = "nointerrupt_leave (nointerrupt_enter (invalidate_page v (dir_ins_table (frame_addr d) v
    (frame_addr t) 7 (table_map_page (frame_addr t) v (frame_addr j) 7 ?s5))))"
  have m7: "PE_P OR PE_RW OR PE_US = 7" "7 OR PE_US = 7" by (simp_all add: pe_defs)
  have bc: "block_count_at (swap_size (pcb_at s p)) (sector_offset v) = of_nat n" using n by simp
  have pd: "page_directory (pcb_at s p) = frame_addr d" "is_thread (pcb_at s p) = 0"
    "frame_addr t \<noteq> 0"
    using ld a(3) frame_addr_nonzero [of t] by (auto simp: loadable_def tables_at_def vm_inv_def
        free_from_def PAGEABLE_PAGES_def)
  have pk: "p \<noteq> 0" "p \<noteq> dummy_kernel_pcb" "page_directory (pcb_at s1 p) \<noteq> kernel_pdir s1"
    using ld sv1 unfolding loadable_def same_vm_def by simp_all
  have lp: "load_page_from_disk EVICTION_STRATEGY_FIFO v p s = Inr (0, ?s6)"
    using a(1) s3(1) d4 q(1,4) pd
    by (simp add: load_page_from_disk_def Let_def bc PIN_SHELL_def m7 pe_info_defs)
  have m6: "pmem ?s6 = mapped_mem d t j v ?b (pmem s1)"
    using s3(7) by (simp add: mapped_mem_def)
  have sv6: "same_vm s1 ?s6" using s3(2) by (simp add: same_vm_def)
  have f6: "fifo_queue ?s6 = q"
    "infos ?s6 = (infos s1)(Info j := (infos s1 (Info j))\<lparr>fi_owner := p,
        next_shared_info := InfoNull, fi_vaddr := v AND 0xfffff000, info_mode := PE_INFO_USER_MODE\<rparr>)"
    "page_free_head ?s6 = page_free_head s1" "disk ?s6 = disk s1"
    by (simp_all add: s3(5,6))
  have "vm_inv k' {} ?s6 \<and> tables_at ?s6 k' {} p v d t"
    by (rule vm_inv_map [OF i1 a(4) j nj pk lb q(2,3) m6 sv6 f6])
  moreover have "page_loaded sec loc n p v d t j s1 ?s6"
    unfolding page_loaded_def by (intro conjI m6 f6) (simp only: f6(1) q(3))
  ultimately show ?thesis
    using lp a(2,3,4) same_vm_trans [OF sv1 sv6] by blast
qed

section \<open>Page faults\<close>

lemma inv_release [simp]:
  "in_fifo (vm_release l s) i = in_fifo s i"
  "tables_at (vm_release l s) k A p v d t = tables_at s k A p v d t"
  "evictable (vm_release l s) k A i = evictable s k A i"
  "free_from k (vm_release l s) = free_from k s"
  by (simp_all add: in_fifo_def tables_at_def evictable_def free_from_def)

lemma vm_inv_release: "vm_inv k A s \<Longrightarrow> vm_inv k A (vm_release l s)"
  by (simp add: vm_inv_def) (simp add: vm_release_def)

text \<open>The state in which the handler loads the page: the fault is counted, the lock is taken.\<close>

definition fault_entry :: "u32 \<Rightarrow> 'd vm \<Rightarrow> 'd vm" where
  "fault_entry v s =
     (let s = upd_pcb (current_running s) (\<lambda>r. r\<lparr>page_fault_count := page_fault_count r + 1\<rparr>)
                (invalidate_page v s);
          s = nointerrupt_leave (nointerrupt_leave (nointerrupt_enter s))
      in s\<lparr>vm_locked := (vm_locked s)(PageMapLock := True)\<rparr>)"

lemma fault_entry_pcb:
  "page_directory (pcb_at (fault_entry v s) p) = page_directory (pcb_at s p)"
  "is_thread (pcb_at (fault_entry v s) p) = is_thread (pcb_at s p)"
  "swap_loc (pcb_at (fault_entry v s) p) = swap_loc (pcb_at s p)"
  "swap_size (pcb_at (fault_entry v s) p) = swap_size (pcb_at s p)"
  by (simp_all add: fault_entry_def Let_def pcb_at_upd_pcb)

lemma fault_entry_fields [simp]:
  "pmem (fault_entry v s) = pmem s" "infos (fault_entry v s) = infos s"
  "fifo_queue (fault_entry v s) = fifo_queue s" "page_free_head (fault_entry v s) = page_free_head s"
  "kernel_pdir (fault_entry v s) = kernel_pdir s" "disk (fault_entry v s) = disk s"
  "current_running (fault_entry v s) = current_running s" "cr3 (fault_entry v s) = cr3 s"
  "vm_locked (fault_entry v s) = (vm_locked s)(PageMapLock := True)"
  "nointerrupt_count_val (fault_entry v s) = nointerrupt_count_val s - 1"
  by (simp_all add: fault_entry_def Let_def)

lemma loadable_fault_entry: "loadable s k p v d t \<Longrightarrow> loadable (fault_entry w s) k p v d t"
  by (auto simp: loadable_def vm_inv_def free_from_def evictable_def tables_at_def in_fifo_def
      fault_entry_pcb)

lemma page_fault_handler_unfold:
  assumes "cr2 s = v" "error_code AND 1 = 0" "\<not> vm_locked s PageMapLock"
  shows "page_fault_handler strategy error_code s =
    bindR (load_page_from_disk strategy v (current_running s) (fault_entry v s)) (\<lambda>(success, s).
      let s = nointerrupt_enter (vm_release PageMapLock s)
      in if success \<ge> 0 then Inr s else Inl Abortk)"
  using assms
  by (simp add: page_fault_handler_def load_page_fault_addr_def fault_entry_def Let_def
      vm_acquire_def)

lemma handler_loads_page:
  assumes ld: "loadable s k (current_running s) v d t" and dr: "disk_ready (disk s) sec cap"
    and n: "n = unat (block_count_at (swap_size (pcb_at s (current_running s))) (sector_offset v))"
    and loc: "loc = unat (swap_loc (pcb_at s (current_running s)) + sector_offset v)"
    and cap: "loc + n \<le> cap"
    and pf: "cr2 s = v" "error_code AND 1 = 0" "\<not> vm_locked s PageMapLock"
  shows "\<exists>j k' s'. page_fault_handler EVICTION_STRATEGY_FIFO error_code s = Inr s' \<and>
    vm_inv k' {} s' \<and> in_fifo s' j \<and>
    mmu_translate (pmem s') (frame_addr d) True v = Some (frame_addr j OR (v AND 0xfff)) \<and>
    load_bytes (pmem s') (frame_addr j) 4096 = image_page sec (driver (disk s')) loc n \<and>
    vm_locked s' = vm_locked s \<and> nointerrupt_count_val s' = nointerrupt_count_val s \<and>
    current_running s' = current_running s \<and>
    page_directory (pcb_at s' (current_running s)) = frame_addr d"
proof -
  let ?p = "current_running s" and ?s = "fault_entry v s"
  have "loadable ?s k ?p v d t" using ld by (rule loadable_fault_entry)
  moreover have "disk_ready (disk ?s) sec cap" using dr by simp
  ultimately obtain j k' s1 s' where l: "load_page_from_disk EVICTION_STRATEGY_FIFO v ?p ?s = Inr (0, s')"
    "vm_inv k' {} s'" "tables_at s1 k' {j} ?p v d t" "k' \<le> PAGEABLE_PAGES"
    "allocated k {} (nointerrupt_leave (nointerrupt_enter ?s)) j k' s1"
    "page_loaded sec loc n ?p v d t j s1 s'" "same_vm ?s s'"
    using load_page_spec [of ?s k ?p v d t sec cap n loc] n loc cap by (auto simp: fault_entry_pcb)
  have "j < k'" using l(5) by (simp add: allocated_def)
  then have b: "d < 1000" "t < 1000" "j < 1000" "j \<noteq> d" "j \<noteq> t" "d \<noteq> t"
    using tables_at_bounds [OF l(3,4)] l(4) by (auto simp: PAGEABLE_PAGES_def)
  have "disk_ready (disk s1) sec cap"
    using dr l(5) by (auto simp: disk_ready_def allocated_def vm_inv_def)
  then have lb: "length (image_page sec (driver (disk s1)) loc n) = 4096"
    using n block_count_le by (intro length_image_page) auto
  let ?u = "nointerrupt_enter (vm_release PageMapLock s')"
  have "page_fault_handler EVICTION_STRATEGY_FIFO error_code s = Inr ?u"
    using page_fault_handler_unfold [OF pf] l(1) by simp
  moreover have "vm_inv k' {} ?u" using l(2) by (simp add: vm_inv_release)
  moreover have "in_fifo ?u j" using l(6) by (simp add: in_fifo_def page_loaded_def)
  moreover have "vm_locked ?u = vm_locked s"
    using l(7) pf(3) by (simp add: same_vm_def vm_release_def fun_upd_idem)
  moreover have "page_directory (pcb_at ?u ?p) = frame_addr d"
    using l(7) ld by (simp add: same_vm_def fault_entry_pcb loadable_def tables_at_def)
  ultimately show ?thesis
    using l(6,7) mapped_mem_translate [OF b lb] mapped_mem_data [OF b(1-5) lb]
    by (intro exI [of _ j] exI [of _ k'] exI [of _ ?u]) (simp add: page_loaded_def same_vm_def)
qed

end
