(* ===== verification/Vmem.thy ===== *)
theory Vmem
  imports Paging
begin

text \<open>
  Address spaces (\<open>kernel/memory.c\<close>): the kernel's identity mapping, the page directory and
  page table of a process, and the initialisation of the memory manager.
\<close>

unbundle bit_operations_syntax

section \<open>Kernel mappings\<close>

definition PROCESSES_SHARE_KERNEL_PAGE_TABLE :: bool where "PROCESSES_SHARE_KERNEL_PAGE_TABLE = True"

definition kernel_mode :: u32 where "kernel_mode = PE_P OR PE_RW"
definition user_mode :: u32 where "user_mode = PE_P OR PE_RW OR PE_US"

definition user_setup_kernel_vmem :: "u32 \<Rightarrow> bool \<Rightarrow> 'd vm \<Rightarrow> 'd vm res" where
  "user_setup_kernel_vmem pdir first_time s =
     (let step = (\<lambda>paddr s.
            let s = (if first_time
                     then table_map_page (user_kernel_ptable s) paddr paddr kernel_mode s else s)
            in Inr (dir_ins_table pdir paddr (user_kernel_ptable s) kernel_mode s)) in
      bindR (for_up 0 KERNEL_SIZE PAGE_SIZE step s) (\<lambda>s.
      bindR (for_up PAGING_AREA_MIN_PADDR PAGING_AREA_MAX_PADDR PAGE_SIZE step s) (\<lambda>s.
        let s = dir_ins_table pdir 0 (user_kernel_ptable s) kernel_mode s;
            mode = user_mode OR PE_PCD;
            s = (if first_time
                 then table_map_page (user_kernel_ptable s) VGA_TEXT_PADDR VGA_TEXT_PADDR mode s
                 else s)
        in Inr (dir_ins_table pdir VGA_TEXT_PADDR (user_kernel_ptable s) mode s))))"

definition setup_kernel_vmem_common ::
    "eviction_strategy \<Rightarrow> pcb_ptr \<Rightarrow> u32 \<Rightarrow> bool \<Rightarrow> 'd vm \<Rightarrow> 'd vm res" where
  "setup_kernel_vmem_common strategy p pdir is_user s =
     bindR (allocate_page strategy s) (\<lambda>(kernel_ptable, s).
     bindR (insert_page_frame_info kernel_ptable kernel_ptable p PE_INFO_PINNED s) (\<lambda>(_, s).
     bindR (inc_pinned_pages 1 s) (\<lambda>s.
       let step = (\<lambda>paddr s.
             let s = table_map_page kernel_ptable paddr paddr kernel_mode s
             in Inr (dir_ins_table pdir paddr kernel_ptable kernel_mode s)) in
       bindR (for_up 0 KERNEL_SIZE PAGE_SIZE step s) (\<lambda>s.
       bindR (for_up PAGING_AREA_MIN_PADDR PAGING_AREA_MAX_PADDR PAGE_SIZE step s) (\<lambda>s.
         let s = dir_ins_table pdir 0 kernel_ptable kernel_mode s;
             mode = (if is_user then user_mode else kernel_mode) OR PE_PCD;
             s = table_map_page kernel_ptable VGA_TEXT_PADDR VGA_TEXT_PADDR mode s
         in Inr (dir_ins_table pdir VGA_TEXT_PADDR kernel_ptable mode s))))))"

definition setup_kernel_vmem :: "eviction_strategy \<Rightarrow> 'd vm \<Rightarrow> 'd vm res" where
  "setup_kernel_vmem strategy s =
     bindR (vm_acquire PageMapLock s) (\<lambda>s.
       let s = upd_pcb dummy_kernel_pcb (\<lambda>r. r\<lparr>is_thread := 1\<rparr>) s;
           imode = PE_INFO_PINNED OR PE_INFO_KERNEL_DUMMY in
       bindR (allocate_page strategy s) (\<lambda>(pdir, s).
         let s = s\<lparr>kernel_pdir := pdir\<rparr> in
         bindR (insert_page_frame_info pdir pdir dummy_kernel_pcb imode s) (\<lambda>(_, s).
         bindR (inc_pinned_pages 1 s) (\<lambda>s.
         bindR (setup_kernel_vmem_common strategy dummy_kernel_pcb pdir False s) (\<lambda>s.
         bindR (if PROCESSES_SHARE_KERNEL_PAGE_TABLE then
                  bindR (allocate_page strategy s) (\<lambda>(ptable, s).
                    let s = s\<lparr>user_kernel_ptable := ptable\<rparr> in
                    bindR (insert_page_frame_info ptable ptable dummy_kernel_pcb imode s) (\<lambda>(_, s).
                      inc_pinned_pages 1 s))
                else Inr s) (\<lambda>s.
           Inr (vm_release PageMapLock s)))))))"

definition init_memory :: "eviction_strategy \<Rightarrow> 'd vm \<Rightarrow> 'd vm res" where
  "init_memory strategy s =
     (let s = initialize_page_frame_infos s;
          s = s\<lparr>fifo_queue := fifo_init\<rparr>;
          s = s\<lparr>next_free_mem := PAGING_AREA_MIN_PADDR\<rparr>
      in setup_kernel_vmem strategy s)"

section \<open>Process address spaces\<close>

text \<open>
  The stack loop counts down from \<open>PROCESS_STACK_VADDR\<close> to \<open>stack_lim\<close>; the number of
  iterations left is its bound, and wrapping below zero would go on forever.
\<close>

function for_down :: "u32 \<Rightarrow> u32 \<Rightarrow> u32 \<Rightarrow> (u32 \<Rightarrow> 's \<Rightarrow> 's res) \<Rightarrow> 's \<Rightarrow> 's res" where
  "for_down i lim step body s =
     (if lim < i
      then bindR (body i s)
             (\<lambda>s'. if i - step < i then for_down (i - step) lim step body s' else Inl Diverges)
      else Inr s)"
  by pat_completeness auto
termination
  by (relation "measure (\<lambda>(i, lim, step, body, s). unat i)") (auto simp: word_less_nat_alt)

declare for_down.simps [simp del]

definition map_image_pages :: "pcb_ptr \<Rightarrow> u32 \<Rightarrow> u32 \<Rightarrow> 'd vm \<Rightarrow> 'd vm res" where
  "map_image_pages p proc_ptable mode s =
     (let upper_lim = swap_size (pcb_at s p) * SECTOR_SIZE in
      for_up 0 upper_lim PAGE_SIZE (\<lambda>offset s.
        let paddr = swap_loc (pcb_at s p) * SECTOR_SIZE + offset;
            vaddr = PROCESS_VADDR + offset;
            s = nointerrupt_leave (nointerrupt_enter s)
        in Inr (table_map_page proc_ptable vaddr paddr mode s)) s)"

definition map_stack_pages ::
    "eviction_strategy \<Rightarrow> pcb_ptr \<Rightarrow> u32 \<Rightarrow> u32 \<Rightarrow> u32 \<Rightarrow> 'd vm \<Rightarrow> 'd vm res" where
  "map_stack_pages strategy p proc_ptable imode mode s =
     for_down PROCESS_STACK_VADDR (PROCESS_STACK_VADDR - USER_STACK_SIZE) PAGE_SIZE
       (\<lambda>stack_vaddr s.
         bindR (allocate_page strategy s) (\<lambda>(stack_page, s).
         bindR (insert_page_frame_info stack_page stack_vaddr p (imode OR PE_INFO_STACK) s)
           (\<lambda>(_, s).
         bindR (inc_pinned_pages 1 s) (\<lambda>s.
           Inr (table_map_page proc_ptable stack_vaddr stack_page (mode OR PE_P) s))))) s"

text \<open>The page table of a process: its image, not present yet, and its stack.\<close>

definition setup_process_table ::
    "eviction_strategy \<Rightarrow> pcb_ptr \<Rightarrow> u32 \<Rightarrow> u32 \<Rightarrow> u32 \<Rightarrow> 'd vm \<Rightarrow> 'd vm res" where
  "setup_process_table strategy p proc_pdir imode mode s =
     bindR (allocate_page strategy s) (\<lambda>(proc_ptable, s).
       let s = dir_ins_table proc_pdir PROCESS_VADDR proc_ptable (mode OR PE_P) s in
       bindR (insert_page_frame_info proc_ptable proc_ptable p imode s) (\<lambda>(_, s).
       bindR (inc_pinned_pages 2 s) (\<lambda>s.
       bindR (map_image_pages p proc_ptable mode s) (\<lambda>s.
         let s = dir_ins_table proc_pdir PROCESS_STACK_VADDR proc_ptable (mode OR PE_P) s in
         map_stack_pages strategy p proc_ptable imode mode s))))"

definition setup_process_vmem :: "eviction_strategy \<Rightarrow> pcb_ptr \<Rightarrow> 'd vm \<Rightarrow> 'd vm res" where
  "setup_process_vmem strategy p s =
     bindR (vm_acquire PageMapLock s) (\<lambda>s.
       if is_thread (pcb_at s p) \<noteq> 0 then
         Inr (vm_release PageMapLock (upd_pcb p (\<lambda>r. r\<lparr>page_directory := kernel_pdir s\<rparr>) s))
       else
         (let imode = PE_INFO_USER_MODE OR PE_INFO_PINNED; mode = PE_RW OR PE_US in
          bindR (allocate_page strategy s) (\<lambda>(proc_pdir, s).
          bindR (insert_page_frame_info proc_pdir proc_pdir p imode s) (\<lambda>(_, s).
          bindR (if first_process s \<noteq> 0 then
                   (let s = nointerrupt_enter s;
                        s = s\<lparr>first_process_pid := pid (pcb_at s p)\<rparr>;
                        s = s\<lparr>first_process := 0\<rparr>;
                        s = nointerrupt_leave s
                    in if PROCESSES_SHARE_KERNEL_PAGE_TABLE
                       then user_setup_kernel_vmem proc_pdir True s else Inr s)
                 else if PROCESSES_SHARE_KERNEL_PAGE_TABLE
                      then user_setup_kernel_vmem proc_pdir False s else Inr s) (\<lambda>s.
          bindR (if \<not> PROCESSES_SHARE_KERNEL_PAGE_TABLE
                 then setup_kernel_vmem_common strategy p proc_pdir True s else Inr s) (\<lambda>s.
          bindR (setup_process_table strategy p proc_pdir imode mode s) (\<lambda>s.
            let s = upd_pcb p (\<lambda>r. r\<lparr>page_directory := proc_pdir\<rparr>) s
            in Inr (vm_release PageMapLock s))))))))"

end
