(* ===== verification/AddressSpaces.thy ===== *)
theory AddressSpaces
  imports Faults Vmem
begin

text \<open>
  Address spaces after initialisation (\<open>kernel/memory.c\<close>): the loops that fill page tables
  map the kernel area one to one, and a new process gets a directory through which only its
  own pages and the text screen are accessible in user mode.
\<close>

unbundle bit_operations_syntax

section \<open>Pages and indices\<close>

lemma unat_base: "unat (v AND PE_BASE_ADDR_MASK) = unat v div 4096 * 4096"
proof -
  have "v AND PE_BASE_ADDR_MASK = push_bit 12 (drop_bit 12 v)"
    by (rule bit_word_eqI) (auto simp: pe_masks bit_simps)
  also have "\<dots> = drop_bit 12 v * 4096" by (simp add: push_bit_eq_mult)
  finally have "unat (v AND PE_BASE_ADDR_MASK) = (unat v div 4096 * 4096) mod 4294967296"
    by (simp add: unat_word_ariths unat_drop_bit32)
  moreover have "unat v div 4096 * 4096 \<le> unat v" by simp
  then have "unat v div 4096 * 4096 < 4294967296" using unat_bound32 [of v] by linarith
  ultimately show ?thesis by simp
qed

lemma base_of_page:
  assumes "page_aligned b" "in_page b v"
  shows "v AND PE_BASE_ADDR_MASK = b"
proof -
  obtain k where k: "unat b = 4096 * k" using page_alignedE [OF assms(1)] by blast
  then have "unat v div 4096 = k" using assms(2) by (simp add: in_page_def div_nat_eqI)
  then show ?thesis by (simp add: word_unat_eq_iff unat_base k)
qed

lemma table_index_page:
  assumes "unat v < 4194304" "unat b < 4194304" "page_aligned b"
  shows "get_table_index v = get_table_index b \<longleftrightarrow> in_page b v"
proof -
  obtain k where k: "unat b = 4096 * k" using page_alignedE [OF assms(3)] by blast
  have "unat v div 4096 < 1024" "k < 1024" using assms(1,2) k by (simp_all add: div_less_iff_less_mult)
  then have "get_table_index v = get_table_index b \<longleftrightarrow> unat v div 4096 = k"
    by (simp add: word_unat_eq_iff unat_table_index k)
  also have "\<dots> \<longleftrightarrow> in_page b v"
    unfolding in_page_def k by (auto simp: div_nat_eqI mult.commute dividend_less_times_div)
  finally show ?thesis .
qed

lemma directory_index_low: "unat v < 4194304 \<Longrightarrow> get_directory_index v = 0"
  by (simp add: word_unat_eq_iff unat_directory_index)

section \<open>Loops that fill a page table\<close>

text \<open>
  One iteration of the mapping loops: page \<open>paddr\<close> is mapped to itself through table \<open>T\<close>,
  when \<open>tm\<close>, and the table is entered in directory \<open>D\<close>.
\<close>

definition map_step :: "u32 \<Rightarrow> u32 \<Rightarrow> bool \<Rightarrow> u32 \<Rightarrow> u32 \<Rightarrow> 'd vm \<Rightarrow> 'd vm res" where
  "map_step T D tm mode paddr s =
     (let s = (if tm then table_map_page T paddr paddr mode s else s)
      in Inr (dir_ins_table D paddr T mode s))"

text \<open>Only memory and the TLB differ.\<close>

definition only_mem :: "'d vm \<Rightarrow> 'd vm \<Rightarrow> bool" where
  "only_mem s t \<longleftrightarrow> (\<exists>m b. t = s\<lparr>pmem := m, tlb := b\<rparr>)"

lemma only_mem_refl [simp]: "only_mem s s"
  unfolding only_mem_def by (rule exI [of _ "pmem s"], rule exI [of _ "tlb s"]) simp

lemma only_mem_trans: "only_mem s t \<Longrightarrow> only_mem t u \<Longrightarrow> only_mem s u"
  by (auto simp: only_mem_def) (intro exI, rule refl)

lemma only_mem_map [simp]:
  "only_mem s (table_map_page T v p mode s)" "only_mem s (dir_ins_table D v T mode s)"
proof -
  show "only_mem s (table_map_page T v p mode s)"
    by (simp add: only_mem_def table_map_page_def invalidate_page_def Let_def) (intro exI, rule refl)
  have "dir_ins_table D v T mode s = s\<lparr>pmem := pmem (dir_ins_table D v T mode s), tlb := tlb s\<rparr>"
    by (simp add: dir_ins_table_def Let_def)
  then show "only_mem s (dir_ins_table D v T mode s)" unfolding only_mem_def by blast
qed

lemma only_mem_fields:
  assumes "only_mem s t"
  shows "infos t = infos s" "page_free_head t = page_free_head s" "fifo_queue t = fifo_queue s"
    "vm_locked t = vm_locked s" "disk t = disk s" "kernel_pdir t = kernel_pdir s"
    "user_kernel_ptable t = user_kernel_ptable s" "pcb_at t = pcb_at s"
    "first_process t = first_process s" "current_running t = current_running s"
  using assms by (auto simp: only_mem_def)

lemma in_page_step:
  assumes "page_aligned j" "unat j < 4194304"
  shows "v < j + 4096 \<longleftrightarrow> v < j \<or> in_page j v" "unat (j + 4096) = unat j + 4096"
proof -
  show u: "unat (j + 4096) = unat j + 4096" using assms(2) by (simp add: unat_word_ariths)
  show "v < j + 4096 \<longleftrightarrow> v < j \<or> in_page j v"
    by (auto simp: word_less_nat_alt u in_page_def)
qed

lemma pte_of_page: "page_aligned j \<Longrightarrow> in_page j v \<Longrightarrow> pte_of v mode = pte_of j mode"
  by (simp add: pte_of_def base_of_page page_aligned_and_mask)

definition map_inv ::
    "u32 \<Rightarrow> u32 \<Rightarrow> bool \<Rightarrow> u32 \<Rightarrow> u32 \<Rightarrow> 'd vm \<Rightarrow> u32 \<Rightarrow> 'd vm \<Rightarrow> bool" where
  "map_inv T D tm mode lo s j t \<longleftrightarrow> only_mem s t \<and>
     (\<forall>v. unat v < 4194304 \<longrightarrow> read32 (pmem t) (entry_addr T (get_table_index v)) =
        (if tm \<and> lo \<le> v \<and> v < j then pte_of v mode
         else read32 (pmem s) (entry_addr T (get_table_index v)))) \<and>
     (\<forall>i. unat i < 1024 \<longrightarrow> read32 (pmem t) (entry_addr D i) =
        (if i = 0 \<and> lo < j then pde_of T mode else read32 (pmem s) (entry_addr D i))) \<and>
     (\<forall>a. \<not> in_page D a \<and> \<not> in_page T a \<longrightarrow> pmem t a = pmem s a)"

lemma map_invD:
  assumes "map_inv T D tm mode lo s j t"
  shows "only_mem s t"
    and "unat v < 4194304 \<Longrightarrow> read32 (pmem t) (entry_addr T (get_table_index v)) =
        (if tm \<and> lo \<le> v \<and> v < j then pte_of v mode
         else read32 (pmem s) (entry_addr T (get_table_index v)))"
    and "unat i < 1024 \<Longrightarrow> read32 (pmem t) (entry_addr D i) =
        (if i = 0 \<and> lo < j then pde_of T mode else read32 (pmem s) (entry_addr D i))"
    and "\<not> in_page D a \<Longrightarrow> \<not> in_page T a \<Longrightarrow> pmem t a = pmem s a"
  using assms unfolding map_inv_def by blast+

lemma map_inv_step:
  assumes al: "page_aligned T" "page_aligned D" "T \<noteq> D" "page_aligned j" "unat j < 4194304" "lo \<le> j"
    and inv: "map_inv T D tm mode lo s j t"
  shows "\<exists>t'. map_step T D tm mode j t = Inr t' \<and> map_inv T D tm mode lo s (j + PAGE_SIZE) t'"
proof -
  let ?tb = "if tm then table_map_page T j j mode t else t"
  let ?t = "dir_ins_table D j T mode ?tb"
  note rw = read32_write32_entry index_bounds al
  have idx: "get_directory_index j = 0" by (rule directory_index_low [OF al(5)])
  have z: "unat (0 :: u32) < 1024" by simp
  have lt: "lo < j + PAGE_SIZE" using al(6) in_page_step(2) [OF al(4,5)]
    by (simp add: word_less_nat_alt word_le_nat_alt PAGE_SIZE_def)
  have tab: "read32 (pmem ?t) (entry_addr T (get_table_index v)) =
      (if tm \<and> lo \<le> v \<and> v < j + PAGE_SIZE then pte_of v mode
       else read32 (pmem s) (entry_addr T (get_table_index v)))" if "unat v < 4194304" for v
  proof -
    have "read32 (pmem ?t) (entry_addr T (get_table_index v)) =
        (if tm \<and> in_page j v then pte_of j mode else read32 (pmem t) (entry_addr T (get_table_index v)))"
      using al(3) [symmetric] by (simp add: idx rw z table_index_page [OF that al(5,4)] eq_commute [of "get_table_index j"])
    also have "\<dots> = (if tm \<and> lo \<le> v \<and> v < j + PAGE_SIZE then pte_of v mode
       else read32 (pmem s) (entry_addr T (get_table_index v)))"
      using inv that in_page_step(1) [OF al(4,5), of v] pte_of_page [OF al(4), of v mode] al(6)
      by (auto simp: map_inv_def PAGE_SIZE_def in_page_def word_le_nat_alt word_less_nat_alt)
    finally show ?thesis .
  qed
  have dir: "read32 (pmem ?t) (entry_addr D i) =
      (if i = 0 \<and> lo < j + PAGE_SIZE then pde_of T mode else read32 (pmem s) (entry_addr D i))"
    if "unat i < 1024" for i
    using inv that al(3) lt by (auto simp: idx rw z map_inv_def)
  have out: "pmem ?t a = pmem s a" if "\<not> in_page D a" "\<not> in_page T a" for a
    using inv that al by (simp add: idx z map_inv_def write32_entry_outside index_bounds)
  have om: "only_mem s ?t"
    using inv only_mem_trans [of s t ?tb] only_mem_trans [of s ?tb ?t] by (auto simp: map_inv_def)
  have "map_inv T D tm mode lo s (j + PAGE_SIZE) ?t"
    unfolding map_inv_def using om tab dir out by blast
  then show ?thesis by (simp add: map_step_def)
qed

lemma map_loop:
  assumes al: "page_aligned T" "page_aligned D" "T \<noteq> D" "page_aligned lo" "page_aligned hi"
    and r: "lo \<le> hi" "unat hi \<le> 4194304"
    and body: "\<And>j t. only_mem s t \<Longrightarrow> body j t = map_step T D tm mode j t"
  shows "\<exists>t. for_up lo hi PAGE_SIZE body s = Inr t \<and>
    map_inv T D tm mode lo s hi t"
proof -
  let ?I = "\<lambda>j t. page_aligned j \<and> j \<le> hi \<and> map_inv T D tm mode lo s j t"
  have "\<exists>t j. for_up lo hi PAGE_SIZE body s = Inr t \<and> ?I j t \<and> lo \<le> j \<and> hi \<le> j"
  proof (rule for_up_rule)
    show "?I lo s" using al r by (auto simp: map_inv_def)
  next
    fix j t
    assume j: "lo \<le> j" "j < hi" "?I j t"
    have lt: "unat j < 4194304" using j(2) r(2) by (simp add: word_less_nat_alt)
    have u: "unat (j + PAGE_SIZE) = unat j + 4096" using j lt by (simp add: in_page_step(2) PAGE_SIZE_def)
    obtain a b where ab: "unat j = 4096 * a" "unat hi = 4096 * b"
      using page_alignedE [of j] page_alignedE [OF al(5)] j(3) by metis
    then have "a < b" using j(2) by (simp add: word_less_nat_alt)
    then have "page_aligned (j + PAGE_SIZE)" "j + PAGE_SIZE \<le> hi" "j < j + PAGE_SIZE"
      by (simp_all add: page_aligned_def u word_le_nat_alt word_less_nat_alt ab)
    moreover obtain t' where "body j t = Inr t'" "map_inv T D tm mode lo s (j + PAGE_SIZE) t'"
      using map_inv_step [OF al(1-3) _ lt j(1)] j(3) body [OF map_invD(1)] by metis
    ultimately show "j < j + PAGE_SIZE \<and> (\<exists>t'. body j t = Inr t' \<and> ?I (j + PAGE_SIZE) t')"
      by blast
  qed
  then obtain t j where t: "for_up lo hi PAGE_SIZE body s = Inr t" "?I j t" "hi \<le> j"
    by blast
  then have "j = hi" by simp
  with t show ?thesis by blast
qed

section \<open>The kernel area\<close>

text \<open>
  The table through which processes see the kernel area: every page is mapped to itself, for
  the kernel only, except the page of the text screen.
\<close>

definition kernel_table :: "u32 \<Rightarrow> pmem_t \<Rightarrow> u32 \<Rightarrow> bool" where
  "kernel_table vga_mode m U \<longleftrightarrow> (\<forall>v. unat v < 4194304 \<longrightarrow>
     read32 m (entry_addr U (get_table_index v)) =
       pte_of v (if in_page VGA_TEXT_PADDR v then vga_mode else kernel_mode))"

lemma vga_page: "page_aligned VGA_TEXT_PADDR" "unat VGA_TEXT_PADDR < 4194304"
  by (simp_all add: VGA_TEXT_PADDR_def page_aligned_def)

text \<open>What the two mapping loops leave, followed by the entries for page zero and the screen.\<close>

definition kernel_area ::
    "u32 \<Rightarrow> u32 \<Rightarrow> bool \<Rightarrow> u32 \<Rightarrow> 'd vm \<Rightarrow> 'd vm \<Rightarrow> bool" where
  "kernel_area U D tm vga_mode s t \<longleftrightarrow> only_mem s t \<and>
     (tm \<or> kernel_table vga_mode (pmem s) U \<longrightarrow> kernel_table vga_mode (pmem t) U) \<and>
     (\<forall>i. unat i < 1024 \<longrightarrow> read32 (pmem t) (entry_addr D i) =
        (if i = 0 then pde_of U vga_mode else read32 (pmem s) (entry_addr D i))) \<and>
     (\<forall>a. \<not> in_page D a \<and> \<not> in_page U a \<longrightarrow> pmem t a = pmem s a)"

lemma kernel_area_maps:
  assumes al: "page_aligned U" "page_aligned D" "U \<noteq> D"
    and body: "\<And>j t. only_mem s t \<Longrightarrow> body j t = map_step U D tm kernel_mode j t"
  shows "\<exists>s2. bindR (for_up 0 KERNEL_SIZE PAGE_SIZE body s)
      (for_up PAGING_AREA_MIN_PADDR PAGING_AREA_MAX_PADDR PAGE_SIZE body) = Inr s2 \<and>
    kernel_area U D tm vga_mode s
      (dir_ins_table D VGA_TEXT_PADDR U vga_mode
        (if tm then table_map_page U VGA_TEXT_PADDR VGA_TEXT_PADDR vga_mode
                      (dir_ins_table D 0 U kernel_mode s2)
         else dir_ins_table D 0 U kernel_mode s2))"
proof -
  have r: "page_aligned 0" "page_aligned KERNEL_SIZE" "page_aligned PAGING_AREA_MIN_PADDR"
    "page_aligned PAGING_AREA_MAX_PADDR" "unat KERNEL_SIZE = 4194304"
    "PAGING_AREA_MIN_PADDR \<le> PAGING_AREA_MAX_PADDR" "unat PAGING_AREA_MAX_PADDR \<le> 4194304"
    by (simp_all add: addr_defs page_aligned_def)
  obtain s1 where s1: "for_up 0 KERNEL_SIZE PAGE_SIZE body s = Inr s1"
    "map_inv U D tm kernel_mode 0 s KERNEL_SIZE s1"
    using map_loop [OF al r(1,2) _ _ body] r(5) by (auto simp: word_le_nat_alt)
  have "only_mem s s1" by (rule map_invD(1) [OF s1(2)])
  then have "only_mem s1 t \<Longrightarrow> body j t = map_step U D tm kernel_mode j t" for j t
    using body only_mem_trans by blast
  from map_loop [OF al r(3,4,6,7) this] obtain s2 where s2:
    "for_up PAGING_AREA_MIN_PADDR PAGING_AREA_MAX_PADDR PAGE_SIZE body s1 = Inr s2"
    "map_inv U D tm kernel_mode PAGING_AREA_MIN_PADDR s1 PAGING_AREA_MAX_PADDR s2" by blast
  let ?ta = "dir_ins_table D 0 U kernel_mode s2"
  let ?tb = "if tm then table_map_page U VGA_TEXT_PADDR VGA_TEXT_PADDR vga_mode ?ta else ?ta"
  let ?t = "dir_ins_table D VGA_TEXT_PADDR U vga_mode ?tb"
  have "only_mem s2 ?ta" "only_mem ?ta ?tb" "only_mem ?tb ?t" by simp_all
  then have om: "only_mem s ?t"
    using only_mem_trans [OF map_invD(1) [OF s1(2)] map_invD(1) [OF s2(2)]] only_mem_trans by blast
  have z: "get_directory_index VGA_TEXT_PADDR = 0" "get_directory_index 0 = 0" "unat (0 :: u32) < 1024"
    using directory_index_low [OF vga_page(2)] by (simp_all add: directory_index_low)
  note rw = read32_write32_entry index_bounds al z
  have tab: "read32 (pmem s2) (entry_addr U (get_table_index v)) =
      (if tm then pte_of v kernel_mode else read32 (pmem s) (entry_addr U (get_table_index v)))"
    if "unat v < 4194304" for v
  proof -
    have "v < KERNEL_SIZE" using that r(5) by (simp add: word_less_nat_alt)
    then show ?thesis using map_invD(2) [OF s1(2) that] map_invD(2) [OF s2(2) that] by simp
  qed
  have kt: "read32 (pmem ?t) (entry_addr U (get_table_index v)) =
      (if tm then pte_of v (if in_page VGA_TEXT_PADDR v then vga_mode else kernel_mode)
       else read32 (pmem s) (entry_addr U (get_table_index v)))" if "unat v < 4194304" for v
    using al(3) [symmetric] tab [OF that] pte_of_page [OF vga_page(1), of v vga_mode]
      table_index_page [OF that vga_page(2,1)]
    by (auto simp: rw)
  have dir: "read32 (pmem ?t) (entry_addr D i) =
        (if i = 0 then pde_of U vga_mode else read32 (pmem s) (entry_addr D i))" if "unat i < 1024" for i
    using al(3) map_invD(3) [OF s1(2) that] map_invD(3) [OF s2(2) that] that by (auto simp: rw)
  have out: "pmem ?t a = pmem s a" if "\<not> in_page D a" "\<not> in_page U a" for a
    using map_invD(4) [OF s1(2) that] map_invD(4) [OF s2(2) that] that al
    by (simp add: z write32_entry_outside index_bounds)
  have "tm \<or> kernel_table vga_mode (pmem s) U \<longrightarrow> kernel_table vga_mode (pmem ?t) U"
    unfolding kernel_table_def using kt by (cases tm) simp_all
  then have "kernel_area U D tm vga_mode s ?t" unfolding kernel_area_def using om dir out by blast
  moreover have "bindR (for_up 0 KERNEL_SIZE PAGE_SIZE body s)
      (for_up PAGING_AREA_MIN_PADDR PAGING_AREA_MAX_PADDR PAGE_SIZE body) = Inr s2"
    unfolding s1(1) bindR_Inr by (rule s2(1))
  ultimately show ?thesis by blast
qed

lemma user_setup_spec:
  assumes "page_aligned U" "page_aligned D" "U \<noteq> D" "user_kernel_ptable s = U"
  shows "\<exists>t. user_setup_kernel_vmem D ft s = Inr t \<and> kernel_area U D ft (user_mode OR PE_PCD) s t"
proof -
  let ?body = "\<lambda>paddr s.
            let s = (if ft then table_map_page (user_kernel_ptable s) paddr paddr kernel_mode s else s)
            in Inr (dir_ins_table D paddr (user_kernel_ptable s) kernel_mode s)"
  have body: "only_mem s t \<Longrightarrow> ?body j t = map_step U D ft kernel_mode j t" for j t
    using assms(4) by (auto simp: map_step_def Let_def dest: only_mem_fields(7))
  let ?m = "user_mode OR PE_PCD"
  obtain s2 where b: "bindR (for_up 0 KERNEL_SIZE PAGE_SIZE ?body s)
      (for_up PAGING_AREA_MIN_PADDR PAGING_AREA_MAX_PADDR PAGE_SIZE ?body) = Inr s2"
    and ka: "kernel_area U D ft ?m s (dir_ins_table D VGA_TEXT_PADDR U ?m
        (if ft then table_map_page U VGA_TEXT_PADDR VGA_TEXT_PADDR ?m (dir_ins_table D 0 U kernel_mode s2)
         else dir_ins_table D 0 U kernel_mode s2))"
    using kernel_area_maps [OF assms(1-3) body, where vga_mode = ?m] by blast
  from b obtain s1 where s1: "for_up 0 KERNEL_SIZE PAGE_SIZE ?body s = Inr s1"
    "for_up PAGING_AREA_MIN_PADDR PAGING_AREA_MAX_PADDR PAGE_SIZE ?body s1 = Inr s2"
    unfolding bindR_eq_Inr by blast
  have "user_kernel_ptable s2 = U"
    using only_mem_fields(7) [OF conjunct1 [OF ka [unfolded kernel_area_def]]] assms(4)
    by (simp split: if_splits)
  then have "user_setup_kernel_vmem D ft s = Inr (dir_ins_table D VGA_TEXT_PADDR U ?m
        (if ft then table_map_page U VGA_TEXT_PADDR VGA_TEXT_PADDR ?m (dir_ins_table D 0 U kernel_mode s2)
         else dir_ins_table D 0 U kernel_mode s2))"
    unfolding user_setup_kernel_vmem_def Let_def s1 [unfolded Let_def] bindR_Inr by simp
  with ka show ?thesis by blast
qed

section \<open>Frames in use\<close>

text \<open>No task's directory is in frame \<open>j\<close>.\<close>

definition no_directory :: "'d vm \<Rightarrow> nat \<Rightarrow> bool" where
  "no_directory s j \<longleftrightarrow> (\<forall>p. page_directory (pcb_at s p) \<noteq> frame_addr j)"

text \<open>Stores to frames without a directory keep the invariant.\<close>

lemma vm_inv_change:
  assumes inv: "vm_inv k A s" and fields: "infos s' = infos s" "page_free_head s' = page_free_head s"
      "fifo_queue s' = fifo_queue s" "kernel_pdir s' = kernel_pdir s" "pcb_at s' = pcb_at s"
      "disk s' = disk s" "\<And>l. l \<noteq> PageMapLock \<Longrightarrow> vm_locked s' l = vm_locked s l"
    and A': "A' \<subseteq> A"
    and mem: "\<And>d a. d < k \<Longrightarrow> d \<notin> A \<Longrightarrow> \<not> no_directory s d \<Longrightarrow> in_page (frame_addr d) a \<Longrightarrow>
      pmem s' a = pmem s a"
  shows "vm_inv k A' s'"
proof -
  have k: "k \<le> PAGEABLE_PAGES" using inv unfolding vm_inv_def free_from_def by blast
  have fifo: "in_fifo s' i = in_fifo s i" for i by (simp add: in_fifo_def fields)
  have tab: "tables_at s' k A' p v d t" if t: "tables_at s k A p v d t" for p v d t
  proof (rule tables_at_keep [OF t order_refl k])
    have "d < k" "d \<notin> A" "t \<notin> A" "\<not> in_fifo s d" "\<not> in_fifo s t"
      "page_directory (pcb_at s p) = frame_addr d"
      using t unfolding tables_at_def by blast+
    then show "d \<notin> A'" "t \<notin> A'" "\<not> in_fifo s' d" "\<not> in_fifo s' t"
      "\<And>a. in_page (frame_addr d) a \<Longrightarrow> pmem s' a = pmem s a"
      using A' fifo mem [of d] unfolding no_directory_def by blast+
  qed (simp add: fields)
  have ev: "evictable s' k A' i" if e: "evictable s k A i" for i
    by (rule evictable_keep [OF e order_refl k _ _ _ _ tab])
      (use e A' in \<open>auto simp: fields evictable_def\<close>)
  show ?thesis
    using inv ev unfolding vm_inv_def free_from_def fields using fields(7) by blast
qed

lemma vm_inv_owner:
  assumes inv: "vm_inv k A s" and j: "\<not> in_fifo s j" "j < k"
  shows "vm_inv k A (s\<lparr>infos := (infos s)(Info j := (infos s (Info j))\<lparr>fi_owner := p,
        next_shared_info := InfoNull, fi_vaddr := v, info_mode := m\<rparr>)\<rparr>)"
    (is "vm_inv k A ?s")
proof -
  have k: "k \<le> PAGEABLE_PAGES" using inv unfolding vm_inv_def free_from_def by blast
  have tab: "tables_at ?s k A p v d t = tables_at s k A p v d t" for p v d t
    by (simp add: tables_at_def in_fifo_def)
  have "evictable ?s k A (unat x)" if "x \<in> set (fifo_contents (fifo_queue s))" for x
  proof -
    have "unat x \<noteq> j" using j(1) that by (auto simp: in_fifo_def)
    moreover have "evictable s k A (unat x)" using inv that unfolding vm_inv_def by blast
    ultimately show ?thesis unfolding evictable_def tab by simp
  qed
  then show ?thesis using inv j(2) unfolding vm_inv_def free_from_def by auto
qed

text \<open>What every step of setting up an address space leaves alone.\<close>

definition vm_kept :: "'d vm \<Rightarrow> 'd vm \<Rightarrow> bool" where
  "vm_kept s t \<longleftrightarrow> pcb_at t = pcb_at s \<and> kernel_pdir t = kernel_pdir s \<and>
     user_kernel_ptable t = user_kernel_ptable s \<and> fifo_queue t = fifo_queue s \<and> disk t = disk s \<and>
     vm_locked t = vm_locked s \<and> first_process t = first_process s"

lemma vm_kept_trans: "vm_kept s t \<Longrightarrow> vm_kept t u \<Longrightarrow> vm_kept s u"
  by (simp add: vm_kept_def)

lemma vm_kept_refl [simp]: "vm_kept s s"
  by (simp add: vm_kept_def)

lemma vm_keptD:
  assumes "vm_kept s t"
  shows "pcb_at t = pcb_at s" "kernel_pdir t = kernel_pdir s" "user_kernel_ptable t = user_kernel_ptable s"
    "fifo_queue t = fifo_queue s" "disk t = disk s" "vm_locked t = vm_locked s"
    "first_process t = first_process s" "in_fifo t i = in_fifo s i" "no_directory t j = no_directory s j"
  using assms by (simp_all add: vm_kept_def in_fifo_def no_directory_def)

lemma only_mem_kept: "only_mem s t \<Longrightarrow> vm_kept s t"
  by (simp add: vm_kept_def only_mem_fields)

lemma zero_entry:
  assumes "page_aligned b" "unat i < 1024" "\<And>a. in_page b a \<Longrightarrow> m a = 0"
  shows "read32 m (entry_addr b i) = 0"
proof -
  have "read32 m (entry_addr b i) = read32 (\<lambda>_. 0) (entry_addr b i)"
    by (rule read32_entry_cong [OF _ assms(1,2)]) (simp add: assms(3))
  then show ?thesis by (simp add: read32_def)
qed

lemma entry_below:
  assumes "\<And>a. unat a < n \<Longrightarrow> m' a = m a" "page_aligned b" "unat b + 4096 \<le> n" "unat i < 1024"
  shows "read32 m' (entry_addr b i) = read32 m (entry_addr b i)"
  by (rule read32_entry_cong [OF _ assms(2,4)]) (use assms(1,3) in \<open>auto simp: in_page_def\<close>)

lemma alloc_frame:
  assumes inv: "vm_inv k A s" and k: "k < PAGEABLE_PAGES" and A: "A \<subseteq> {..<k}"
  shows "\<exists>t. allocate_page strategy s = Inr (frame_addr k, t) \<and> vm_inv (Suc k) (insert k A) t \<and>
    vm_kept s t \<and> fi_owner (infos t (Info k)) = 0 \<and> \<not> in_fifo t k \<and>
    (\<forall>i. i \<noteq> k \<longrightarrow> infos t (Info i) = infos s (Info i)) \<and>
    (\<forall>i. unat i < 1024 \<longrightarrow> read32 (pmem t) (entry_addr (frame_addr k) i) = 0) \<and>
    (\<forall>a. unat a < unat (frame_addr k) \<longrightarrow> pmem t a = pmem s a)"
proof -
  from allocate_free [OF inv k A, of strategy] obtain t where t:
    "allocate_page strategy s = Inr (frame_addr k, t)" "allocated k A s k (Suc k) t" "disk t = disk s"
    "fifo_queue t = fifo_queue s"
    "infos t = (infos s)(Info k := (infos s (Info k))\<lparr>next_free_page := InfoNull\<rparr>)"
    "\<forall>a. pmem t a = (if unat (frame_addr k) \<le> unat a \<and> unat a < unat (frame_addr k) + 16384
                      then 0 else pmem s a)" by blast
  have k': "k < 1000" using k by (simp add: PAGEABLE_PAGES_def)
  have kept: "vm_kept s t" and inv': "vm_inv (Suc k) (insert k A) t" "\<not> in_fifo t k"
    "fi_owner (infos t (Info k)) = 0"
    using t(2-4) unfolding allocated_def same_vm_def vm_kept_def by blast+
  have "read32 (pmem t) (entry_addr (frame_addr k) i) = 0" if "unat i < 1024" for i
    by (rule zero_entry [OF frame_addr_aligned [OF k'] that]) (simp add: t(6) in_page_def)
  then show ?thesis using t(1,5,6) kept inv' by auto
qed

lemma pin_frame:
  assumes inv: "vm_inv k A s" and j: "j < k" "\<not> in_fifo s j" "fi_owner (infos s (Info j)) = 0"
  shows "\<exists>t. insert_page_frame_info (frame_addr j) v p m s = Inr (Info j, t) \<and> vm_inv k A t \<and>
    vm_kept s t \<and> pmem t = pmem s \<and> (\<forall>i. i \<noteq> j \<longrightarrow> infos t (Info i) = infos s (Info i))"
proof -
  let ?t = "s\<lparr>infos := (infos s)(Info j := (infos s (Info j))\<lparr>fi_owner := p,
        next_shared_info := InfoNull, fi_vaddr := v AND 0xfffff000, info_mode := m\<rparr>)\<rparr>"
  have "j < PAGEABLE_PAGES" using inv j(1) unfolding vm_inv_def free_from_def by auto
  then have "insert_page_frame_info (frame_addr j) v p m s = Inr (Info j, ?t)"
    using j(3) by (simp add: insert_page_frame_info_def info_ref_frame_addr Let_def upd_info_def)
  moreover have "vm_kept s ?t" by (simp add: vm_kept_def)
  ultimately show ?thesis using vm_inv_owner [OF inv j(2,1)] by auto
qed

lemma inc_pinned:
  assumes inv: "vm_inv k A s"
  shows "\<exists>t. inc_pinned_pages n s = Inr t \<and> vm_inv k A t \<and> vm_kept s t \<and> pmem t = pmem s \<and>
    infos t = infos s"
proof -
  have l: "\<not> vm_locked s PinnedPagesCounterLock" using inv unfolding vm_inv_def by blast
  let ?t = "s\<lparr>number_of_pinned_page_frames := number_of_pinned_page_frames s + n\<rparr>"
  have "inc_pinned_pages n s = Inr ?t"
    using l by (simp add: inc_pinned_pages_def vm_acquire_def vm_release_def fun_upd_idem)
  moreover have "vm_inv k A ?t" by (rule vm_inv_change [OF inv]) simp_all
  ultimately show ?thesis by (auto simp: vm_kept_def)
qed

section \<open>Translation of the kernel area\<close>

lemma mode_bits:
  "bit kernel_mode 0" "\<not> bit kernel_mode 2" "bit (user_mode OR PE_PCD) 0" "bit (user_mode OR PE_PCD) 2"
  "bit (kernel_mode OR PE_PCD) 0" "\<not> bit (kernel_mode OR PE_PCD) 2"
  by (simp_all add: kernel_mode_def user_mode_def pe_bits bit_simps)

lemma page_split: "(v AND PE_BASE_ADDR_MASK) OR (v AND 0xfff) = v"
  by (rule bit_word_eqI) (auto simp: pe_masks bit_simps)

lemma kernel_area_translate:
  assumes al: "page_aligned D" "page_aligned U" and kt: "kernel_table vm m U"
    and d: "read32 m (entry_addr D 0) = pde_of U vm" and vm: "bit vm 0" and v: "unat v < 4194304"
  shows "mmu_translate m D user v =
    (if user \<and> \<not> (bit vm 2 \<and> in_page VGA_TEXT_PADDR v) then None else Some v)"
proof -
  let ?pte = "pte_of v (if in_page VGA_TEXT_PADDR v then vm else kernel_mode)"
  have pte: "read32 m (entry_addr U (get_table_index v)) = ?pte"
    using kt v unfolding kernel_table_def by blast
  have "mmu_walk m D v = Some (pde_of U vm, ?pte)"
    using vm mode_bits(1)
    by (simp add: mmu_walk_eq [OF al(1)] directory_index_low [OF v] d pde_of_base Let_def
        page_aligned_and_mask [OF al(2)] pte bit_pde_of bit_pte_of)
  then show ?thesis
    using mode_bits(2) by (auto simp: mmu_translate_def bit_pde_of bit_pte_of pte_of_base page_split)
qed

section \<open>Initialisation\<close>

lemma vm_inv_no_queue:
  "fifo_contents (fifo_queue s) = [] \<Longrightarrow> vm_inv k A s \<longleftrightarrow> free_from k s \<and> fifo_invar (fifo_queue s) \<and>
     (\<forall>l. l \<noteq> PageMapLock \<longrightarrow> \<not> vm_locked s l) \<and> \<not> scsi_dev_lock (disk s)"
  by (simp add: vm_inv_def)

text \<open>The common part: a table for directory \<open>D\<close> of the kernel.\<close>

lemma setup_common_spec:
  assumes inv: "vm_inv k A s" and k: "Suc k \<le> PAGEABLE_PAGES" "0 < k" and A: "A \<subseteq> {..<k}"
    and D: "D = frame_addr (k - 1)" and nd: "\<And>j. j \<in> {k - 1, k} \<Longrightarrow> no_directory s j"
  shows "\<exists>t. setup_kernel_vmem_common strategy p D False s = Inr t \<and> vm_inv (Suc k) (insert k A) t \<and>
    vm_kept s t \<and> kernel_table (kernel_mode OR PE_PCD) (pmem t) (frame_addr k) \<and>
    (\<forall>i. unat i < 1024 \<longrightarrow> read32 (pmem t) (entry_addr D i) =
       (if i = 0 then pde_of (frame_addr k) (kernel_mode OR PE_PCD) else read32 (pmem s) (entry_addr D i)))"
proof -
  have k': "k < PAGEABLE_PAGES" "k < 1000" "k - 1 < 1000" using k by (simp_all add: PAGEABLE_PAGES_def)
  let ?T = "frame_addr k" and ?m = "kernel_mode OR PE_PCD"
  obtain s1 where s1: "allocate_page strategy s = Inr (?T, s1)" "vm_inv (Suc k) (insert k A) s1"
    "vm_kept s s1" "fi_owner (infos s1 (Info k)) = 0" "\<not> in_fifo s1 k"
    "\<forall>a. unat a < unat ?T \<longrightarrow> pmem s1 a = pmem s a"
    using alloc_frame [OF inv k'(1) A, of strategy] by blast
  obtain s2 where s2: "insert_page_frame_info ?T ?T p PE_INFO_PINNED s1 = Inr (Info k, s2)"
    "vm_inv (Suc k) (insert k A) s2" "vm_kept s1 s2" "pmem s2 = pmem s1"
    using pin_frame [OF s1(2) lessI s1(5,4)] by blast
  obtain s3 where s3: "inc_pinned_pages 1 s2 = Inr s3" "vm_inv (Suc k) (insert k A) s3" "vm_kept s2 s3"
    "pmem s3 = pmem s2" using inc_pinned [OF s2(2)] by blast
  have al: "page_aligned ?T" "page_aligned D" "?T \<noteq> D"
    using k k' by (simp_all add: D frame_addr_aligned frame_addr_inj)
  let ?body = "\<lambda>paddr s. let s = table_map_page ?T paddr paddr kernel_mode s
             in Inr (dir_ins_table D paddr ?T kernel_mode s)"
  have body: "only_mem s3 t \<Longrightarrow> ?body j t = map_step ?T D True kernel_mode j t" for j t
    by (simp add: map_step_def)
  obtain s4 where b: "bindR (for_up 0 KERNEL_SIZE PAGE_SIZE ?body s3)
      (for_up PAGING_AREA_MIN_PADDR PAGING_AREA_MAX_PADDR PAGE_SIZE ?body) = Inr s4"
    and ka: "kernel_area ?T D True ?m s3 (dir_ins_table D VGA_TEXT_PADDR ?T ?m
        (table_map_page ?T VGA_TEXT_PADDR VGA_TEXT_PADDR ?m (dir_ins_table D 0 ?T kernel_mode s4)))"
      (is "kernel_area _ _ _ _ _ ?t")
    using kernel_area_maps [OF al body, where vga_mode = ?m] unfolding if_True by blast
  from b obtain s5 where s5: "for_up 0 KERNEL_SIZE PAGE_SIZE ?body s3 = Inr s5"
    "for_up PAGING_AREA_MIN_PADDR PAGING_AREA_MAX_PADDR PAGE_SIZE ?body s5 = Inr s4"
    unfolding bindR_eq_Inr by blast
  have run: "setup_kernel_vmem_common strategy p D False s = Inr ?t"
    unfolding setup_kernel_vmem_common_def s1(1) bindR_Inr prod.case s2(1) s3(1) Let_def
      s5 [unfolded Let_def] by simp
  note ka' = ka [unfolded kernel_area_def]
  have kept: "vm_kept s ?t"
    using s1(3) s2(3) s3(3) only_mem_kept [OF conjunct1 [OF ka']] vm_kept_trans by blast
  have out: "pmem ?t a = pmem s3 a" if "\<not> in_page D a" "\<not> in_page ?T a" for a using ka' that by blast
  have "vm_inv (Suc k) (insert k A) ?t"
  proof (rule vm_inv_change [OF s3(2)])
    have om: "only_mem s3 ?t" using ka' by blast
    note f = only_mem_fields [OF om]
    show "infos ?t = infos s3" "page_free_head ?t = page_free_head s3" "fifo_queue ?t = fifo_queue s3"
      "kernel_pdir ?t = kernel_pdir s3" "pcb_at ?t = pcb_at s3" "disk ?t = disk s3"
      by (rule f)+
    show "vm_locked ?t l = vm_locked s3 l" for l by (simp only: f)
    fix d a
    assume d: "d < Suc k" "d \<notin> insert k A" "\<not> no_directory s3 d" "in_page (frame_addr d) a"
    have kk: "vm_kept s s3" using s1(3) s2(3) s3(3) vm_kept_trans by blast
    have "d \<noteq> k - 1" "d \<noteq> k" using nd d(3) vm_keptD(9) [OF kk] by auto
    then show "pmem ?t a = pmem s3 a"
      using d(1,4) k' by (intro out) (auto simp: D in_page_def unat_frame_addr)
  qed simp
  moreover have "read32 (pmem s3) (entry_addr D i) = read32 (pmem s) (entry_addr D i)" if "unat i < 1024" for i
    using s1(6) s2(4) s3(4) al(2) that k k' by (intro entry_below [of "unat ?T"]) (auto simp: D unat_frame_addr)
  ultimately show ?thesis using run kept ka' by auto
qed

lemma setup_kernel_spec:
  assumes inv: "vm_inv 0 {} s" and q: "fifo_contents (fifo_queue s) = []"
    and l: "\<not> vm_locked s PageMapLock" and nd: "\<And>j. j < 3 \<Longrightarrow> no_directory s j"
  shows "\<exists>t. setup_kernel_vmem strategy s = Inr t \<and> vm_inv 3 {} t \<and> fifo_queue t = fifo_queue s \<and>
    vm_locked t = vm_locked s \<and> kernel_pdir t = frame_addr 0 \<and> user_kernel_ptable t = frame_addr 2 \<and>
    first_process t = first_process s \<and> disk t = disk s \<and>
    pcb_at t = (pcb_at s)(dummy_kernel_pcb := (pcb_at s dummy_kernel_pcb)\<lparr>is_thread := 1\<rparr>) \<and>
    kernel_table (kernel_mode OR PE_PCD) (pmem t) (frame_addr 1) \<and>
    (\<forall>i. unat i < 1024 \<longrightarrow> read32 (pmem t) (entry_addr (frame_addr 0) i) =
       (if i = 0 then pde_of (frame_addr 1) (kernel_mode OR PE_PCD) else 0))"
proof -
  let ?m = "kernel_mode OR PE_PCD" and ?im = "PE_INFO_PINNED OR PE_INFO_KERNEL_DUMMY"
  let ?s = "upd_pcb dummy_kernel_pcb (\<lambda>r. r\<lparr>is_thread := 1\<rparr>)
              (s\<lparr>vm_locked := (vm_locked s)(PageMapLock := True)\<rparr>)"
  have pd: "page_directory (pcb_at ?s p) = page_directory (pcb_at s p)" for p
    by (simp add: pcb_at_upd_pcb)
  then have nd': "no_directory ?s j" if "j < 3" for j using nd [OF that] by (simp add: no_directory_def)
  have inv0: "vm_inv 0 {} ?s"
    using inv q by (simp add: vm_inv_no_queue free_from_def)
  have P: "(0 :: nat) < PAGEABLE_PAGES" "(2 :: nat) < PAGEABLE_PAGES" "Suc 1 \<le> PAGEABLE_PAGES"
    by (simp_all add: PAGEABLE_PAGES_def)
  obtain s1 where s1: "allocate_page strategy ?s = Inr (frame_addr 0, s1)" "vm_inv 1 {0} s1" "vm_kept ?s s1"
    "fi_owner (infos s1 (Info 0)) = 0" "\<not> in_fifo s1 0"
    "\<forall>i. unat i < 1024 \<longrightarrow> read32 (pmem s1) (entry_addr (frame_addr 0) i) = 0"
    using alloc_frame [OF inv0 P(1), of strategy] by auto
  let ?s1 = "s1\<lparr>kernel_pdir := frame_addr 0\<rparr>"
  have q1: "fifo_contents (fifo_queue s1) = []" using vm_keptD(4) [OF s1(3)] q by simp
  have "vm_inv 1 {0} ?s1" using s1(2) q1 by (simp add: vm_inv_no_queue free_from_def)
  then obtain s2 where s2: "insert_page_frame_info (frame_addr 0) (frame_addr 0) dummy_kernel_pcb ?im ?s1 =
      Inr (Info 0, s2)" "vm_inv 1 {0} s2" "vm_kept ?s1 s2" "pmem s2 = pmem s1"
    using pin_frame [of 1 "{0}" ?s1 0 "frame_addr 0" dummy_kernel_pcb ?im] s1(4,5) by (auto simp: in_fifo_def)
  obtain s3 where s3: "inc_pinned_pages 1 s2 = Inr s3" "vm_inv 1 {0} s3" "vm_kept s2 s3" "pmem s3 = pmem s2"
    using inc_pinned [OF s2(2)] by blast
  have k3: "vm_kept ?s1 s3" using s2(3) s3(3) vm_kept_trans by blast
  have nd3: "no_directory s3 j" if "j < 3" for j
    using nd' [OF that] vm_keptD(1) [OF k3] vm_keptD(1) [OF s1(3)] by (simp add: no_directory_def)
  have nd4: "no_directory s3 j" if "j \<in> {1 - 1, 1}" for j using nd3 that by auto
  obtain s4 where s4: "setup_kernel_vmem_common strategy dummy_kernel_pcb (frame_addr 0) False s3 = Inr s4"
    "vm_inv 2 {1, 0} s4" "vm_kept s3 s4" "kernel_table ?m (pmem s4) (frame_addr 1)"
    "\<forall>i. unat i < 1024 \<longrightarrow> read32 (pmem s4) (entry_addr (frame_addr 0) i) =
       (if i = 0 then pde_of (frame_addr 1) ?m else read32 (pmem s3) (entry_addr (frame_addr 0) i))"
    using setup_common_spec [OF s3(2) P(3) _ _ _ nd4, of "frame_addr 0" strategy dummy_kernel_pcb]
    by (auto simp: numeral_2_eq_2)
  obtain s5 where s5: "allocate_page strategy s4 = Inr (frame_addr 2, s5)" "vm_inv 3 {2, 1, 0} s5"
    "vm_kept s4 s5" "fi_owner (infos s5 (Info 2)) = 0" "\<not> in_fifo s5 2"
    "\<forall>a. unat a < unat (frame_addr 2) \<longrightarrow> pmem s5 a = pmem s4 a"
    using alloc_frame [OF s4(2) P(2), of strategy] by (auto simp: numeral_3_eq_3)
  let ?s5 = "s5\<lparr>user_kernel_ptable := frame_addr 2\<rparr>"
  have "vm_inv 3 {2, 1, 0} ?s5" by (rule vm_inv_change [OF s5(2)]) simp_all
  then obtain s6 where s6: "insert_page_frame_info (frame_addr 2) (frame_addr 2) dummy_kernel_pcb ?im ?s5 =
      Inr (Info 2, s6)" "vm_inv 3 {2, 1, 0} s6" "vm_kept ?s5 s6" "pmem s6 = pmem s5"
    using pin_frame [of 3 "{2, 1, 0}" ?s5 2 "frame_addr 2" dummy_kernel_pcb ?im] s5(4,5) by (auto simp: in_fifo_def)
  obtain s7 where s7: "inc_pinned_pages 1 s6 = Inr s7" "vm_inv 3 {2, 1, 0} s7" "vm_kept s6 s7" "pmem s7 = pmem s6"
    using inc_pinned [OF s6(2)] by blast
  have run: "setup_kernel_vmem strategy s = Inr (vm_release PageMapLock s7)"
    using l s1(1) s2(1) s3(1) s4(1) s5(1) s6(1) s7(1)
    by (simp add: setup_kernel_vmem_def vm_acquire_def PROCESSES_SHARE_KERNEL_PAGE_TABLE_def)
  have k7: "vm_kept ?s5 s7" using s6(3) s7(3) vm_kept_trans by blast
  have k5: "vm_kept s3 s5" using s4(3) s5(3) vm_kept_trans by blast
  have "vm_inv 3 {} (vm_release PageMapLock s7)"
    by (rule vm_inv_change [OF s7(2)]) (simp_all add: vm_release_def)
  moreover have mem: "read32 (pmem s7) (entry_addr (frame_addr j) i) = read32 (pmem s4) (entry_addr (frame_addr j) i)"
    if "unat i < 1024" "j < 2" for i j
    unfolding s7(4) s6(4)
    by (rule entry_below [of "unat (frame_addr 2)"])
      (use s5(6) that in \<open>auto simp: frame_addr_aligned unat_frame_addr\<close>)
  moreover have "kernel_table ?m (pmem s7) (frame_addr 1)"
    using s4(4) mem [of _ 1] by (simp add: kernel_table_def index_bounds)
  moreover have "read32 (pmem s7) (entry_addr (frame_addr 0) i) =
       (if i = 0 then pde_of (frame_addr 1) ?m else 0)" if "unat i < 1024" for i
    using mem [OF that, of 0] s4(5) s1(6) that by (simp add: s3(4) s2(4))
  moreover have "kernel_pdir s7 = frame_addr 0" "user_kernel_ptable s7 = frame_addr 2"
    "fifo_queue s7 = fifo_queue s" "first_process s7 = first_process s" "disk s7 = disk s"
    "pcb_at s7 = pcb_at ?s" "vm_locked s7 = vm_locked ?s"
    using vm_keptD [OF k7] vm_keptD [OF k5] vm_keptD [OF k3] vm_keptD [OF s1(3)] by simp_all
  ultimately show ?thesis using run l by (auto simp: vm_release_def fun_upd_idem upd_pcb_def)
qed

lemma init_memory_spec:
  assumes "\<And>l. \<not> vm_locked s l" "\<not> scsi_dev_lock (disk s)" "\<And>j. j < 3 \<Longrightarrow> no_directory s j"
  shows "\<exists>t. init_memory strategy s = Inr t \<and> vm_inv 3 {} t \<and> fifo_contents (fifo_queue t) = [] \<and>
    vm_locked t = vm_locked s \<and> kernel_pdir t = frame_addr 0 \<and> user_kernel_ptable t = frame_addr 2 \<and>
    first_process t = first_process s \<and> disk t = disk s \<and>
    pcb_at t = (pcb_at s)(dummy_kernel_pcb := (pcb_at s dummy_kernel_pcb)\<lparr>is_thread := 1\<rparr>) \<and>
    kernel_table (kernel_mode OR PE_PCD) (pmem t) (frame_addr 1) \<and>
    (\<forall>i. unat i < 1024 \<longrightarrow> read32 (pmem t) (entry_addr (frame_addr 0) i) =
       (if i = 0 then pde_of (frame_addr 1) (kernel_mode OR PE_PCD) else 0))"
proof -
  let ?s = "(initialize_page_frame_infos s)\<lparr>fifo_queue := fifo_init, next_free_mem := PAGING_AREA_MIN_PADDR\<rparr>"
  obtain f where i: "initialize_page_frame_infos s = s\<lparr>infos := f, page_free_head := Info 0\<rparr>"
    using initialize_page_frame_infos_free [of s] by blast
  have fr: "free_from 0 ?s"
    using initialize_page_frame_infos_free [of s] by (simp add: free_from_def)
  have inv: "vm_inv 0 {} ?s"
    using fr assms(1,2) by (simp add: vm_inv_def fifo_init_invar i)
  have q: "fifo_contents (fifo_queue ?s) = []" "\<not> vm_locked ?s PageMapLock"
    using assms by (simp_all add: fifo_init_invar i)
  have "no_directory ?s j" if "j < 3" for j
    using assms(3) [OF that] by (simp add: i no_directory_def)
  from setup_kernel_spec [OF inv q this, of strategy] show ?thesis
    by (auto simp: init_memory_def Let_def i fifo_init_invar)
qed

section \<open>Processes\<close>

text \<open>The same memory manager but for memory and interrupt state.\<close>

definition frames_kept :: "'d vm \<Rightarrow> 'd vm \<Rightarrow> bool" where
  "frames_kept s t \<longleftrightarrow> vm_kept s t \<and> infos t = infos s \<and> page_free_head t = page_free_head s"

lemma frames_kept_trans: "frames_kept s t \<Longrightarrow> frames_kept t u \<Longrightarrow> frames_kept s u"
  by (auto simp: frames_kept_def vm_kept_def)

lemma frames_kept_steps [simp]:
  "frames_kept s s" "frames_kept s (nointerrupt_enter s)" "frames_kept s (nointerrupt_leave s)"
  "frames_kept s (table_map_page T v p m s)" "frames_kept s (dir_ins_table D v T m s)"
  by (simp_all add: frames_kept_def vm_kept_def)

lemma vm_inv_frames_kept:
  assumes "vm_inv k A s" "frames_kept s t"
    and "\<And>d a. d < k \<Longrightarrow> d \<notin> A \<Longrightarrow> \<not> no_directory s d \<Longrightarrow> in_page (frame_addr d) a \<Longrightarrow>
      pmem t a = pmem s a"
  shows "vm_inv k A t"
  by (rule vm_inv_change [OF assms(1) _ _ _ _ _ _ _ order_refl assms(3)])
    (use assms(2) in \<open>simp_all add: frames_kept_def vm_kept_def\<close>)

lemma map_image_spec:
  assumes al: "page_aligned T" and sz: "unat (swap_size (pcb_at s p)) \<le> 8192"
    and z: "\<And>i. unat i < 1024 \<Longrightarrow> \<not> bit (read32 (pmem s) (entry_addr T i)) 0"
    and mode: "\<not> bit mode 0"
  shows "\<exists>t. map_image_pages p T mode s = Inr t \<and> frames_kept s t \<and>
    (\<forall>i. unat i < 1024 \<longrightarrow> \<not> bit (read32 (pmem t) (entry_addr T i)) 0) \<and>
    (\<forall>a. \<not> in_page T a \<longrightarrow> pmem t a = pmem s a)"
proof -
  let ?lim = "swap_size (pcb_at s p) * SECTOR_SIZE"
  let ?body = "\<lambda>offset s.
        let paddr = swap_loc (pcb_at s p) * SECTOR_SIZE + offset;
            vaddr = PROCESS_VADDR + offset;
            s = nointerrupt_leave (nointerrupt_enter s)
        in Inr (table_map_page T vaddr paddr mode s)"
  let ?I = "\<lambda>_ t. frames_kept s t \<and>
    (\<forall>i. unat i < 1024 \<longrightarrow> \<not> bit (read32 (pmem t) (entry_addr T i)) 0) \<and>
    (\<forall>a. \<not> in_page T a \<longrightarrow> pmem t a = pmem s a)"
  have lim: "unat ?lim \<le> 4194304" using sz by (simp add: SECTOR_SIZE_def unat_word_ariths)
  have "\<exists>t j. for_up 0 ?lim PAGE_SIZE ?body s = Inr t \<and> ?I j t \<and> 0 \<le> j \<and> ?lim \<le> j"
  proof (rule for_up_rule)
    show "?I 0 s" using z by simp
  next
    fix j :: u32 and t
    assume j: "j < ?lim" and I: "?I j t"
    let ?t = "table_map_page T (PROCESS_VADDR + j) (swap_loc (pcb_at t p) * SECTOR_SIZE + j) mode
                (nointerrupt_leave (nointerrupt_enter t))"
    have "j < j + PAGE_SIZE" using j lim by (simp add: PAGE_SIZE_def word_less_nat_alt unat_word_ariths)
    moreover have "frames_kept s ?t"
      using I frames_kept_trans frames_kept_steps by (meson frames_kept_steps)
    moreover have "\<not> bit (read32 (pmem ?t) (entry_addr T i)) 0" if "unat i < 1024" for i
      using I that mode al by (simp add: read32_write32_entry index_bounds bit_pte_of)
    moreover have "pmem ?t a = pmem s a" if "\<not> in_page T a" for a
      using I that al by (simp add: write32_entry_outside index_bounds)
    ultimately show "j < j + PAGE_SIZE \<and> (\<exists>t'. ?body j t = Inr t' \<and> ?I (j + PAGE_SIZE) t')"
      by (simp add: Let_def)
  qed
  then show ?thesis by (auto simp: map_image_pages_def Let_def)
qed

text \<open>The access mode of a process's own pages, and the table index of its stack.\<close>

definition PROC_MODE :: u32 where "PROC_MODE = PE_RW OR PE_US"
definition STACK_INDEX :: u32 where "STACK_INDEX = get_table_index PROCESS_STACK_VADDR"

text \<open>
  The address space of process \<open>p\<close>: its directory in frame \<open>k\<close>, its page table in frame
  \<open>k + 1\<close>, its stack in frame \<open>k + 2\<close>, and the kernel's area through the shared table at \<open>U\<close>.
\<close>

definition address_space :: "'d vm \<Rightarrow> nat \<Rightarrow> pcb_ptr \<Rightarrow> u32 \<Rightarrow> bool" where
  "address_space s k p U \<longleftrightarrow> page_directory (pcb_at s p) = frame_addr k \<and>
     kernel_table (user_mode OR PE_PCD) (pmem s) U \<and>
     (\<forall>i. unat i < 1024 \<longrightarrow> read32 (pmem s) (entry_addr (frame_addr k) i) =
        (if i = 0 then pde_of U (user_mode OR PE_PCD)
         else if i = get_directory_index PROCESS_VADDR \<or> i = get_directory_index PROCESS_STACK_VADDR
         then pde_of (frame_addr (k + 1)) (PROC_MODE OR PE_P) else 0)) \<and>
     (\<forall>i. unat i < 1024 \<longrightarrow>
        (if i = STACK_INDEX
         then read32 (pmem s) (entry_addr (frame_addr (k + 1)) i) =
           pte_of (frame_addr (k + 2)) (PROC_MODE OR PE_P)
         else \<not> bit (read32 (pmem s) (entry_addr (frame_addr (k + 1)) i)) 0))"

definition process_ready :: "'d vm \<Rightarrow> nat \<Rightarrow> pcb_ptr \<Rightarrow> nat \<Rightarrow> bool" where
  "process_ready s k p u \<longleftrightarrow> vm_inv k {} s \<and> k + 3 \<le> PAGEABLE_PAGES \<and> \<not> vm_locked s PageMapLock \<and>
     is_thread (pcb_at s p) = 0 \<and> unat (swap_size (pcb_at s p)) \<le> 8192 \<and>
     (\<forall>x \<in> set (fifo_contents (fifo_queue s)). fi_owner (infos s (Info (unat x))) \<noteq> p) \<and>
     u < k \<and> user_kernel_ptable s = frame_addr u \<and> no_directory s u \<and>
     (\<forall>j. k \<le> j \<and> j < k + 3 \<longrightarrow> no_directory s j) \<and>
     (first_process s \<noteq> 0 \<or> kernel_table (user_mode OR PE_PCD) (pmem s) (frame_addr u))"

lemma vm_inv_new_directory:
  assumes inv: "vm_inv k A s" and own: "\<And>x. x \<in> set (fifo_contents (fifo_queue s)) \<Longrightarrow> fi_owner (infos s (Info (unat x))) \<noteq> p"
    and d: "d \<in> A" "d < k"
  shows "vm_inv k A (upd_pcb p (\<lambda>r. r\<lparr>page_directory := frame_addr d\<rparr>) s)" (is "vm_inv k A ?s")
proof -
  have k: "k \<le> PAGEABLE_PAGES" using inv unfolding vm_inv_def free_from_def by blast
  have tab: "tables_at ?s k A q v e t" if t: "tables_at s k A q v e t" and "q \<noteq> p" for q v e t
  proof -
    have "t \<noteq> d" "t < k" using t d(1) unfolding tables_at_def by blast+
    then have "frame_addr d \<noteq> frame_addr t" using k d(2) by (simp add: frame_addr_inj PAGEABLE_PAGES_def)
    then show ?thesis using t that(2) by (simp add: tables_at_def pcb_at_upd_pcb in_fifo_def)
  qed
  have "evictable ?s k A (unat x)" if x: "x \<in> set (fifo_contents (fifo_queue s))" for x
  proof -
    let ?q = "fi_owner (infos s (Info (unat x)))"
    have q: "?q \<noteq> p" by (rule own [OF x])
    have "evictable s k A (unat x)" using inv x unfolding vm_inv_def by blast
    then show ?thesis using q tab [OF _ q] unfolding evictable_def
      by (auto simp: pcb_at_upd_pcb) blast
  qed
  then show ?thesis using inv unfolding vm_inv_def free_from_def by auto
qed

lemma page_kept:
  assumes "\<And>a. unat a < unat (frame_addr n) \<Longrightarrow> m' a = m a" "j < n" "n < 1000" "unat i < 1024"
  shows "read32 m' (entry_addr (frame_addr j) i) = read32 m (entry_addr (frame_addr j) i)"
proof -
  have "unat (frame_addr j) + 4096 \<le> unat (frame_addr n)" using assms(2,3) by (simp add: unat_frame_addr)
  then show ?thesis using assms(2-4) by (intro entry_below [OF assms(1)] frame_addr_aligned) simp_all
qed

text \<open>The first half of \<open>setup_process_vmem\<close>: the directory, with the kernel's area in it.\<close>

lemma new_directory:
  assumes pr: "process_ready s k p u"
    and im: "imode = PE_INFO_USER_MODE OR PE_INFO_PINNED"
    and s0: "s0 = s\<lparr>vm_locked := (vm_locked s)(PageMapLock := True)\<rparr>"
  shows "\<exists>s1 s2 s3. allocate_page strategy s0 = Inr (frame_addr k, s1) \<and>
    insert_page_frame_info (frame_addr k) (frame_addr k) p imode s1 = Inr (Info k, s2) \<and>
    (if first_process s2 \<noteq> 0 then
       (let s = nointerrupt_enter s2;
            s = s\<lparr>first_process_pid := pid (pcb_at s p)\<rparr>;
            s = s\<lparr>first_process := 0\<rparr>;
            s = nointerrupt_leave s
        in user_setup_kernel_vmem (frame_addr k) True s)
     else user_setup_kernel_vmem (frame_addr k) False s2) = Inr s3 \<and>
    vm_inv (Suc k) {k} s3 \<and> pcb_at s3 = pcb_at s \<and> user_kernel_ptable s3 = frame_addr u \<and>
    fifo_queue s3 = fifo_queue s \<and> vm_locked s3 = vm_locked s0 \<and>
    disk s3 = disk s \<and> kernel_pdir s3 = kernel_pdir s \<and>
    (\<forall>i. i \<noteq> k \<longrightarrow> infos s3 (Info i) = infos s (Info i)) \<and>
    kernel_table (user_mode OR PE_PCD) (pmem s3) (frame_addr u) \<and>
    (\<forall>i. unat i < 1024 \<longrightarrow> read32 (pmem s3) (entry_addr (frame_addr k) i) =
        (if i = 0 then pde_of (frame_addr u) (user_mode OR PE_PCD) else 0)) \<and>
    (\<forall>a. unat a < unat (frame_addr k) \<and> \<not> in_page (frame_addr u) a \<longrightarrow> pmem s3 a = pmem s a)"
proof -
  have pr': "vm_inv k {} s" "k + 3 \<le> PAGEABLE_PAGES" "u < k" "user_kernel_ptable s = frame_addr u"
    "no_directory s u" "no_directory s k"
    "first_process s \<noteq> 0 \<or> kernel_table (user_mode OR PE_PCD) (pmem s) (frame_addr u)"
    using pr unfolding process_ready_def by auto
  have k: "k < PAGEABLE_PAGES" "k < 1000" "u < 1000" using pr'(2,3) by (simp_all add: PAGEABLE_PAGES_def)
  have inv0: "vm_inv k {} s0" unfolding s0 by (rule vm_inv_change [OF pr'(1)]) simp_all
  obtain s1 where s1: "allocate_page strategy s0 = Inr (frame_addr k, s1)" "vm_inv (Suc k) {k} s1"
    "vm_kept s0 s1" "fi_owner (infos s1 (Info k)) = 0" "\<not> in_fifo s1 k"
    "\<forall>i. i \<noteq> k \<longrightarrow> infos s1 (Info i) = infos s0 (Info i)"
    "\<forall>i. unat i < 1024 \<longrightarrow> read32 (pmem s1) (entry_addr (frame_addr k) i) = 0"
    "\<forall>a. unat a < unat (frame_addr k) \<longrightarrow> pmem s1 a = pmem s0 a"
    using alloc_frame [OF inv0 k(1), of strategy] by auto
  obtain s2 where s2: "insert_page_frame_info (frame_addr k) (frame_addr k) p imode s1 = Inr (Info k, s2)"
    "vm_inv (Suc k) {k} s2" "vm_kept s1 s2" "pmem s2 = pmem s1"
    "\<forall>i. i \<noteq> k \<longrightarrow> infos s2 (Info i) = infos s1 (Info i)"
    using pin_frame [OF s1(2) lessI s1(5,4)] by blast
  let ?ft = "first_process s2 \<noteq> 0"
  let ?r = "if ?ft then nointerrupt_leave ((nointerrupt_enter s2)
        \<lparr>first_process_pid := pid (pcb_at s2 p), first_process := 0\<rparr>) else s2"
  note kf = vm_keptD [OF vm_kept_trans [OF s1(3) s2(3)]]
  have rf: "infos ?r = infos s2" "page_free_head ?r = page_free_head s2" "fifo_queue ?r = fifo_queue s2"
    "kernel_pdir ?r = kernel_pdir s2" "pcb_at ?r = pcb_at s2" "disk ?r = disk s2" "vm_locked ?r = vm_locked s2"
    "pmem ?r = pmem s2" "user_kernel_ptable ?r = user_kernel_ptable s2"
    by simp_all
  have U: "user_kernel_ptable ?r = frame_addr u"
    using trans [OF rf(9) kf(3)] by (simp add: s0 pr'(4))
  have al: "page_aligned (frame_addr u)" "page_aligned (frame_addr k)" "frame_addr u \<noteq> frame_addr k"
    using k pr'(3) by (simp_all add: frame_addr_aligned frame_addr_inj)
  from user_setup_spec [OF al U, of ?ft] obtain s3 where
    run: "user_setup_kernel_vmem (frame_addr k) ?ft ?r = Inr s3" and
    ka: "kernel_area (frame_addr u) (frame_addr k) ?ft (user_mode OR PE_PCD) ?r s3" by blast
  note ka' = ka [unfolded kernel_area_def]
  have om: "only_mem ?r s3" using ka' by blast
  note of = only_mem_fields [OF om, unfolded rf]
  have out: "pmem s3 a = pmem s2 a" if "\<not> in_page (frame_addr k) a" "\<not> in_page (frame_addr u) a" for a
    using ka' that unfolding rf by blast
  have low: "pmem s2 a = pmem s a" if "unat a < unat (frame_addr k)" for a
    using s1(8) that by (simp add: s2(4) s0)
  have inv3: "vm_inv (Suc k) {k} s3"
  proof (rule vm_inv_change [OF s2(2) of(1-3,6,8,5) _ order_refl])
    show "vm_locked s3 l = vm_locked s2 l" for l by (simp add: of)
    fix d a
    assume d: "d < Suc k" "d \<notin> {k}" "\<not> no_directory s2 d" "in_page (frame_addr d) a"
    have "d \<noteq> u" using pr'(5) d(3) kf(1) by (auto simp: no_directory_def s0)
    then show "pmem s3 a = pmem s2 a"
      using d k by (intro out) (auto simp: in_page_def unat_frame_addr)
  qed
  have "kernel_table (user_mode OR PE_PCD) (pmem s2) (frame_addr u)"
    if "kernel_table (user_mode OR PE_PCD) (pmem s) (frame_addr u)"
    using that page_kept [OF low pr'(3) k(2)] by (simp add: kernel_table_def index_bounds)
  then have kt: "kernel_table (user_mode OR PE_PCD) (pmem s3) (frame_addr u)"
    using ka' pr'(7) kf(7) unfolding rf by (auto simp: s0)
  have dir: "read32 (pmem s3) (entry_addr (frame_addr k) i) =
        (if i = 0 then pde_of (frame_addr u) (user_mode OR PE_PCD) else 0)" if "unat i < 1024" for i
    using ka' that s1(7) unfolding rf s2(4) by simp
  have "pmem s3 a = pmem s a" if "unat a < unat (frame_addr k)" "\<not> in_page (frame_addr u) a" for a
    using out [of a] low [of a] that by (simp add: in_page_def)
  moreover have "(if ?ft then
       (let s = nointerrupt_enter s2;
            s = s\<lparr>first_process_pid := pid (pcb_at s p)\<rparr>;
            s = s\<lparr>first_process := 0\<rparr>;
            s = nointerrupt_leave s
        in user_setup_kernel_vmem (frame_addr k) True s)
     else user_setup_kernel_vmem (frame_addr k) False s2) = Inr s3"
    using run by (cases ?ft) simp_all
  moreover have "\<forall>i. i \<noteq> k \<longrightarrow> infos s3 (Info i) = infos s (Info i)"
    using s1(6) s2(5) by (simp add: of s0)
  ultimately show ?thesis
    using s1(1) s2(1) inv3 kt dir kf by (intro exI conjI) (auto simp: of s0 pr'(4))
qed

lemma process_indices:
  "get_directory_index PROCESS_VADDR = 4" "get_directory_index PROCESS_STACK_VADDR = 959"
  "STACK_INDEX = 1023"
  by (simp_all add: STACK_INDEX_def get_directory_index_def get_table_index_def addr_defs pe_defs)

lemma dir_ins_kept:
  assumes inv: "vm_inv k A s" and d: "d \<in> A" "d < k"
  shows "vm_inv k A (dir_ins_table (frame_addr d) v T m s)"
    and "vm_inv k A (table_map_page (frame_addr d) v p m s)"
proof -
  have k: "k \<le> PAGEABLE_PAGES" using inv unfolding vm_inv_def free_from_def by blast
  have out: "\<not> in_page (frame_addr d) a" if "e < k" "e \<notin> A" "in_page (frame_addr e) a" for e a
    using that d k in_page_frame_disjoint [of e a d] by (auto simp: PAGEABLE_PAGES_def)
  have al: "page_aligned (frame_addr d)" using d(2) k by (simp add: frame_addr_aligned PAGEABLE_PAGES_def)
  show "vm_inv k A (dir_ins_table (frame_addr d) v T m s)"
    by (rule vm_inv_frames_kept [OF inv]) (use out al in \<open>auto simp: write32_entry_outside index_bounds\<close>)
  show "vm_inv k A (table_map_page (frame_addr d) v p m s)"
    by (rule vm_inv_frames_kept [OF inv]) (use out al in \<open>auto simp: write32_entry_outside index_bounds\<close>)
qed

text \<open>The stack: one page, mapped through the table in frame \<open>t\<close>.\<close>

lemma map_stack_spec:
  assumes inv: "vm_inv k A s" and k: "k < PAGEABLE_PAGES" and A: "A \<subseteq> {..<k}" and t: "t \<in> A"
  shows "\<exists>s'. map_stack_pages strategy p (frame_addr t) imode mode s = Inr s' \<and>
    vm_inv (Suc k) (insert k A) s' \<and> vm_kept s s' \<and>
    (\<forall>i. i \<noteq> k \<longrightarrow> infos s' (Info i) = infos s (Info i)) \<and>
    (\<forall>i. unat i < 1024 \<longrightarrow> read32 (pmem s') (entry_addr (frame_addr t) i) =
       (if i = STACK_INDEX then pte_of (frame_addr k) (mode OR PE_P)
        else read32 (pmem s) (entry_addr (frame_addr t) i))) \<and>
    (\<forall>a. unat a < unat (frame_addr k) \<and> \<not> in_page (frame_addr t) a \<longrightarrow> pmem s' a = pmem s a)"
proof -
  obtain s1 where s1: "allocate_page strategy s = Inr (frame_addr k, s1)" "vm_inv (Suc k) (insert k A) s1"
    "vm_kept s s1" "fi_owner (infos s1 (Info k)) = 0" "\<not> in_fifo s1 k"
    "\<forall>i. i \<noteq> k \<longrightarrow> infos s1 (Info i) = infos s (Info i)"
    "\<forall>a. unat a < unat (frame_addr k) \<longrightarrow> pmem s1 a = pmem s a"
    using alloc_frame [OF inv k A, of strategy] by blast
  obtain s2 where s2: "insert_page_frame_info (frame_addr k) PROCESS_STACK_VADDR p (imode OR PE_INFO_STACK) s1 =
      Inr (Info k, s2)" "vm_inv (Suc k) (insert k A) s2" "vm_kept s1 s2" "pmem s2 = pmem s1"
    "\<forall>i. i \<noteq> k \<longrightarrow> infos s2 (Info i) = infos s1 (Info i)"
    using pin_frame [OF s1(2) lessI s1(5,4)] by blast
  obtain s3 where s3: "inc_pinned_pages 1 s2 = Inr s3" "vm_inv (Suc k) (insert k A) s3" "vm_kept s2 s3"
    "pmem s3 = pmem s2" "infos s3 = infos s2" using inc_pinned [OF s2(2)] by blast
  let ?s = "table_map_page (frame_addr t) PROCESS_STACK_VADDR (frame_addr k) (mode OR PE_P) s3"
  have tk: "t < k" "t < 1000" "k < 1000" using t A k by (auto simp: PAGEABLE_PAGES_def)
  have steps: "PROCESS_STACK_VADDR - USER_STACK_SIZE < PROCESS_STACK_VADDR"
    "PROCESS_STACK_VADDR - PAGE_SIZE < PROCESS_STACK_VADDR"
    "\<not> PROCESS_STACK_VADDR - USER_STACK_SIZE < PROCESS_STACK_VADDR - PAGE_SIZE"
    by (simp_all add: addr_defs)
  have run: "map_stack_pages strategy p (frame_addr t) imode mode s = Inr ?s"
    unfolding map_stack_pages_def
    by (subst for_down.simps, subst for_down.simps) (simp add: steps s1(1) s2(1) s3(1))
  have "vm_inv (Suc k) (insert k A) ?s" using dir_ins_kept(2) [OF s3(2)] t tk(1) by simp
  moreover have "vm_kept s ?s"
  proof -
    have "vm_kept s3 ?s" by (simp add: vm_kept_def)
    then show ?thesis using s1(3) s2(3) s3(3) vm_kept_trans by blast
  qed
  moreover have "read32 (pmem ?s) (entry_addr (frame_addr t) i) =
       (if i = STACK_INDEX then pte_of (frame_addr k) (mode OR PE_P)
        else read32 (pmem s) (entry_addr (frame_addr t) i))" if "unat i < 1024" for i
    using that page_kept [OF _ tk(1,3) that, of "pmem s1" "pmem s"] s1(7) tk
    by (simp add: read32_write32_entry index_bounds frame_addr_aligned s3(4) s2(4) STACK_INDEX_def)
  moreover have "pmem ?s a = pmem s a" if "unat a < unat (frame_addr k)" "\<not> in_page (frame_addr t) a" for a
    using that s1(7) tk by (simp add: write32_entry_outside frame_addr_aligned index_bounds s3(4) s2(4))
  moreover have "\<forall>i. i \<noteq> k \<longrightarrow> infos ?s (Info i) = infos s (Info i)"
    using s1(6) s2(5) by (simp add: s3(5))
  ultimately show ?thesis using run by blast
qed

text \<open>The second half: the page table in frame \<open>k + 1\<close> and the stack in frame \<open>k + 2\<close>.\<close>

definition table_set_up :: "nat \<Rightarrow> 'd vm \<Rightarrow> 'd vm \<Rightarrow> bool" where
  "table_set_up k s t \<longleftrightarrow> vm_kept s t \<and> (\<forall>i. i < k \<longrightarrow> infos t (Info i) = infos s (Info i)) \<and>
     (\<forall>i. unat i < 1024 \<longrightarrow> read32 (pmem t) (entry_addr (frame_addr k) i) =
        (if i = get_directory_index PROCESS_VADDR \<or> i = get_directory_index PROCESS_STACK_VADDR
         then pde_of (frame_addr (k + 1)) (PROC_MODE OR PE_P)
         else read32 (pmem s) (entry_addr (frame_addr k) i))) \<and>
     (\<forall>i. unat i < 1024 \<longrightarrow>
        (if i = STACK_INDEX
         then read32 (pmem t) (entry_addr (frame_addr (k + 1)) i) =
           pte_of (frame_addr (k + 2)) (PROC_MODE OR PE_P)
         else \<not> bit (read32 (pmem t) (entry_addr (frame_addr (k + 1)) i)) 0)) \<and>
     (\<forall>a. unat a < unat (frame_addr k) \<longrightarrow> pmem t a = pmem s a)"

lemma setup_process_table_spec:
  assumes inv: "vm_inv (Suc k) {k} s" and k: "k + 3 \<le> PAGEABLE_PAGES"
    and sz: "unat (swap_size (pcb_at s p)) \<le> 8192"
  shows "\<exists>t. setup_process_table strategy p (frame_addr k) imode PROC_MODE s = Inr t \<and>
    vm_inv (k + 3) {k + 2, k + 1, k} t \<and> table_set_up k s t"
proof -
  let ?m = PROC_MODE and ?D = "frame_addr k" and ?T = "frame_addr (k + 1)"
  have b: "k < 1000" "k + 1 < 1000" "Suc k < PAGEABLE_PAGES" "k + 2 < PAGEABLE_PAGES"
    using k by (simp_all add: PAGEABLE_PAGES_def)
  have al: "page_aligned ?D" "page_aligned ?T" "?D \<noteq> ?T"
    using b by (simp_all add: frame_addr_aligned frame_addr_inj)
  have DT: "unat ?D + 4096 = unat ?T" "unat ?T < unat (frame_addr (k + 2))"
    using b by (simp_all add: unat_frame_addr PAGEABLE_PAGES_def)
  obtain s5 where s5: "allocate_page strategy s = Inr (?T, s5)" "vm_inv (k + 2) {k + 1, k} s5" "vm_kept s s5"
    "fi_owner (infos s5 (Info (k + 1))) = 0" "\<not> in_fifo s5 (k + 1)"
    "\<forall>i. i \<noteq> k + 1 \<longrightarrow> infos s5 (Info i) = infos s (Info i)"
    "\<forall>i. unat i < 1024 \<longrightarrow> read32 (pmem s5) (entry_addr ?T i) = 0"
    "\<forall>a. unat a < unat ?T \<longrightarrow> pmem s5 a = pmem s a"
    using alloc_frame [OF inv b(3), of strategy] by auto
  let ?s6 = "dir_ins_table ?D PROCESS_VADDR ?T (?m OR PE_P) s5"
  have s6: "vm_inv (k + 2) {k + 1, k} ?s6" by (rule dir_ins_kept [OF s5(2)]) simp_all
  obtain s7 where s7: "insert_page_frame_info ?T ?T p imode ?s6 = Inr (Info (k + 1), s7)"
    "vm_inv (k + 2) {k + 1, k} s7" "vm_kept ?s6 s7" "pmem s7 = pmem ?s6"
    "\<forall>i. i \<noteq> k + 1 \<longrightarrow> infos s7 (Info i) = infos ?s6 (Info i)"
    using pin_frame [OF s6, of "k + 1" ?T p imode] s5(4,5) by (auto simp: in_fifo_def)
  obtain s8 where s8: "inc_pinned_pages 2 s7 = Inr s8" "vm_inv (k + 2) {k + 1, k} s8" "vm_kept s7 s8"
    "pmem s8 = pmem s7" "infos s8 = infos s7" using inc_pinned [OF s7(2)] by blast
  have kept8: "vm_kept s s8" using s5(3) s7(3) s8(3) by (auto simp: vm_kept_def)
  have "read32 (pmem s8) (entry_addr ?T i) = 0" if "unat i < 1024" for i
    using s5(7) that al by (simp add: s8(4) s7(4) read32_write32_entry index_bounds)
  moreover have "\<not> bit ?m 0" by (simp add: PROC_MODE_def pe_bits bit_simps)
  ultimately obtain s9 where s9: "map_image_pages p ?T ?m s8 = Inr s9" "frames_kept s8 s9"
    "\<forall>i. unat i < 1024 \<longrightarrow> \<not> bit (read32 (pmem s9) (entry_addr ?T i)) 0"
    "\<forall>a. \<not> in_page ?T a \<longrightarrow> pmem s9 a = pmem s8 a"
    using map_image_spec [OF al(2), of s8 p ?m] sz vm_keptD(1) [OF kept8] by auto
  have inv9: "vm_inv (k + 2) {k + 1, k} s9"
  proof (rule vm_inv_frames_kept [OF s8(2) s9(2)])
    fix d a
    assume "d < k + 2" "d \<notin> {k + 1, k}" "in_page (frame_addr d) a"
    then show "pmem s9 a = pmem s8 a"
      using s9(4) in_page_frame_disjoint [of d a "k + 1"] b by auto
  qed
  let ?s10 = "dir_ins_table ?D PROCESS_STACK_VADDR ?T (?m OR PE_P) s9"
  have s10: "vm_inv (k + 2) {k + 1, k} ?s10" by (rule dir_ins_kept [OF inv9]) simp_all
  have A: "{k + 1, k} \<subseteq> {..<k + 2}" "k + 1 \<in> {k + 1, k}" by auto
  obtain s11 where s11: "map_stack_pages strategy p ?T imode ?m ?s10 = Inr s11"
    "vm_inv (k + 3) {k + 2, k + 1, k} s11" "vm_kept ?s10 s11"
    "\<forall>i. i \<noteq> k + 2 \<longrightarrow> infos s11 (Info i) = infos ?s10 (Info i)"
    "\<forall>i. unat i < 1024 \<longrightarrow> read32 (pmem s11) (entry_addr ?T i) =
       (if i = STACK_INDEX then pte_of (frame_addr (k + 2)) (?m OR PE_P)
        else read32 (pmem ?s10) (entry_addr ?T i))"
    "\<forall>a. unat a < unat (frame_addr (k + 2)) \<and> \<not> in_page ?T a \<longrightarrow> pmem s11 a = pmem ?s10 a"
    using map_stack_spec [OF s10 b(4) A, of strategy p imode ?m] by (auto simp: numeral_3_eq_3)
  have run: "setup_process_table strategy p ?D imode ?m s = Inr s11"
    using s5(1) s7(1) s8(1) s9(1) s11(1) by (simp add: setup_process_table_def Let_def)
  have T: "if i = STACK_INDEX then read32 (pmem s11) (entry_addr ?T i) = pte_of (frame_addr (k + 2)) (?m OR PE_P)
      else \<not> bit (read32 (pmem s11) (entry_addr ?T i)) 0" if "unat i < 1024" for i
    using s11(5) s9(3) that al by (auto simp: read32_write32_entry index_bounds)
  have D: "read32 (pmem s11) (entry_addr ?D i) =
        (if i = get_directory_index PROCESS_VADDR \<or> i = get_directory_index PROCESS_STACK_VADDR
         then pde_of ?T (?m OR PE_P) else read32 (pmem s) (entry_addr ?D i))" if i: "unat i < 1024" for i
  proof -
    have "read32 (pmem s11) (entry_addr ?D i) = read32 (pmem ?s10) (entry_addr ?D i)"
      by (rule read32_entry_cong [OF _ al(1) i]) (use s11(6) DT in \<open>auto simp: in_page_def\<close>)
    moreover have "read32 (pmem s9) (entry_addr ?D i) = read32 (pmem s8) (entry_addr ?D i)"
      by (rule read32_entry_cong [OF _ al(1) i]) (use s9(4) DT in \<open>auto simp: in_page_def\<close>)
    moreover have "read32 (pmem s5) (entry_addr ?D i) = read32 (pmem s) (entry_addr ?D i)"
      by (rule read32_entry_cong [OF _ al(1) i]) (use s5(8) DT in \<open>auto simp: in_page_def\<close>)
    ultimately show ?thesis using al i by (auto simp: read32_write32_entry index_bounds s8(4) s7(4))
  qed
  have low: "pmem s11 a = pmem s a" if "unat a < unat ?D" for a
  proof -
    have "\<not> in_page ?D a" "\<not> in_page ?T a" using that DT by (auto simp: in_page_def)
    then show ?thesis
      using s11(6) s9(4) s5(8) that DT al by (simp add: write32_entry_outside index_bounds s8(4) s7(4))
  qed
  have "vm_kept s s11" using kept8 s9(2) s11(3) by (auto simp: vm_kept_def frames_kept_def)
  moreover have "infos s11 (Info i) = infos s (Info i)" if "i < k" for i
    using that s5(6) s7(5) s11(4) s9(2) by (simp add: frames_kept_def s8(5))
  ultimately have "table_set_up k s s11" unfolding table_set_up_def using T D low by blast
  then show ?thesis using run s11(2) by blast
qed

lemma setup_process_spec:
  assumes pr: "process_ready s k p u"
  shows "\<exists>t. setup_process_vmem strategy p s = Inr t \<and> vm_inv (k + 3) {} t \<and>
    address_space t k p (frame_addr u) \<and> vm_locked t = vm_locked s \<and> fifo_queue t = fifo_queue s \<and>
    user_kernel_ptable t = frame_addr u \<and> disk t = disk s \<and> kernel_pdir t = kernel_pdir s \<and>
    pcb_at t = (pcb_at s)(p := (pcb_at s p)\<lparr>page_directory := frame_addr k\<rparr>) \<and>
    (\<forall>a. unat a < unat (frame_addr k) \<and> \<not> in_page (frame_addr u) a \<longrightarrow> pmem t a = pmem s a)"
proof -
  let ?im = "PE_INFO_USER_MODE OR PE_INFO_PINNED"
  let ?s0 = "s\<lparr>vm_locked := (vm_locked s)(PageMapLock := True)\<rparr>"
  have pr': "k + 3 \<le> PAGEABLE_PAGES" "u < k" "\<not> vm_locked s PageMapLock" "is_thread (pcb_at s p) = 0"
    "unat (swap_size (pcb_at s p)) \<le> 8192" "\<And>x. x \<in> set (fifo_contents (fifo_queue s)) \<Longrightarrow> fi_owner (infos s (Info (unat x))) \<noteq> p"
    "vm_inv k {} s"
    using pr unfolding process_ready_def by auto
  have b: "k < 1000" "u < 1000" using pr'(1,2) by (simp_all add: PAGEABLE_PAGES_def)
  obtain s1 s2 s3 where runs: "allocate_page strategy ?s0 = Inr (frame_addr k, s1)"
      "insert_page_frame_info (frame_addr k) (frame_addr k) p ?im s1 = Inr (Info k, s2)"
      "(if first_process s2 \<noteq> 0 then
         (let s = nointerrupt_enter s2;
              s = s\<lparr>first_process_pid := pid (pcb_at s p)\<rparr>;
              s = s\<lparr>first_process := 0\<rparr>;
              s = nointerrupt_leave s
          in user_setup_kernel_vmem (frame_addr k) True s)
       else user_setup_kernel_vmem (frame_addr k) False s2) = Inr s3"
    and s3: "vm_inv (Suc k) {k} s3" "pcb_at s3 = pcb_at s" "user_kernel_ptable s3 = frame_addr u"
      "fifo_queue s3 = fifo_queue s" "vm_locked s3 = vm_locked ?s0"
      "disk s3 = disk s" "kernel_pdir s3 = kernel_pdir s"
      "\<forall>i. i \<noteq> k \<longrightarrow> infos s3 (Info i) = infos s (Info i)"
      "kernel_table (user_mode OR PE_PCD) (pmem s3) (frame_addr u)"
      "\<forall>i. unat i < 1024 \<longrightarrow> read32 (pmem s3) (entry_addr (frame_addr k) i) =
        (if i = 0 then pde_of (frame_addr u) (user_mode OR PE_PCD) else 0)"
      "\<forall>a. unat a < unat (frame_addr k) \<and> \<not> in_page (frame_addr u) a \<longrightarrow> pmem s3 a = pmem s a"
    using new_directory [OF pr refl refl, of strategy] by blast
  obtain t where t: "setup_process_table strategy p (frame_addr k) ?im PROC_MODE s3 = Inr t"
    "vm_inv (k + 3) {k + 2, k + 1, k} t" "table_set_up k s3 t"
    using setup_process_table_spec [OF s3(1) pr'(1), of p strategy ?im] pr'(5) s3(2) by auto
  note ts = t(3) [unfolded table_set_up_def]
  let ?t = "upd_pcb p (\<lambda>r. r\<lparr>page_directory := frame_addr k\<rparr>) t"
  have run: "setup_process_vmem strategy p s = Inr (vm_release PageMapLock ?t)"
    unfolding setup_process_vmem_def PROCESSES_SHARE_KERNEL_PAGE_TABLE_def
    using pr'(3,4) runs t(1)
    by (simp add: vm_acquire_def PROC_MODE_def Let_def split: if_splits)
  have kept: "vm_kept s3 t" using ts by blast
  have own: "fi_owner (infos t (Info (unat x))) \<noteq> p" if "x \<in> set (fifo_contents (fifo_queue t))" for x
  proof -
    have x: "x \<in> set (fifo_contents (fifo_queue s))" using that vm_keptD(4) [OF kept] s3(4) by simp
    then have "unat x < k" using pr'(7) unfolding vm_inv_def evictable_def by blast
    then have "infos t (Info (unat x)) = infos s (Info (unat x))" using ts s3(8) by simp
    then show ?thesis using pr'(6) [OF x] by simp
  qed
  have "vm_inv (k + 3) {k + 2, k + 1, k} ?t"
    by (rule vm_inv_new_directory [OF t(2) own]) simp_all
  then have inv: "vm_inv (k + 3) {} (vm_release PageMapLock ?t)"
    by (rule vm_inv_change) (simp_all add: vm_release_def)
  have "kernel_table (user_mode OR PE_PCD) (pmem t) (frame_addr u)"
    using s3(9) page_kept [OF _ pr'(2) b(1), of "pmem t" "pmem s3"] ts
    by (simp add: kernel_table_def index_bounds)
  moreover have "read32 (pmem t) (entry_addr (frame_addr k) i) =
        (if i = 0 then pde_of (frame_addr u) (user_mode OR PE_PCD)
         else if i = get_directory_index PROCESS_VADDR \<or> i = get_directory_index PROCESS_STACK_VADDR
         then pde_of (frame_addr (k + 1)) (PROC_MODE OR PE_P) else 0)" if "unat i < 1024" for i
    using ts that s3(10) process_indices by auto
  moreover have "page_directory (pcb_at ?t p) = frame_addr k" by (simp add: pcb_at_upd_pcb)
  ultimately have "address_space (vm_release PageMapLock ?t) k p (frame_addr u)"
    unfolding address_space_def vm_vm_release upd_pcb_fields using ts by blast
  moreover have "vm_locked t = (vm_locked s)(PageMapLock := True)" "fifo_queue t = fifo_queue s"
    "user_kernel_ptable t = frame_addr u" "pcb_at t = pcb_at s" "disk t = disk s" "kernel_pdir t = kernel_pdir s"
    using vm_keptD [OF kept] s3(2-7) by simp_all
  moreover have "pmem t a = pmem s a" if "unat a < unat (frame_addr k)" "\<not> in_page (frame_addr u) a" for a
    using that ts s3(11) by simp
  ultimately show ?thesis
    using run inv pr'(3) by (auto simp: vm_release_def upd_pcb_def fun_upd_idem)
qed

text \<open>The pages of the image of a new process can be loaded on demand.\<close>

lemma address_space_tables:
  assumes as: "address_space s k p U" and inv: "vm_inv (k + 3) {} s"
    and nq: "\<not> in_fifo s k" "\<not> in_fifo s (k + 1)" and nd: "no_directory s (k + 1)"
    and v: "get_directory_index v = get_directory_index PROCESS_VADDR"
  shows "tables_at s (k + 3) {} p v k (k + 1)"
proof -
  have "k + 3 \<le> PAGEABLE_PAGES" using inv unfolding vm_inv_def free_from_def by blast
  then have al: "page_aligned (frame_addr (k + 1))" by (simp add: frame_addr_aligned PAGEABLE_PAGES_def)
  have "read32 (pmem s) (entry_addr (frame_addr k) (get_directory_index v)) =
      pde_of (frame_addr (k + 1)) (PROC_MODE OR PE_P)"
    using as process_indices index_bounds(1) [of v] unfolding address_space_def v by simp
  moreover have "bit (PROC_MODE OR PE_P) 0" by (simp add: PROC_MODE_def pe_bits bit_simps)
  ultimately show ?thesis
    using as nq nd
    by (simp add: tables_at_def address_space_def no_directory_def bit_pde_of pde_of_base
        page_aligned_and_mask [OF al, simplified])
qed

text \<open>User mode reaches the text screen and the stack of the process, and nothing else.\<close>

lemma address_space_user:
  assumes as: "address_space s k p U" and al: "page_aligned U" "k + 2 < 1000"
  shows "mmu_translate (pmem s) (frame_addr k) True v =
    (if unat v < 4194304 then (if in_page VGA_TEXT_PADDR v then Some v else None)
     else if get_directory_index v \<in> {4, 959} \<and> get_table_index v = STACK_INDEX
     then Some (frame_addr (k + 2) OR (v AND 0xfff)) else None)"
proof (cases "unat v < 4194304")
  case True
  have "read32 (pmem s) (entry_addr (frame_addr k) 0) = pde_of U (user_mode OR PE_PCD)"
    and kt: "kernel_table (user_mode OR PE_PCD) (pmem s) U"
    using as unfolding address_space_def by simp_all
  from kernel_area_translate [OF _ al(1) kt this(1) mode_bits(3) True, of True] al(2) mode_bits(4) True
  show ?thesis by (simp add: frame_addr_aligned)
next
  case False
  have D: "page_aligned (frame_addr k)" and T: "page_aligned (frame_addr (k + 1))"
    and S: "page_aligned (frame_addr (k + 2))"
    using al(2) by (simp_all add: frame_addr_aligned)
  have nz: "get_directory_index v \<noteq> 0"
    using False by (simp add: word_unat_eq_iff unat_directory_index div_eq_0_iff)
  let ?e = "read32 (pmem s) (entry_addr (frame_addr k) (get_directory_index v))"
  have e: "?e = (if get_directory_index v \<in> {4, 959} then pde_of (frame_addr (k + 1)) (PROC_MODE OR PE_P) else 0)"
    using as nz index_bounds(1) [of v] process_indices unfolding address_space_def by simp
  have m: "bit (PROC_MODE OR PE_P) 0" "bit (PROC_MODE OR PE_P) 2" "\<not> bit (0 :: u32) 0"
    by (simp_all add: PROC_MODE_def pe_bits bit_simps)
  let ?t = "read32 (pmem s) (entry_addr (frame_addr (k + 1)) (get_table_index v))"
  have t: "if get_table_index v = STACK_INDEX then ?t = pte_of (frame_addr (k + 2)) (PROC_MODE OR PE_P)
      else \<not> bit ?t 0"
    using as index_bounds(2) [of v] unfolding address_space_def by blast
  show ?thesis
  proof (cases "get_directory_index v \<in> {4, 959}")
    case dir: True
    have "mmu_walk (pmem s) (frame_addr k) v = (if bit ?t 0 then Some (?e, ?t) else None)"
      using m dir by (simp add: mmu_walk_eq [OF D] e Let_def bit_pde_of pde_of_base page_aligned_and_mask [OF T, simplified])
    then show ?thesis
      using t m False dir
      by (auto simp: mmu_translate_def e bit_pde_of bit_pte_of pte_of_base page_aligned_and_mask [OF S, simplified] split: if_splits)
  next
    case dir: False
    then show ?thesis
      using m(3) False by (simp add: mmu_translate_def mmu_walk_eq [OF D] e Let_def)
  qed
qed

end
