(* ===== verification/RamDisk.thy ===== *)
theory RamDisk
  imports Scsi
begin

text \<open>
  A mass storage device kept in memory, as a concrete driver behind the SCSI layer. It decodes
  the command blocks that \<open>kernel/usb/scsi.c\<close> builds, so it also shows that their fields
  arrive in the byte order a device expects.
\<close>

unbundle bit_operations_syntax

type_synonym ram = "nat \<Rightarrow> u8 list"

definition ram_sector :: "ram \<Rightarrow> nat \<Rightarrow> u8 list" where
  "ram_sector d i = take SECTOR_BYTES (d i @ replicate SECTOR_BYTES 0)"

text \<open>The big-endian address and length fields of a ten-byte command block.\<close>

definition cdb_lba :: "u8 list \<Rightarrow> nat" where
  "cdb_lba cdb = unat (of_le32 (rev (take 4 (drop 2 cdb))))"

definition cdb_count :: "u8 list \<Rightarrow> nat" where
  "cdb_count cdb = unat (ucast (cdb ! 8) OR push_bit 8 (ucast (cdb ! 7)) :: u16)"

definition ram_read :: "u8 list \<Rightarrow> int \<Rightarrow> ram \<Rightarrow> int \<times> u8 list \<times> ram" where
  "ram_read cdb len d =
     (if cdb ! 0 = CDB_READ10
      then (SCSI_RC_GOOD, concat (map (\<lambda>i. ram_sector d (cdb_lba cdb + i)) [0..<cdb_count cdb]), d)
      else (SCSI_RC_GOOD, replicate (nat len) 0, d))"

definition ram_write :: "u8 list \<Rightarrow> u8 list \<Rightarrow> ram \<Rightarrow> int \<times> ram" where
  "ram_write cdb data d =
     (SCSI_RC_GOOD,
      (\<lambda>i. if cdb_lba cdb \<le> i \<and> i < cdb_lba cdb + cdb_count cdb
           then take SECTOR_BYTES (drop (SECTOR_BYTES * (i - cdb_lba cdb)) data) else d i))"

definition ram_dev :: "ram scsi_dev" where
  "ram_dev = \<lparr>block_size = of_nat SECTOR_BYTES, total_block_count = 0x10000,
     dev_read = ram_read, dev_write = ram_write\<rparr>"

lemma of_le32_le32: "of_le32 (le32 v) = v"
  by (simp add: of_le32_def le32_def bytes_of_word32)

lemma rev_le32_htonl: "rev (le32 (htonl v)) = le32 v"
  unfolding le32_htonl by (simp add: le32_def)

lemma cdb_lba_cdb10 [simp]: "cdb_lba (cdb10 op (htonl lba) n) = unat lba"
proof -
  have "take 4 (drop 2 (cdb10 op (htonl lba) n)) = le32 (htonl lba)"
    by (simp add: cdb10_def le32_def)
  then show ?thesis by (simp add: cdb_lba_def rev_le32_htonl of_le32_le32)
qed

lemma cdb_count_cdb10 [simp]: "cdb_count (cdb10 op lba (htons n)) = unat n"
proof -
  have "cdb10 op lba (htons n) ! 7 = ucast (drop_bit 8 n)" "cdb10 op lba (htons n) ! 8 = ucast n"
    by (simp_all add: cdb10_def le16_htons) (simp_all add: le32_def)
  moreover have "ucast (ucast n :: u8) OR push_bit 8 (ucast (ucast (drop_bit 8 n) :: u8)) = n"
    by (rule bit_word_eqI) (auto simp: bit_simps dest: bit_imp_le_length)
  ultimately show ?thesis by (simp add: cdb_count_def)
qed

lemma cdb10_op [simp]: "cdb10 op lba n ! 0 = op"
  by (simp add: cdb10_def)

lemma sector_in_range:
  assumes "l \<le> i" "i < l + n"
  shows "SECTOR_BYTES \<le> SECTOR_BYTES * n - SECTOR_BYTES * (i - l)"
proof -
  have "Suc (i - l) \<le> n" using assms by linarith
  from mult_le_mono2 [OF this, of SECTOR_BYTES] show ?thesis by simp
qed

lemma ram_disk_like: "disk_like ram_dev ram_sector cap"
  unfolding disk_like_def
  by (auto simp: ram_dev_def ram_read_def ram_write_def unat_of_nat ram_sector_def
      CDB_READ10_def CDB_WRITE10_def sector_in_range)

end
