(* ===== verification/VmProps.thy ===== *)
theory VmProps
  imports Faults Vmem RamDisk
begin

text \<open>
  The properties of the memory manager (\<open>kernel/memory.c\<close>), proved from the lemmas of the
  theories below, with small systems in which their hypotheses hold: a machine with one
  process whose page directory and page table are in the first two frames, backed by a disk
  in memory.
\<close>

unbundle bit_operations_syntax

section \<open>Small systems\<close>

definition zero_info :: page_frame_info_t where
  "zero_info = \<lparr>fi_owner = 0, next_shared_info = InfoNull, next_free_page = InfoNull, fi_paddr = 0,
     fi_vaddr = 0, info_mode = 0\<rparr>"

text \<open>The memory manager with zeroed static storage, and a disk that is present.\<close>

definition static_vm :: "ram vm" where
  "static_vm = \<lparr>pmem = (\<lambda>_. 0), tlb = (\<lambda>_. None), cr2 = 0x1000123, cr3 = 0, invlpg_slot = 0x9000,
     nointerrupt_count_val = 1, intr_flag = False, tsc = of_nat, tsc_pos = 0,
     pic_master_data = 0, pic_slave_data = 0, tss_ss0 = 0, tss_esp0 = 0, cpu_mhz = 1000,
     pcb_at = (\<lambda>_. zero_pcb), current_running = 0, running_processes = 0, freelist = 0,
     next_pid = 0, next_stack = T_KSTACK_AREA_MIN_PADDR, saved_ctx = (\<lambda>_. (0, True)),
     infos = (\<lambda>_. zero_info), page_free_head = InfoNull, fifo_queue = fifo_init,
     number_of_pinned_page_frames = 0, kernel_pdir = 0x200000, user_kernel_ptable = 0,
     first_process = 1, first_process_pid = 0, next_free_mem = 0, random_index_val = 45,
     vm_locked = (\<lambda>_. False), read_buffer = replicate 4096 0,
     disk = \<lparr>scsi = Some ram_dev, scsi_dev_lock = False, driver = (\<lambda>i. [of_nat i])\<rparr>\<rparr>"

text \<open>
  One process, whose image starts at sector 10: its directory is in frame 0 and refers to the
  page table in frame 1. The frames from \<open>k\<close> on are free.
\<close>

definition one_process :: "nat \<Rightarrow> ram vm" where
  "one_process k = (initialize_page_frame_infos static_vm)
     \<lparr>page_free_head := (if k < PAGEABLE_PAGES then Info k else InfoNull),
      pmem := write32 (\<lambda>_. 0) (entry_addr (frame_addr 0) 4) (pde_of (frame_addr 1) 7),
      pcb_at := (\<lambda>_. zero_pcb)(1 := zero_pcb\<lparr>page_directory := frame_addr 0, swap_loc := 10,
        swap_size := 20\<rparr>),
      current_running := 1\<rparr>"

text \<open>The same with all frames in use, and the first page of the image in frame 5.\<close>

definition full_memory :: "ram vm" where
  "full_memory = (one_process PAGEABLE_PAGES)
     \<lparr>fifo_queue := snd (fifo_enqueue 5 fifo_init),
      infos := (infos (one_process PAGEABLE_PAGES))
        (Info 5 := (infos (one_process PAGEABLE_PAGES) (Info 5))
           \<lparr>fi_owner := 1, next_shared_info := InfoNull, fi_vaddr := 0x1000000,
       info_mode := PE_INFO_USER_MODE\<rparr>)\<rparr>"

lemma one_process_free: "k \<le> PAGEABLE_PAGES \<Longrightarrow> free_from k (one_process k)"
  using initialize_page_frame_infos_free [of static_vm]
  by (simp add: free_from_def one_process_def)

lemma one_process_fields:
  "infos (one_process k) = infos (initialize_page_frame_infos static_vm)"
  "fifo_queue (one_process k) = fifo_init" "vm_locked (one_process k) = (\<lambda>_. False)"
  "disk (one_process k) = disk static_vm" "kernel_pdir (one_process k) = 0x200000"
  "cr2 (one_process k) = 0x1000123" "nointerrupt_count_val (one_process k) = 1"
  "current_running (one_process k) = 1"
  "pcb_at (one_process k) = (\<lambda>_. zero_pcb)(1 := zero_pcb\<lparr>page_directory := frame_addr 0, swap_loc := 10,
        swap_size := 20\<rparr>)"
  "pmem (one_process k) = write32 (\<lambda>_. 0) (entry_addr (frame_addr 0) 4) (pde_of (frame_addr 1) 7)"
proof -
  have "initialize_page_frame_infos static_vm =
     static_vm\<lparr>infos := infos (initialize_page_frame_infos static_vm), page_free_head := Info 0\<rparr>"
    using initialize_page_frame_infos_free [of static_vm] by blast
  then obtain i where i: "initialize_page_frame_infos static_vm = static_vm\<lparr>infos := i, page_free_head := Info 0\<rparr>"
    "infos (initialize_page_frame_infos static_vm) = i"
    by blast
  show "infos (one_process k) = infos (initialize_page_frame_infos static_vm)"
    "fifo_queue (one_process k) = fifo_init" "vm_locked (one_process k) = (\<lambda>_. False)"
    "disk (one_process k) = disk static_vm" "kernel_pdir (one_process k) = 0x200000"
    "cr2 (one_process k) = 0x1000123" "nointerrupt_count_val (one_process k) = 1"
    "current_running (one_process k) = 1"
    "pcb_at (one_process k) = (\<lambda>_. zero_pcb)(1 := zero_pcb\<lparr>page_directory := frame_addr 0, swap_loc := 10,
        swap_size := 20\<rparr>)"
    "pmem (one_process k) = write32 (\<lambda>_. 0) (entry_addr (frame_addr 0) 4) (pde_of (frame_addr 1) 7)"
    by (simp_all add: one_process_def i) (simp_all add: static_vm_def)
qed

lemma one_process_disk: "disk_ready (disk static_vm) ram_sector cap" "\<not> scsi_dev_lock (disk static_vm)"
  by (simp_all add: disk_ready_def static_vm_def ram_disk_like)

lemma one_process_tables:
  assumes "pmem s = pmem (one_process k)" "pcb_at s = pcb_at (one_process k)"
    and "\<not> in_fifo s 0" "\<not> in_fifo s 1" "2 \<le> k'" "0 \<notin> A" "1 \<notin> A"
    and "get_directory_index v = 4"
  shows "tables_at s k' A 1 v 0 1"
proof -
  have "frame_addr 1 \<noteq> frame_addr 0" "frame_addr 1 \<noteq> 0" by (simp_all add: frame_addr_def addr_defs)
  moreover have "frame_addr 1 AND PE_BASE_ADDR_MASK = frame_addr 1"
    by (simp add: frame_addr_def addr_defs pe_defs)
  ultimately show ?thesis
    using assms by (simp add: tables_at_def one_process_fields bit_pde_of pde_of_base zero_pcb_def)
qed

lemma one_process_inv: "2 \<le> k \<Longrightarrow> k \<le> PAGEABLE_PAGES \<Longrightarrow> vm_inv k {} (one_process k)"
  using one_process_free [of k] one_process_disk
  by (simp add: vm_inv_def one_process_fields fifo_init_invar)

lemma one_process_loadable: "loadable (one_process 2) 2 1 0x1000123 0 1"
proof -
  have "tables_at (one_process 2) 2 {} 1 0x1000123 0 1"
    by (rule one_process_tables)
      (simp_all add: in_fifo_def one_process_fields fifo_init_invar get_directory_index_def pe_defs)
  then show ?thesis
    using one_process_inv [of 2]
    by (simp add: loadable_def one_process_fields PAGEABLE_PAGES_def zero_pcb_def
        dummy_kernel_pcb_def PCB_TABLE_SIZE_def) (simp add: frame_addr_def addr_defs)
qed

lemma full_memory_queue:
  "fifo_invar (fifo_queue full_memory)" "fifo_contents (fifo_queue full_memory) = [5]"
proof -
  obtain q where "fifo_enqueue 5 fifo_init = (True, q)" "fifo_invar q" "fifo_contents q = [5]"
    using fifo_enqueue_refines [OF fifo_init_invar(1), of 5] fifo_init_invar(2)
    by (auto simp: fifo_init_def PAGEABLE_PAGES_def)
  then show "fifo_invar (fifo_queue full_memory)" "fifo_contents (fifo_queue full_memory) = [5]"
    by (simp_all add: full_memory_def)
qed

lemma full_memory_info:
  "infos full_memory (Info 5) = (infos (one_process PAGEABLE_PAGES) (Info 5))
     \<lparr>fi_owner := 1, next_shared_info := InfoNull, fi_vaddr := 0x1000000,
       info_mode := PE_INFO_USER_MODE\<rparr>"
  by (simp add: full_memory_def)

lemma full_memory_inv: "vm_inv PAGEABLE_PAGES {} full_memory"
proof -
  have d: "get_directory_index 0x1000000 = 4" by (simp add: get_directory_index_def pe_defs)
  have "tables_at full_memory PAGEABLE_PAGES {} 1 0x1000000 0 1"
    by (rule one_process_tables [where k = PAGEABLE_PAGES])
      (simp_all add: d in_fifo_def full_memory_queue, simp_all add: full_memory_def PAGEABLE_PAGES_def)
  then have e: "evictable full_memory PAGEABLE_PAGES {} 5"
    unfolding evictable_def full_memory_info
    by (auto simp: PAGEABLE_PAGES_def dummy_kernel_pcb_def PCB_TABLE_SIZE_def)
      (simp add: full_memory_def one_process_fields frame_addr_def addr_defs)
  have "free_from PAGEABLE_PAGES full_memory"
    using one_process_free [of PAGEABLE_PAGES] by (simp add: free_from_def full_memory_def)
  then show ?thesis
    using e one_process_disk
    by (simp add: vm_inv_def full_memory_queue) (simp add: full_memory_def one_process_fields)
qed

lemma other_frame:
  assumes "in_page (frame_addr i) a" "i < 1000" "i \<noteq> j" "j < 1000"
  shows "\<not> in_page (frame_addr j) a"
  using assms by (auto simp: in_page_def unat_frame_addr)

lemma not_bit_base: "\<not> bit (w AND PE_BASE_ADDR_MASK) 0"
  by (simp add: pe_masks bit_simps)

section \<open>Demand paging\<close>

text \<open>
  C1: A page fault on a page of the running process's image ends with that page mapped: the
  hardware's walk from the process's page directory translates the faulting address, in user
  mode, to the frame that was filled, the frame holds the page of the image on disk (zeros
  behind the last sector), the frame is a candidate for later eviction, and the invariant of
  the memory manager, the locks and the nesting count are kept. The fault is served whether a
  frame is free or the oldest page has to be evicted.
\<close>

theorem page_fault_loads_page:
  assumes "loadable s k (current_running s) v d t" "disk_ready (disk s) sec cap"
    and "n = unat (block_count_at (swap_size (pcb_at s (current_running s))) (sector_offset v))"
    and "loc = unat (swap_loc (pcb_at s (current_running s)) + sector_offset v)"
    and "loc + n \<le> cap" "cr2 s = v" "error_code AND 1 = 0" "\<not> vm_locked s PageMapLock"
  shows "\<exists>j k' s'. page_fault_handler EVICTION_STRATEGY_FIFO error_code s = Inr s' \<and>
    vm_inv k' {} s' \<and> in_fifo s' j \<and>
    mmu_translate (pmem s') (page_directory (pcb_at s' (current_running s))) True v =
      Some (frame_addr j OR (v AND 0xfff)) \<and>
    load_bytes (pmem s') (frame_addr j) 4096 = image_page sec (driver (disk s')) loc n \<and>
    vm_locked s' = vm_locked s \<and> nointerrupt_count_val s' = nointerrupt_count_val s"
  using handler_loads_page [OF assms] by auto

theorem page_fault_loads_page_witness:
  "\<exists>j s'. page_fault_handler EVICTION_STRATEGY_FIFO 4 (one_process 2) = Inr s' \<and>
    load_bytes (pmem s') (frame_addr j) 4096 = image_page ram_sector (driver (disk s')) 10 8"
proof -
  have "sector_offset 0x1000123 = 0" "block_count_at 20 0 = 8"
    by (simp_all add: sector_offset_def block_count_at_def addr_defs)
  then show ?thesis
    using page_fault_loads_page [OF _ _ refl refl, of "one_process 2" 2 "0x1000123" 0 1 ram_sector 100 4]
      one_process_loadable one_process_disk(1) [of 100]
    by (auto simp: one_process_fields zero_pcb_def)
qed

text \<open>
  C4: When no frame is free, \<open>allocate_page\<close> evicts the page that was loaded first: its frame
  is returned, its owner's page table no longer translates its address, the other pages stay
  in the queue in their order, and the invariant holds. The frame is handed out with the
  evicted page's contents still in it.
\<close>

theorem allocate_evicts_oldest:
  assumes "vm_inv PAGEABLE_PAGES A s" "fifo_contents (fifo_queue s) = x # xs"
    and "p = fi_owner (infos s (Info (unat x)))" "v = fi_vaddr (infos s (Info (unat x)))"
  shows "\<exists>s'. allocate_page EVICTION_STRATEGY_FIFO s = Inr (frame_addr (unat x), s') \<and>
    vm_inv PAGEABLE_PAGES (insert (unat x) A) s' \<and> fifo_contents (fifo_queue s') = xs \<and>
    mmu_walk (pmem s') (page_directory (pcb_at s' p)) v = None \<and>
    load_bytes (pmem s') (frame_addr (unat x)) 4096 = load_bytes (pmem s) (frame_addr (unat x)) 4096"
proof -
  from allocate_evict [OF assms(1,2)] obtain d t s' where
    s': "allocate_page EVICTION_STRATEGY_FIFO s = Inr (frame_addr (unat x), s')"
    "allocated PAGEABLE_PAGES A s (unat x) PAGEABLE_PAGES s'" "fifo_contents (fifo_queue s') = xs"
    "tables_at s PAGEABLE_PAGES A p v d t"
    "pmem s' = write32 (pmem s) (entry_addr (frame_addr t) (get_table_index v))
      (read32 (pmem s) (entry_addr (frame_addr t) (get_table_index v)) AND PE_BASE_ADDR_MASK)"
    unfolding assms(3,4) by blast
  note dt = tables_at_bounds(1-3) [OF s'(4) order_refl]
  have inv: "vm_inv PAGEABLE_PAGES (insert (unat x) A) s'" and "unat x < PAGEABLE_PAGES"
    and same: "pcb_at s' = pcb_at s"
    using s'(2) unfolding allocated_def same_vm_def by blast+
  have pd: "\<not> in_fifo s t" "page_directory (pcb_at s p) = frame_addr d"
      "read32 (pmem s) (entry_addr (frame_addr d) (get_directory_index v)) AND PE_BASE_ADDR_MASK = frame_addr t"
    using s'(4) unfolding tables_at_def by blast+
  have "in_fifo s (unat x)" by (simp add: in_fifo_def assms(2))
  then have x: "unat x < 1000" "unat x \<noteq> t"
    using pd(1) \<open>unat x < PAGEABLE_PAGES\<close> by (auto simp: PAGEABLE_PAGES_def)
  have fr: "frame_addr d \<noteq> frame_addr t" using dt by (simp add: frame_addr_inj)
  have "mmu_walk (pmem s') (page_directory (pcb_at s' p)) v = None"
    using dt fr
    by (simp add: mmu_walk_eq frame_addr_aligned Let_def s'(5) read32_write32_entry index_bounds
        not_bit_base same pd)
  moreover have "load_bytes (pmem s') (frame_addr (unat x)) 4096 = load_bytes (pmem s) (frame_addr (unat x)) 4096"
  proof (rule load_bytes_cong [OF frame_addr_aligned [OF x(1)]])
    fix a
    assume "in_page (frame_addr (unat x)) a"
    then have "\<not> in_page (frame_addr t) a" using x dt(2) by (rule other_frame)
    then show "pmem s' a = pmem s a"
      unfolding s'(5) by (intro write32_entry_outside frame_addr_aligned index_bounds dt)
  qed
  ultimately show ?thesis using s'(1,3) inv by blast
qed

theorem allocate_evicts_oldest_witness:
  "\<exists>s'. allocate_page EVICTION_STRATEGY_FIFO full_memory = Inr (frame_addr 5, s') \<and>
    mmu_walk (pmem s') (page_directory (pcb_at s' 1)) 0x1000000 = None"
proof -
  have "1 = fi_owner (infos full_memory (Info (unat (5 :: u32))))"
    "0x1000000 = fi_vaddr (infos full_memory (Info (unat (5 :: u32))))"
    by (simp_all add: full_memory_info)
  from allocate_evicts_oldest [OF full_memory_inv full_memory_queue(2) this] show ?thesis
    by auto
qed

text \<open>
  C7: While frames are free, \<open>allocate_page\<close> returns the lowest free frame with its page
  zeroed and keeps the invariant, and no byte of a frame in use changes, although the code
  zeroes four pages from the frame on.
\<close>

theorem allocate_zeroes_free_frame:
  assumes "vm_inv k A s" "k < PAGEABLE_PAGES" "A \<subseteq> {..<k}"
  shows "\<exists>s'. allocate_page strategy s = Inr (frame_addr k, s') \<and> vm_inv (Suc k) (insert k A) s' \<and>
    load_bytes (pmem s') (frame_addr k) 4096 = replicate 4096 0 \<and>
    (\<forall>a. unat a < unat (frame_addr k) \<longrightarrow> pmem s' a = pmem s a) \<and>
    (\<forall>a. unat (frame_addr k) \<le> unat a \<and> unat a < unat (frame_addr k) + 16384 \<longrightarrow> pmem s' a = 0)"
proof -
  from allocate_free [OF assms, of strategy] obtain s' where s':
    "allocate_page strategy s = Inr (frame_addr k, s')" "allocated k A s k (Suc k) s'"
    "\<forall>a. pmem s' a = (if unat (frame_addr k) \<le> unat a \<and> unat a < unat (frame_addr k) + 16384
                      then 0 else pmem s a)" by blast
  have k: "k < 1000" using assms(2) by (simp add: PAGEABLE_PAGES_def)
  have "pmem s' (frame_addr k + of_nat i) = 0" if "i < 4096" for i
    using that k unat_add_small [of "frame_addr k" i] by (simp add: s'(3) unat_frame_addr)
  then have "load_bytes (pmem s') (frame_addr k) 4096 = replicate 4096 0"
    by (auto simp: load_bytes_def intro: nth_equalityI)
  then show ?thesis using s' by (auto simp: allocated_def)
qed

theorem allocate_zeroes_free_frame_witness:
  "\<exists>s'. allocate_page EVICTION_STRATEGY_FIFO (one_process 2) = Inr (frame_addr 2, s') \<and>
    load_bytes (pmem s') (frame_addr 2) 4096 = replicate 4096 0"
proof -
  have "vm_inv 2 {} (one_process 2)" "2 < PAGEABLE_PAGES" "{} \<subseteq> {..<2 :: nat}"
    using one_process_inv [of 2] by (simp_all add: PAGEABLE_PAGES_def)
  from allocate_zeroes_free_frame [OF this, of EVICTION_STRATEGY_FIFO] show ?thesis by blast
qed

text \<open>
  C6: Swapping keeps the data. Writing a page of a process image back to disk and loading that
  page again, into any frame, gives the bytes the page had, for the part of the page inside
  the image; the rest of the page is zero.
\<close>

theorem swap_roundtrip:
  assumes "\<not> vm_locked s WriteBufferLock" "\<not> vm_locked s ReadBufferLock" "disk_ready (disk s) sec cap"
    and "sector_offset v \<le> swap_size (pcb_at s p)"
    and "get_page_table v (page_directory (pcb_at s p)) s \<noteq> 0"
    and "n = unat (block_count_at (swap_size (pcb_at s p)) (sector_offset v))"
    and "lba = swap_loc (pcb_at s p) + sector_offset v" "unat lba + n \<le> cap" "page_aligned f"
  shows "\<exists>s1 s2. write_page_back_to_disk v p pa s = Inr (0, s1) \<and>
    disk_loader lba (of_nat n) f s1 = Inr (0, s2) \<and>
    load_bytes (pmem s2) f 4096 =
      load_bytes (pmem s) pa (SECTOR_BYTES * n) @ replicate (4096 - SECTOR_BYTES * n) 0"
proof -
  have n: "n \<le> 8" using assms(6) block_count_le by simp
  have "unat lba = unat (swap_loc (pcb_at s p) + sector_offset v)" by (simp add: assms(7))
  from write_page_back_stores [OF assms(1,3-6) n this assms(8), of pa] obtain s1 where s1:
    "write_page_back_to_disk v p pa s = Inr (0, s1)" "disk_ready (disk s1) sec cap"
    "vm_locked s1 = vm_locked s" "image_page sec (driver (disk s1)) (unat lba) n =
      load_bytes (pmem s) pa (SECTOR_BYTES * n) @ replicate (4096 - SECTOR_BYTES * n) 0" by blast
  from s1(3) assms(2) have "\<not> vm_locked s1 ReadBufferLock" by simp
  from disk_loader_spec [OF this s1(2) assms(8) n, of f] obtain s2 where s2:
    "disk_loader lba (of_nat n) f s1 = Inr (0, s2)"
    "pmem s2 = store_bytes f (image_page sec (driver (disk s1)) (unat lba) n) (pmem s1)" by blast
  have "load_bytes (pmem s2) f 4096 = image_page sec (driver (disk s1)) (unat lba) n"
    unfolding s2(2) by (rule load_store_bytes [OF assms(9) length_image_page [OF s1(2) n]])
  with s1 s2(1) show ?thesis by auto
qed

theorem swap_roundtrip_witness:
  "\<exists>s1 s2. write_page_back_to_disk 0x1000123 1 (frame_addr 3) (one_process 2) = Inr (0, s1) \<and>
    disk_loader 10 8 (frame_addr 7) s1 = Inr (0, s2) \<and>
    load_bytes (pmem s2) (frame_addr 7) 4096 = load_bytes (pmem (one_process 2)) (frame_addr 3) 4096"
proof -
  have "sector_offset 0x1000123 = 0" "block_count_at 20 0 = 8"
    by (simp_all add: sector_offset_def block_count_at_def addr_defs)
  moreover have "get_page_table 0x1000123 (frame_addr 0) (one_process 2) \<noteq> 0"
    using one_process_loadable
    by (simp add: get_page_table_def loadable_def tables_at_def and_PE_P one_process_fields
        frame_addr_nonzero)
  ultimately have h: "sector_offset 0x1000123 \<le> swap_size (pcb_at (one_process 2) 1)"
    "get_page_table 0x1000123 (page_directory (pcb_at (one_process 2) 1)) (one_process 2) \<noteq> 0"
    "8 = unat (block_count_at (swap_size (pcb_at (one_process 2) 1)) (sector_offset 0x1000123))"
    "10 = swap_loc (pcb_at (one_process 2) 1) + sector_offset 0x1000123"
    by (simp_all add: one_process_fields zero_pcb_def)
  have "disk_ready (disk (one_process 2)) ram_sector 100" "\<not> vm_locked (one_process 2) l" for l
    using one_process_disk by (simp_all add: one_process_fields)
  from swap_roundtrip [OF this(2) this(2) this(1) h _ frame_addr_aligned, of 7 "frame_addr 3"]
  show ?thesis by (simp add: SECTOR_BYTES_def)
qed

text \<open>
  C8: A fault that is not a missing page (bit 0 of the error code set: a protection violation)
  never loads or maps anything: the handler stops in \<open>abortk\<close>.
\<close>

theorem page_fault_protection_aborts:
  assumes "bit error_code 0"
  shows "page_fault_handler strategy error_code s = Inl Abortk"
  using assms and_PE_P [of error_code]
  by (simp add: page_fault_handler_def Let_def PE_P_def)

theorem page_fault_protection_aborts_witness:
  "page_fault_handler EVICTION_STRATEGY_FIFO 7 (one_process 2) = Inl Abortk"
  using page_fault_protection_aborts [of 7] by (simp add: bit_iff_odd)


end
