(* ===== verification/SpaceProps.thy ===== *)
theory SpaceProps
  imports AddressSpaces VmProps
begin

text \<open>
  The properties of the address spaces that \<open>kernel/memory.c\<close> sets up: the kernel's after
  \<open>init_memory\<close>, a process's after \<open>setup_process_vmem\<close>, and the way from there to the first
  page of the process's image.
\<close>

unbundle bit_operations_syntax

section \<open>The system at boot\<close>

text \<open>The memory manager before initialisation, with one process in the process table.\<close>

definition boot_vm :: "ram vm" where
  "boot_vm = static_vm\<lparr>pcb_at := (\<lambda>_. zero_pcb)(1 := zero_pcb\<lparr>swap_loc := 10, swap_size := 20\<rparr>)\<rparr>"

lemma no_directory_zero: "(\<And>q. page_directory (pcb_at s q) = 0) \<Longrightarrow> j < 1000 \<Longrightarrow> no_directory s j"
  by (metis frame_addr_nonzero no_directory_def)

lemma boot_vm_fields:
  "\<not> vm_locked boot_vm l" "\<not> scsi_dev_lock (disk boot_vm)" "disk_ready (disk boot_vm) ram_sector cap"
  "page_directory (pcb_at boot_vm q) = 0" "is_thread (pcb_at boot_vm 1) = 0"
  "swap_loc (pcb_at boot_vm 1) = 10" "swap_size (pcb_at boot_vm 1) = 20" "first_process boot_vm = 1"
  using one_process_disk by (simp_all add: boot_vm_def zero_pcb_def) (simp_all add: static_vm_def)

lemma booted:
  assumes "\<And>l. \<not> vm_locked s l" "\<not> scsi_dev_lock (disk s)" "\<And>q. page_directory (pcb_at s q) = 0"
    and "p \<noteq> dummy_kernel_pcb" "is_thread (pcb_at s p) = 0" "unat (swap_size (pcb_at s p)) \<le> 8192"
    and "first_process s \<noteq> 0"
  shows "\<exists>t. init_memory strategy s = Inr t \<and> process_ready t 3 p 2 \<and> kernel_pdir t = frame_addr 0 \<and>
    pcb_at t p = pcb_at s p \<and> disk t = disk s \<and> (\<forall>l. \<not> vm_locked t l) \<and>
    (\<forall>j < 1000. no_directory t j) \<and> fifo_contents (fifo_queue t) = []"
proof -
  from init_memory_spec [OF assms(1,2), of strategy] no_directory_zero [OF assms(3)] obtain t where t:
    "init_memory strategy s = Inr t" "vm_inv 3 {} t" "fifo_contents (fifo_queue t) = []"
    "vm_locked t = vm_locked s" "kernel_pdir t = frame_addr 0" "user_kernel_ptable t = frame_addr 2"
    "first_process t = first_process s" "disk t = disk s"
    "pcb_at t = (pcb_at s)(dummy_kernel_pcb := (pcb_at s dummy_kernel_pcb)\<lparr>is_thread := 1\<rparr>)"
    by auto
  have "page_directory (pcb_at t q) = 0" for q using assms(3) by (simp add: t(9))
  from no_directory_zero [OF this] have nd: "no_directory t j" if "j < 1000" for j using that by blast
  then have "process_ready t 3 p 2"
    using assms t by (simp add: process_ready_def PAGEABLE_PAGES_def)
  then show ?thesis using t nd assms(1,4) by auto
qed

lemma loadable_resume:
  assumes "loadable s k p v d t"
  shows "loadable (s\<lparr>current_running := q, cr2 := a\<rparr>) k p v d t"
proof -
  have "vm_inv k {} s" using assms by (simp add: loadable_def)
  then have "vm_inv k {} (s\<lparr>current_running := q, cr2 := a\<rparr>)" by (rule vm_inv_change) simp_all
  then show ?thesis using assms by (auto simp: loadable_def tables_at_def in_fifo_def)
qed

section \<open>Address spaces\<close>

text \<open>
  C5: After \<open>init_memory\<close> the kernel's page directory maps the first 4 MiB one to one for the
  kernel, gives user mode nothing, and maps nothing above; three frames are in use, the rest
  are free, no page is evictable and every lock is free again.
\<close>

theorem kernel_identity_map:
  assumes "\<And>l. \<not> vm_locked s l" "\<not> scsi_dev_lock (disk s)" "\<And>j. j < 3 \<Longrightarrow> no_directory s j"
  shows "\<exists>t. init_memory strategy s = Inr t \<and> vm_inv 3 {} t \<and> fifo_contents (fifo_queue t) = [] \<and>
    vm_locked t = vm_locked s \<and>
    (\<forall>user v. mmu_translate (pmem t) (kernel_pdir t) user v =
       (if unat v < 4194304 \<and> \<not> user then Some v else None))"
proof -
  from init_memory_spec [OF assms, of strategy] obtain t where t:
    "init_memory strategy s = Inr t" "vm_inv 3 {} t" "fifo_contents (fifo_queue t) = []"
    "vm_locked t = vm_locked s" "kernel_pdir t = frame_addr 0"
    "kernel_table (kernel_mode OR PE_PCD) (pmem t) (frame_addr 1)"
    "\<forall>i. unat i < 1024 \<longrightarrow> read32 (pmem t) (entry_addr (frame_addr 0) i) =
       (if i = 0 then pde_of (frame_addr 1) (kernel_mode OR PE_PCD) else 0)" by auto
  have al: "page_aligned (frame_addr 0)" "page_aligned (frame_addr 1)" by (simp_all add: frame_addr_aligned)
  have m: "bit (kernel_mode OR PE_PCD) 0" "\<not> bit (kernel_mode OR PE_PCD) 2"
    by (simp_all add: kernel_mode_def pe_bits bit_simps)
  have low: "mmu_translate (pmem t) (kernel_pdir t) user v = (if user then None else Some v)"
    if "unat v < 4194304" for user v
    using kernel_area_translate [OF al t(6) _ m(1) that, of user] t(5,7) m(2) by simp
  have high: "mmu_translate (pmem t) (kernel_pdir t) user v = None" if "\<not> unat v < 4194304" for user v
  proof -
    have "get_directory_index v \<noteq> 0"
      using that by (simp add: word_unat_eq_iff unat_directory_index div_eq_0_iff)
    then show ?thesis
      using t(7) index_bounds(1) [of v] by (simp add: mmu_translate_def mmu_walk_eq [OF al(1)] t(5) Let_def)
  qed
  have "mmu_translate (pmem t) (kernel_pdir t) user v =
      (if unat v < 4194304 \<and> \<not> user then Some v else None)" for user v
    using low high by (cases "unat v < 4194304") simp_all
  then show ?thesis using t(1-4) by blast
qed

theorem kernel_identity_map_witness:
  "\<exists>t. init_memory EVICTION_STRATEGY_FIFO boot_vm = Inr t \<and>
    mmu_translate (pmem t) (kernel_pdir t) False 0xb8000 = Some 0xb8000 \<and>
    mmu_translate (pmem t) (kernel_pdir t) True 0xb8000 = None"
proof -
  have "no_directory boot_vm j" if "j < 3" for j
    using that no_directory_zero [of boot_vm j] boot_vm_fields(4) by simp
  from kernel_identity_map [OF boot_vm_fields(1,2) this, of EVICTION_STRATEGY_FIFO] obtain t where
    "init_memory EVICTION_STRATEGY_FIFO boot_vm = Inr t"
    "\<forall>user v. mmu_translate (pmem t) (kernel_pdir t) user v =
       (if unat v < 4194304 \<and> \<not> user then Some v else None)" by blast
  then show ?thesis by auto
qed



text \<open>
  C3: From power-up to the first instruction of a process: \<open>init_memory\<close> and
  \<open>setup_process_vmem\<close> succeed, and a fault of the process at any address of its image that
  it then takes is served, with the page of the image on disk mapped at that address.
\<close>

theorem boot_to_first_page:
  assumes "\<And>l. \<not> vm_locked s l" "\<And>q. page_directory (pcb_at s q) = 0" "first_process s \<noteq> 0"
    and "p \<noteq> dummy_kernel_pcb" "p \<noteq> 0" "is_thread (pcb_at s p) = 0"
    and "unat (swap_size (pcb_at s p)) \<le> 8192" "disk_ready (disk s) sec cap"
    and "get_directory_index v = get_directory_index PROCESS_VADDR"
    and "n = unat (block_count_at (swap_size (pcb_at s p)) (sector_offset v))"
    and "loc = unat (swap_loc (pcb_at s p) + sector_offset v)" "loc + n \<le> cap"
  shows "\<exists>s1 s2 s3 j. init_memory EVICTION_STRATEGY_FIFO s = Inr s1 \<and>
    setup_process_vmem EVICTION_STRATEGY_FIFO p s1 = Inr s2 \<and>
    page_fault_handler EVICTION_STRATEGY_FIFO 4 (s2\<lparr>current_running := p, cr2 := v\<rparr>) = Inr s3 \<and>
    mmu_translate (pmem s3) (page_directory (pcb_at s3 p)) True v = Some (frame_addr j OR (v AND 0xfff)) \<and>
    load_bytes (pmem s3) (frame_addr j) 4096 = image_page sec (driver (disk s3)) loc n"
proof -
  from assms(8) have sl: "\<not> scsi_dev_lock (disk s)" by (simp add: disk_ready_def)
  from booted [OF assms(1) sl assms(2,4,6,7,3), of EVICTION_STRATEGY_FIFO] obtain s1 where s1:
    "init_memory EVICTION_STRATEGY_FIFO s = Inr s1" "process_ready s1 3 p 2" "kernel_pdir s1 = frame_addr 0"
    "pcb_at s1 p = pcb_at s p" "disk s1 = disk s" "\<forall>l. \<not> vm_locked s1 l" "\<forall>j < 1000. no_directory s1 j"
    "fifo_contents (fifo_queue s1) = []" by blast
  from setup_process_spec [OF s1(2), of EVICTION_STRATEGY_FIFO] obtain s2 where s2:
    "setup_process_vmem EVICTION_STRATEGY_FIFO p s1 = Inr s2" "vm_inv (3 + 3) {} s2"
    "address_space s2 3 p (frame_addr 2)" "vm_locked s2 = vm_locked s1" "fifo_queue s2 = fifo_queue s1"
    "disk s2 = disk s1" "kernel_pdir s2 = kernel_pdir s1"
    "pcb_at s2 = (pcb_at s1)(p := (pcb_at s1 p)\<lparr>page_directory := frame_addr 3\<rparr>)" by auto
  have "no_directory s2 (3 + 1)" "frame_addr 3 \<noteq> frame_addr 0"
    using s1(7) by (simp_all add: no_directory_def s2(8) frame_addr_inj)
  from address_space_tables [OF s2(3,2) _ _ this(1) assms(9)] this(2)
  have "loadable s2 6 p v 3 4"
    using s2(2) assms(4-6) s1(3,4,8)
    by (simp add: loadable_def in_fifo_def s2(5,7,8) PAGEABLE_PAGES_def)
  then have ld: "loadable (s2\<lparr>current_running := p, cr2 := v\<rparr>) 6 p v 3 4"
    by (rule loadable_resume)
  obtain j s3 where "page_fault_handler EVICTION_STRATEGY_FIFO 4 (s2\<lparr>current_running := p, cr2 := v\<rparr>) = Inr s3"
    "mmu_translate (pmem s3) (frame_addr 3) True v = Some (frame_addr j OR (v AND 0xfff))"
    "load_bytes (pmem s3) (frame_addr j) 4096 = image_page sec (driver (disk s3)) loc n"
    "page_directory (pcb_at s3 p) = frame_addr 3"
    using handler_loads_page [of "s2\<lparr>current_running := p, cr2 := v\<rparr>" 6 v 3 4 sec cap n loc 4]
      ld assms(8,10-12) s1(4,5,6) s2(4,6,8) by auto
  then show ?thesis using s1(1) s2(1) by auto
qed

theorem boot_to_first_page_witness:
  "\<exists>s1 s2 s3 j. init_memory EVICTION_STRATEGY_FIFO boot_vm = Inr s1 \<and>
    setup_process_vmem EVICTION_STRATEGY_FIFO 1 s1 = Inr s2 \<and>
    page_fault_handler EVICTION_STRATEGY_FIFO 4 (s2\<lparr>current_running := 1, cr2 := 0x1000123\<rparr>) = Inr s3 \<and>
    mmu_translate (pmem s3) (page_directory (pcb_at s3 1)) True 0x1000123 = Some (frame_addr j OR 0x123) \<and>
    load_bytes (pmem s3) (frame_addr j) 4096 = image_page ram_sector (driver (disk s3)) 10 8"
proof -
  have "sector_offset 0x1000123 = 0" "block_count_at 20 0 = 8"
    by (simp_all add: sector_offset_def block_count_at_def addr_defs)
  then have "8 = unat (block_count_at (swap_size (pcb_at boot_vm 1)) (sector_offset 0x1000123))"
    "10 = unat (swap_loc (pcb_at boot_vm 1) + sector_offset 0x1000123)"
    unfolding boot_vm_fields by simp_all
  moreover have "1 \<noteq> dummy_kernel_pcb" "(1 :: nat) \<noteq> 0" "unat (swap_size (pcb_at boot_vm 1)) \<le> 8192"
    "first_process boot_vm \<noteq> 0" "(10 :: nat) + 8 \<le> 100"
    "get_directory_index 0x1000123 = get_directory_index PROCESS_VADDR"
    unfolding boot_vm_fields
    by (simp_all add: dummy_kernel_pcb_def PCB_TABLE_SIZE_def get_directory_index_def pe_defs addr_defs)
  ultimately show ?thesis
    using boot_to_first_page [of boot_vm 1 ram_sector 100 "0x1000123" 8 10]
      boot_vm_fields(1,3,4,5) by (simp del: One_nat_def)
qed

end
