(* ===== verification/CStrings.thy ===== *)
theory CStrings
  imports Machine
begin

text \<open>
  The string functions of \<open>lib/libc/string_core.c\<close>, the character classes of
  \<open>ctype_core.c\<close>, the conversions of \<open>stdlib_core.c\<close> and the string helpers of
  \<open>lib/util/util.c\<close>, on byte-addressed memory. A pointer is an address and pointer arithmetic
  wraps around; \<open>char\<close> is signed, as on the i386 target. A loop that is bounded by a count
  is recursion on the count; one that runs until it finds a terminator is a partial function
  whose value is \<open>None\<close> when there is none.
\<close>

unbundle bit_operations_syntax

type_synonym mem = pmem_t

section \<open>Copying\<close>

primrec memcpy_loop :: "nat \<Rightarrow> u32 \<Rightarrow> u32 \<Rightarrow> mem \<Rightarrow> mem" where
  "memcpy_loop 0 cur src m = m"
| "memcpy_loop (Suc n) cur src m = memcpy_loop n (cur + 1) (src + 1) (m(cur := m src))"

definition memcpy :: "u32 \<Rightarrow> u32 \<Rightarrow> u32 \<Rightarrow> mem \<Rightarrow> u32 \<times> mem" where
  "memcpy dest src count m = (dest, memcpy_loop (unat count) dest src m)"

text \<open>The two loops of \<open>bcopy\<close>: from the last byte down, and from the first byte up.\<close>

primrec bcopy_down :: "nat \<Rightarrow> u32 \<Rightarrow> u32 \<Rightarrow> mem \<Rightarrow> mem" where
  "bcopy_down 0 source destin m = m"
| "bcopy_down (Suc i) source destin m =
     bcopy_down i source destin (m(destin + of_nat i := m (source + of_nat i)))"

primrec bcopy_up :: "nat \<Rightarrow> nat \<Rightarrow> u32 \<Rightarrow> u32 \<Rightarrow> mem \<Rightarrow> mem" where
  "bcopy_up 0 i source destin m = m"
| "bcopy_up (Suc n) i source destin m =
     bcopy_up n (Suc i) source destin (m(destin + of_nat i := m (source + of_nat i)))"

definition bcopy :: "u32 \<Rightarrow> u32 \<Rightarrow> int \<Rightarrow> mem \<Rightarrow> mem" where
  "bcopy source destin sz m =
     (if sz = 0 then m
      else if source < destin then bcopy_down (nat sz) source destin m
      else bcopy_up (nat sz) 0 source destin m)"

partial_function (option) strcpy_loop :: "u32 \<Rightarrow> u32 \<Rightarrow> mem \<Rightarrow> mem option" where
  "strcpy_loop dest src m =
     (let copiedchar = m src; m = m(dest := copiedchar)
      in if copiedchar = 0 then Some m else strcpy_loop (dest + 1) (src + 1) m)"

definition strcpy :: "u32 \<Rightarrow> u32 \<Rightarrow> mem \<Rightarrow> (u32 \<times> mem) option" where
  "strcpy dest src m = map_option (Pair dest) (strcpy_loop dest src m)"

text \<open>
  The copying loop shared by \<open>strncpy\<close> and \<open>strncat\<close>: it returns the count that is left,
  the position reached in the destination and the memory.
\<close>

primrec copy_loop :: "nat \<Rightarrow> u32 \<Rightarrow> u32 \<Rightarrow> mem \<Rightarrow> nat \<times> u32 \<times> mem" where
  "copy_loop 0 dest src m = (0, dest, m)"
| "copy_loop (Suc n) dest src m =
     (let copiedchar = m src; m = m(dest := copiedchar)
      in if copiedchar = 0 then (Suc n, dest, m) else copy_loop n (dest + 1) (src + 1) m)"

primrec fill_loop :: "u8 \<Rightarrow> nat \<Rightarrow> u32 \<Rightarrow> mem \<Rightarrow> mem" where
  "fill_loop c 0 cur m = m"
| "fill_loop c (Suc n) cur m = fill_loop c n (cur + 1) (m(cur := c))"

definition strncpy :: "u32 \<Rightarrow> u32 \<Rightarrow> u32 \<Rightarrow> mem \<Rightarrow> u32 \<times> mem" where
  "strncpy dest src count m =
     (let (left, dest', m) = copy_loop (unat count) dest src m
      in (dest, fill_loop 0 left dest' m))"

section \<open>Concatenation\<close>

partial_function (option) find_end :: "u32 \<Rightarrow> mem \<Rightarrow> u32 option" where
  "find_end dest m = (if m dest \<noteq> 0 then find_end (dest + 1) m else Some dest)"

definition strncat :: "u32 \<Rightarrow> u32 \<Rightarrow> u32 \<Rightarrow> mem \<Rightarrow> (u32 \<times> mem) option" where
  "strncat dest src count m =
     (case find_end dest m of None \<Rightarrow> None
      | Some e \<Rightarrow>
          let (_, d, m) = copy_loop (unat count) e src m
          in Some (dest, if m d \<noteq> 0 then m(d + 1 := 0) else m))"

definition SIZE_MAX :: u32 where "SIZE_MAX = 0xffffffff"

definition strcat :: "u32 \<Rightarrow> u32 \<Rightarrow> mem \<Rightarrow> (u32 \<times> mem) option" where
  "strcat dest src m = strncat dest src SIZE_MAX m"

section \<open>Comparison\<close>

primrec memcmp_loop :: "nat \<Rightarrow> u32 \<Rightarrow> u32 \<Rightarrow> mem \<Rightarrow> int" where
  "memcmp_loop 0 b1 b2 m = 0"
| "memcmp_loop (Suc n) b1 b2 m =
     (if m b1 < m b2 then - 1 else if m b2 < m b1 then 1 else memcmp_loop n (b1 + 1) (b2 + 1) m)"

definition memcmp :: "u32 \<Rightarrow> u32 \<Rightarrow> u32 \<Rightarrow> mem \<Rightarrow> int" where
  "memcmp s1 s2 n m = memcmp_loop (unat n) s1 s2 m"

definition schar :: "u8 \<Rightarrow> int" where "schar b = sint b"

primrec strncmp_loop :: "nat \<Rightarrow> u32 \<Rightarrow> u32 \<Rightarrow> mem \<Rightarrow> int" where
  "strncmp_loop 0 s t m = 0"
| "strncmp_loop (Suc n) s t m =
     (if m s \<noteq> 0 \<and> m t \<noteq> 0 \<and> m s = m t then strncmp_loop n (s + 1) (t + 1) m
      else if schar (m s) < schar (m t) then - 1
      else if m s = m t then 0
      else if schar (m s) > schar (m t) then 1
      else strncmp_loop n (s + 1) (t + 1) m)"

definition strncmp :: "u32 \<Rightarrow> u32 \<Rightarrow> u32 \<Rightarrow> mem \<Rightarrow> int" where
  "strncmp s t n m = strncmp_loop (unat n) s t m"

definition strcmp :: "u32 \<Rightarrow> u32 \<Rightarrow> mem \<Rightarrow> int" where
  "strcmp s t m = strncmp s t SIZE_MAX m"

section \<open>Miscellaneous\<close>

definition memset :: "u32 \<Rightarrow> u32 \<Rightarrow> u32 \<Rightarrow> mem \<Rightarrow> u32 \<times> mem" where
  "memset s c n m = (s, fill_loop (ucast c) (unat n) s m)"

definition bzero :: "u32 \<Rightarrow> int \<Rightarrow> mem \<Rightarrow> mem" where
  "bzero area sz m = fill_loop 0 (nat sz) area m"

partial_function (option) strlen_loop :: "u32 \<Rightarrow> u32 \<Rightarrow> mem \<Rightarrow> u32 option" where
  "strlen_loop n s m = (if m s \<noteq> 0 then strlen_loop (n + 1) (s + 1) m else Some n)"

definition strlen :: "u32 \<Rightarrow> mem \<Rightarrow> u32 option" where
  "strlen s m = (if s = 0 then Some 0 else strlen_loop 0 s m)"

text \<open>The error numbers of \<open>errno.h\<close> and the names \<open>strerror\<close> has for them.\<close>

definition EDOM :: int where "EDOM = 1"
definition EILSEQ :: int where "EILSEQ = 2"
definition ERANGE :: int where "ERANGE = 3"
definition EINVAL :: int where "EINVAL = 4"
definition EIO :: int where "EIO = 5"
definition EUNIMPLEMENTED :: int where "EUNIMPLEMENTED = 2201"

lemmas errno_defs = EDOM_def EILSEQ_def ERANGE_def EINVAL_def EIO_def EUNIMPLEMENTED_def

definition strerror :: "int \<Rightarrow> string" where
  "strerror errnum =
     (if errnum = EDOM then ''EDOM'' else if errnum = EILSEQ then ''EILSEQ''
      else if errnum = ERANGE then ''ERANGE'' else if errnum = EINVAL then ''EINVAL''
      else if errnum = EUNIMPLEMENTED then ''EUNIMPLEMENTED'' else ''[unknown err]'')"

section \<open>Character classes and numbers\<close>

definition isdigit :: "int \<Rightarrow> bool" where
  "isdigit ch \<longleftrightarrow> ch \<in> {48, 49, 50, 51, 52, 53, 54, 55, 56, 57}"

definition isspace :: "int \<Rightarrow> bool" where
  "isspace ch \<longleftrightarrow> ch \<in> {32, 9, 10, 13, 12, 11}"

definition isprint :: "int \<Rightarrow> bool" where
  "isprint ch \<longleftrightarrow> 0x20 \<le> ch \<and> ch \<le> 0x7e"

definition isupper :: "int \<Rightarrow> bool" where
  "isupper ch \<longleftrightarrow> 65 \<le> ch \<and> ch \<le> 90"

definition islower :: "int \<Rightarrow> bool" where
  "islower ch \<longleftrightarrow> 97 \<le> ch \<and> ch \<le> 122"

partial_function (option) skip_space :: "u32 \<Rightarrow> mem \<Rightarrow> u32 option" where
  "skip_space s m = (if m s \<noteq> 0 \<and> isspace (schar (m s)) then skip_space (s + 1) m else Some s)"

text \<open>The accumulator is an \<open>int\<close>: 32 bits, wrapping around.\<close>

partial_function (option) atoi_loop :: "u32 \<Rightarrow> u32 \<Rightarrow> mem \<Rightarrow> u32 option" where
  "atoi_loop n s m =
     (if m s \<noteq> 0 \<and> isdigit (schar (m s))
      then atoi_loop (n * 10 + (scast (m s) - 48)) (s + 1) m else Some n)"

definition atoi :: "u32 \<Rightarrow> mem \<Rightarrow> u32 option" where
  "atoi s m =
     (if s = 0 then Some 0
      else case skip_space s m of None \<Rightarrow> None
      | Some s \<Rightarrow>
          let isnegative = (m s = 45);
              s = (if m s = 43 \<or> m s = 45 then s + 1 else s)
          in map_option (\<lambda>n. if isnegative then - n else n) (atoi_loop 0 s m))"

text \<open>The generator's state is the static variable \<open>rand_val\<close>.\<close>

definition rand :: "u32 \<Rightarrow> u32 \<times> u32" where
  "rand rand_val =
     (let rand_val = rand_val * 1103515245 + 12345
      in ((rand_val div 65536) mod 32768, rand_val))"

definition srand :: "u32 \<Rightarrow> u32" where
  "srand seed = seed"

section \<open>Helpers of \<open>util.c\<close>\<close>

partial_function (option) same_string :: "u32 \<Rightarrow> u32 \<Rightarrow> mem \<Rightarrow> bool option" where
  "same_string s1 s2 m =
     (if m s1 \<noteq> 0 \<and> m s2 \<noteq> 0
      then if m s1 \<noteq> m s2 then Some False else same_string (s1 + 1) (s2 + 1) m
      else Some (m s1 = m s2))"

text \<open>
  The first loop of \<open>strlcpy\<close> advances both pointers before it tests the byte it copied, so
  it ends one past the terminator when it ends there.
\<close>

primrec strlcpy_copy :: "nat \<Rightarrow> u32 \<Rightarrow> u32 \<Rightarrow> u32 \<Rightarrow> mem \<Rightarrow> u32 \<times> u32 \<times> u32 \<times> mem" where
  "strlcpy_copy 0 n dest src m = (n, dest, src, m)"
| "strlcpy_copy (Suc sz) n dest src m =
     (let c = m src; m = m(dest := c)
      in if c \<noteq> 0 then strlcpy_copy sz (n + 1) (dest + 1) (src + 1) m
         else (n, dest + 1, src + 1, m))"

definition strlcpy :: "u32 \<Rightarrow> u32 \<Rightarrow> int \<Rightarrow> mem \<Rightarrow> (u32 \<times> mem) option" where
  "strlcpy dest src sz m =
     (let (n, dest, src, m) = strlcpy_copy (nat (sz - 1)) 0 dest src m;
          m = m(dest := 0)
      in map_option (\<lambda>k. (n + k, m)) (strlen_loop 0 src m))"

end
