(* ===== verification/Stdio.thy ===== *)
theory Stdio
  imports CStrings
begin

text \<open>
  The printf family of \<open>lib/libc/stdio_core.c\<close>: output streams over a caller's buffer, the
  parser of conversion specifications and the formatting functions. The format is the list of
  its bytes before the terminator, so a pointer into it is a suffix of that list; the variable
  arguments are the 32-bit words the caller pushed, as on the i386, where a 64-bit argument
  takes two words, low word first. Arithmetic of \<open>long double\<close> is that of the processor and a
  parameter of the model.
\<close>

unbundle bit_operations_syntax

section \<open>Streams\<close>

definition EOF :: u32 where "EOF = - 1"
definition IOFBF :: u32 where "IOFBF = 0"
definition IOLBF :: u32 where "IOLBF = 1"
definition IONBF :: u32 where "IONBF = 2"

lemmas io_modes = IOFBF_def IOLBF_def IONBF_def

text \<open>The operation tables of streams; the library has one.\<close>

datatype file_vtable = FILE_VTABLE_STRING_IO

record file_impl =
  write_base :: u32
  write_ptr :: u32
  write_end :: u32
  buffer_mode :: u32
  tiny_buffer :: u8
  written_flushed_ct :: u32
  file_error :: u32
  vtable :: file_vtable

text \<open>A stream together with the memory it writes to.\<close>

record stream = file_impl +
  fmem :: mem

definition ferror :: "stream \<Rightarrow> bool" where
  "ferror s \<longleftrightarrow> file_error s \<noteq> 0"

definition written_ct :: "stream \<Rightarrow> u32" where
  "written_ct s = written_flushed_ct s + (write_ptr s - write_base s)"

definition setvbuf :: "u32 \<Rightarrow> u32 \<Rightarrow> u32 \<Rightarrow> stream \<Rightarrow> u32 \<times> stream" where
  "setvbuf buf mode sz s =
     (let s = (if buf \<noteq> 0
               then s\<lparr>write_base := buf, write_ptr := buf, write_end := buf + sz\<rparr> else s)
      in (0, s\<lparr>buffer_mode := mode\<rparr>))"

definition fflush_noop :: "stream \<Rightarrow> u32 \<times> stream" where
  "fflush_noop s = (0, s)"

definition fflush :: "stream \<Rightarrow> u32 \<times> stream" where
  "fflush s = (case vtable s of FILE_VTABLE_STRING_IO \<Rightarrow> fflush_noop s)"

definition file_init_string_io :: "u32 \<Rightarrow> u32 \<Rightarrow> mem \<Rightarrow> stream" where
  "file_init_string_io buf bufsz m =
     (let s = \<lparr>write_base = 0, write_ptr = 0, write_end = 0, buffer_mode = 0, tiny_buffer = 0,
               written_flushed_ct = 0, file_error = 0, vtable = FILE_VTABLE_STRING_IO, fmem = m\<rparr>
      in snd (setvbuf buf IOFBF bufsz s))"

definition fputc :: "u32 \<Rightarrow> stream \<Rightarrow> u32 \<times> stream" where
  "fputc ch s =
     (let s = (if write_ptr s < write_end s
               then s\<lparr>fmem := (fmem s)(write_ptr s := ucast ch)\<rparr> else s);
          s = s\<lparr>write_ptr := write_ptr s + 1\<rparr>;
          s = (if buffer_mode s = IONBF \<or> (buffer_mode s = IOLBF \<and> ch = 10) \<or>
                  write_ptr s = write_end s
               then snd (fflush s) else s)
      in (if ferror s then EOF else ch, s))"

text \<open>
  A string that a formatting function is given: one at an address (address 0 is the null
  pointer), or a literal or local buffer, as the bytes it starts with.
\<close>

datatype str = AtAddr u32 | Bytes "u8 list"

primrec fputsn_loop :: "nat \<Rightarrow> u32 \<Rightarrow> stream \<Rightarrow> stream" where
  "fputsn_loop 0 p s = s"
| "fputsn_loop (Suc n) p s =
     (if fmem s p \<noteq> 0 then fputsn_loop n (p + 1) (snd (fputc (scast (fmem s p)) s)) else s)"

fun fputsn_bytes :: "nat \<Rightarrow> u8 list \<Rightarrow> stream \<Rightarrow> stream" where
  "fputsn_bytes (Suc n) (b # bs) s =
     (if b \<noteq> 0 then fputsn_bytes n bs (snd (fputc (scast b) s)) else s)"
| "fputsn_bytes _ _ s = s"

definition fputsn :: "str \<Rightarrow> u32 \<Rightarrow> stream \<Rightarrow> u32 \<times> stream" where
  "fputsn st n s =
     (case st of
        AtAddr p \<Rightarrow>
          if p = 0 then (0, s)
          else let s = fputsn_loop (unat n) p s in (if ferror s then EOF else 0, s)
      | Bytes bs \<Rightarrow> let s = fputsn_bytes (unat n) bs s in (if ferror s then EOF else 0, s))"

definition fputs :: "str \<Rightarrow> stream \<Rightarrow> u32 \<times> stream" where
  "fputs st s = fputsn st SIZE_MAX s"

definition str_strlen :: "str \<Rightarrow> mem \<Rightarrow> u32 option" where
  "str_strlen st m =
     (case st of AtAddr p \<Rightarrow> strlen p m
      | Bytes bs \<Rightarrow> Some (of_nat (length (takeWhile (\<lambda>b. b \<noteq> 0) bs))))"

section \<open>Parsing conversion specifications\<close>

definition WP_UNSPECIFIED :: u32 where "WP_UNSPECIFIED = - 1"
definition WP_STAR :: u32 where "WP_STAR = - 2"

datatype lenmod = LEN_NONE | LEN_CHAR | LEN_SHORT | LEN_LONG | LEN_LONG_LONG | LEN_MAX | LEN_SIZE
  | LEN_PTRDIFF | LEN_FIXED | LEN_FAST | LEN_LONG_DOUBLE | LEN_DECIMAL32 | LEN_DECIMAL64
  | LEN_DECIMAL128

record fmtspec =
  start :: "u8 list"
  len :: u32
  flag_left :: bool
  flag_plus :: bool
  flag_space :: bool
  flag_alt :: bool
  flag_zero :: bool
  width :: u32
  precision :: u32
  lenmod :: lenmod
  lenbits :: u32
  specifier :: u8

definition zero_spec :: fmtspec where
  "zero_spec = \<lparr>start = [], len = 0, flag_left = False, flag_plus = False, flag_space = False,
     flag_alt = False, flag_zero = False, width = 0, precision = 0, lenmod = LEN_NONE, lenbits = 0,
     specifier = 0\<rparr>"

text \<open>The byte a pointer into the format refers to; at the end it is the terminator.\<close>

definition deref :: "u8 list \<Rightarrow> u8" where
  "deref fmt = (case fmt of [] \<Rightarrow> 0 | b # _ \<Rightarrow> b)"

fun parse_flags :: "u8 list \<Rightarrow> fmtspec \<Rightarrow> u8 list \<times> fmtspec" where
  "parse_flags (b # fmt) spec =
     (if b = 45 then parse_flags fmt (spec\<lparr>flag_left := True\<rparr>)
      else if b = 43 then parse_flags fmt (spec\<lparr>flag_plus := True\<rparr>)
      else if b = 32 then parse_flags fmt (spec\<lparr>flag_space := True\<rparr>)
      else if b = 35 then parse_flags fmt (spec\<lparr>flag_alt := True\<rparr>)
      else if b = 48 then parse_flags fmt (spec\<lparr>flag_zero := True\<rparr>)
      else (b # fmt, spec))"
| "parse_flags [] spec = ([], spec)"

text \<open>
  The digits of a number, as an \<open>int\<close> or a \<open>size_t\<close>: 32 bits, wrapping around. The two loops
  of the source compute the same value.
\<close>

fun parse_number :: "u8 list \<Rightarrow> u32 \<Rightarrow> u8 list \<times> u32" where
  "parse_number (b # fmt) result =
     (if b \<noteq> 0 \<and> isdigit (schar b) then parse_number fmt (result * 10 + (scast b - 48))
      else (b # fmt, result))"
| "parse_number [] result = ([], result)"

definition parse_width_precision :: "u8 list \<Rightarrow> u8 list \<times> u32" where
  "parse_width_precision fmt =
     (if deref fmt = 42 then (tl fmt, WP_STAR)
      else let (rest, result) = parse_number fmt 0
           in (rest, if rest = fmt then WP_UNSPECIFIED else result))"

definition LENMOD_MAP :: "(u8 \<times> lenmod \<times> u8 \<times> lenmod) list" where
  "LENMOD_MAP =
     [(104, LEN_SHORT, 104, LEN_CHAR), (108, LEN_LONG, 108, LEN_LONG_LONG), (106, LEN_MAX, 0, LEN_NONE),
      (122, LEN_SIZE, 0, LEN_NONE), (116, LEN_PTRDIFF, 0, LEN_NONE), (119, LEN_FIXED, 102, LEN_FAST),
      (76, LEN_LONG_DOUBLE, 0, LEN_NONE), (72, LEN_DECIMAL32, 0, LEN_NONE),
      (68, LEN_DECIMAL64, 68, LEN_DECIMAL128)]"

text \<open>The loop goes on after a match, with the rest of the format and the rest of the table.\<close>

fun parse_lenmod_loop ::
    "(u8 \<times> lenmod \<times> u8 \<times> lenmod) list \<Rightarrow> u8 list \<Rightarrow> fmtspec \<Rightarrow> u8 list \<times> fmtspec" where
  "parse_lenmod_loop [] fmt spec = (fmt, spec)"
| "parse_lenmod_loop ((ch0, lm0, ch1, lm1) # maps) fmt spec =
     (if ch1 \<noteq> 0 \<and> deref fmt = ch0 \<and> deref (tl fmt) = ch1
      then parse_lenmod_loop maps (tl (tl fmt)) (spec\<lparr>lenmod := lm1\<rparr>)
      else if deref fmt = ch0
      then parse_lenmod_loop maps (tl fmt) (spec\<lparr>lenmod := lm0\<rparr>)
      else parse_lenmod_loop maps fmt spec)"

definition parse_lenmod :: "u8 list \<Rightarrow> fmtspec \<Rightarrow> u8 list \<times> fmtspec" where
  "parse_lenmod fmt spec =
     (let (fmt, spec) = parse_lenmod_loop LENMOD_MAP fmt (spec\<lparr>lenmod := LEN_NONE\<rparr>);
          spec = spec\<lparr>lenbits := 0\<rparr>
      in if lenmod spec = LEN_FIXED \<or> lenmod spec = LEN_FAST
         then let (fmt, bits) = parse_number fmt (lenbits spec) in (fmt, spec\<lparr>lenbits := bits\<rparr>)
         else (fmt, spec))"

definition parse_precision :: "u8 list \<Rightarrow> u8 list \<times> u32" where
  "parse_precision fmt =
     (if deref fmt = 46
      then let (fmt, p) = parse_width_precision (tl fmt)
           in (fmt, if p = WP_UNSPECIFIED then 0 else p)
      else (fmt, WP_UNSPECIFIED))"

text \<open>
  \<open>parse_spec\<close> returns the position after the specification. When the format ends inside the
  specification the code steps past the terminator, which is the position \<open>None\<close>.
\<close>

definition parse_spec :: "u8 list \<Rightarrow> u8 list option \<times> fmtspec" where
  "parse_spec fmt =
     (let spec = zero_spec\<lparr>start := fmt, len := 0\<rparr>
      in if deref fmt \<noteq> 37
         then let text = takeWhile (\<lambda>b. b \<noteq> 0 \<and> b \<noteq> 37) fmt
              in (Some (drop (length text) fmt), spec\<lparr>specifier := 0, len := of_nat (length text)\<rparr>)
         else
           let (fmt1, spec) = parse_flags (tl fmt) spec;
               (fmt2, w) = parse_width_precision fmt1;
               (fmt3, p) = parse_precision fmt2;
               spec = spec\<lparr>width := w, precision := p\<rparr>;
               (fmt4, spec) = parse_lenmod fmt3 spec;
               spec = spec\<lparr>specifier := deref fmt4,
                           len := of_nat (length fmt - length fmt4 + 1)\<rparr>
           in ((case fmt4 of [] \<Rightarrow> None | _ # rest \<Rightarrow> Some rest), spec))"

section \<open>Formatting values\<close>

definition fpad :: "u32 \<Rightarrow> u32 \<Rightarrow> stream \<Rightarrow> stream" where
  "fpad ch count s = ((\<lambda>s. snd (fputc ch s)) ^^ nat (sint count)) s"

definition INT_MAX :: u32 where "INT_MAX = 0x7fffffff"

definition smin :: "u32 \<Rightarrow> u32 \<Rightarrow> u32" where
  "smin x y = (if sint x < sint y then x else y)"

definition fmt_str_val ::
    "fmtspec \<Rightarrow> str \<Rightarrow> u32 \<Rightarrow> str \<Rightarrow> u32 \<Rightarrow> stream \<Rightarrow> stream res" where
  "fmt_str_val spec prefix zeropad val limit s =
     (case (str_strlen prefix (fmem s), str_strlen val (fmem s)) of
        (Some prefix_len, Some val_len) \<Rightarrow>
          let flen = prefix_len + zeropad + smin val_len limit;
              pad = (if flen < width spec then width spec - flen else 0);
              s = (if pad \<noteq> 0 \<and> \<not> flag_left spec then fpad 32 pad s else s);
              s = (if prefix \<noteq> AtAddr 0 then snd (fputs prefix s) else s);
              s = (if zeropad \<noteq> 0 then fpad 48 zeropad s else s);
              s = snd (fputsn val limit s);
              s = (if pad \<noteq> 0 \<and> flag_left spec then fpad 32 pad s else s)
          in Inr s
      | _ \<Rightarrow> Inl Diverges)"

definition fmt_char :: "fmtspec \<Rightarrow> u32 \<Rightarrow> stream \<Rightarrow> stream res" where
  "fmt_char spec ch s = fmt_str_val spec (AtAddr 0) 0 (Bytes [ucast ch]) 1 s"

definition fmt_str :: "fmtspec \<Rightarrow> str \<Rightarrow> stream \<Rightarrow> stream res" where
  "fmt_str spec st s =
     (let limit = (if precision spec = WP_UNSPECIFIED then INT_MAX else precision spec)
      in fmt_str_val spec (AtAddr 0) 0 st limit s)"

definition lowerhex :: "u8 list" where
  "lowerhex = [48, 49, 50, 51, 52, 53, 54, 55, 56, 57, 97, 98, 99, 100, 101, 102]"

definition upperhex :: "u8 list" where
  "upperhex = [48, 49, 50, 51, 52, 53, 54, 55, 56, 57, 65, 66, 67, 68, 69, 70]"

text \<open>
  \<open>inttodigits\<close> writes the digits from right to left; \<open>acc\<close> are the bytes written so far, from
  \<open>cur\<close> to the end of the buffer.
\<close>

partial_function (option) inttodigits :: "u8 list \<Rightarrow> u64 \<Rightarrow> u64 \<Rightarrow> u8 list \<Rightarrow> u8 list option" where
  "inttodigits acc num base digitset =
     (if num \<noteq> 0
      then inttodigits (digitset ! unat (num mod base) # acc) (num div base) base digitset
      else Some acc)"

definition signstr :: "bool \<Rightarrow> fmtspec \<Rightarrow> u8 list" where
  "signstr isneg spec =
     (if isneg then [45] else if flag_plus spec then [43] else if flag_space spec then [32] else [])"

text \<open>
  The common end of \<open>fmt_signed\<close> and \<open>fmt_unsigned\<close>: the zeros that the precision asks for, and
  those that the \<open>0\<close> flag asks for in the field width.
\<close>

definition precision_zeros :: "fmtspec \<Rightarrow> u32 \<Rightarrow> u32" where
  "precision_zeros spec digitct =
     (let p = (if precision spec = WP_UNSPECIFIED then 1 else precision spec)
      in if sint digitct < sint p then p - digitct else 0)"

definition width_zeros :: "fmtspec \<Rightarrow> u32 \<Rightarrow> u32 \<Rightarrow> u32" where
  "width_zeros spec flen zeropad =
     (if sint flen < sint (width spec) \<and> flag_zero spec then zeropad + (width spec - flen) else zeropad)"

definition fmt_signed :: "fmtspec \<Rightarrow> u64 \<Rightarrow> stream \<Rightarrow> stream res" where
  "fmt_signed spec val s =
     (let uval = (if sint val < 0 then - val else val)
      in case inttodigits [] uval 10 lowerhex of
           None \<Rightarrow> Inl Diverges
         | Some digits \<Rightarrow>
             let digitct = of_nat (length digits);
                 zeropad = precision_zeros spec digitct;
                 prefix = signstr (sint val < 0) spec;
                 flen = of_nat (length prefix) + zeropad + digitct;
                 zeropad = width_zeros spec flen zeropad
             in fmt_str_val spec (Bytes prefix) zeropad (Bytes digits) INT_MAX s)"

definition spec_base :: "u8 \<Rightarrow> u64" where
  "spec_base c = (if c = 98 \<or> c = 66 then 2 else if c = 111 then 8
     else if c = 120 \<or> c = 88 then 16 else 10)"

definition alt_prefix :: "fmtspec \<Rightarrow> u32 \<Rightarrow> u8 list \<Rightarrow> u8 list" where
  "alt_prefix spec zeropad digits =
     (if \<not> flag_alt spec then []
      else if specifier spec = 98 then [48, 98]
      else if specifier spec = 66 then [48, 66]
      else if specifier spec = 120 then [48, 120]
      else if specifier spec = 88 then [48, 88]
      else if specifier spec = 111 \<and> zeropad = 0 \<and> deref digits \<noteq> 48 then [48]
      else [])"

definition fmt_unsigned :: "fmtspec \<Rightarrow> u64 \<Rightarrow> stream \<Rightarrow> stream res" where
  "fmt_unsigned spec uval s =
     (let digitset = (if specifier spec = 88 then upperhex else lowerhex)
      in case inttodigits [] uval (spec_base (specifier spec)) digitset of
           None \<Rightarrow> Inl Diverges
         | Some digits \<Rightarrow>
             let digitct = of_nat (length digits);
                 zeropad = precision_zeros spec digitct;
                 prefix = alt_prefix spec zeropad digits;
                 flen = of_nat (length prefix) + zeropad + digitct;
                 zeropad = width_zeros spec flen zeropad
             in fmt_str_val spec (Bytes prefix) zeropad (Bytes digits) INT_MAX s)"

definition fmt_pointer :: "fmtspec \<Rightarrow> u32 \<Rightarrow> stream \<Rightarrow> stream res" where
  "fmt_pointer spec p s =
     fmt_unsigned (spec\<lparr>lenmod := LEN_PTRDIFF, specifier := 120, flag_alt := True, precision := 8\<rparr>)
       (ucast p) s"

end
