(* ===== verification/Printf.thy ===== *)
theory Printf
  imports Stdio "HOL-Library.Sublist"
begin

text \<open>
  \<open>fmt_float\<close>, \<open>vfprintf\<close> and the string printf family of \<open>lib/libc/stdio_core.c\<close>.
\<close>

unbundle bit_operations_syntax

section \<open>Floating point\<close>

text \<open>
  The operations of the processor and of the compiler's builtins on \<open>long double\<close> that the
  code uses. The conversions from integers keep the sign of the C type converted.
\<close>

datatype fpclass = FP_NORMAL | FP_SUBNORMAL | FP_ZERO | FP_INFINITE | FP_NAN

record 'f fpu =
  fp_double :: "u32 \<Rightarrow> u32 \<Rightarrow> 'f"
  fp_long_double :: "u32 \<Rightarrow> u32 \<Rightarrow> u32 \<Rightarrow> 'f"
  fpclassify :: "'f \<Rightarrow> fpclass"
  signbitl :: "'f \<Rightarrow> bool"
  fabsl :: "'f \<Rightarrow> 'f"
  fp_of_int :: "int \<Rightarrow> 'f"
  fp_mul :: "'f \<Rightarrow> 'f \<Rightarrow> 'f"
  fp_div :: "'f \<Rightarrow> 'f \<Rightarrow> 'f"
  fp_sub :: "'f \<Rightarrow> 'f \<Rightarrow> 'f"
  fp_trunc :: "'f \<Rightarrow> u64"
  fp_ge_half :: "'f \<Rightarrow> bool"

definition FLOATBUFSZ :: nat where "FLOATBUFSZ = 256"

text \<open>The two loops that look for the exponent; \<open>exp\<close> and \<open>mul\<close> are \<open>long\<close>, 32 bits.\<close>

partial_function (option) exp_up ::
    "'f fpu \<Rightarrow> 'f \<Rightarrow> u64 \<Rightarrow> u64 \<Rightarrow> u32 \<Rightarrow> u32 \<Rightarrow> (u64 \<times> u32 \<times> u32) option" where
  "exp_up fpu uval base nval e mul =
     (if base \<le> nval
      then let mul = mul * ucast base
           in exp_up fpu uval base (fp_trunc fpu (fp_div fpu uval (fp_of_int fpu (sint mul)))) (e + 1) mul
      else Some (nval, e, mul))"

partial_function (option) exp_down ::
    "'f fpu \<Rightarrow> 'f \<Rightarrow> u64 \<Rightarrow> u64 \<Rightarrow> u32 \<Rightarrow> u32 \<Rightarrow> (u32 \<times> u32) option" where
  "exp_down fpu uval base nval e mul =
     (if nval < 1 \<and> fpclassify fpu uval \<noteq> FP_ZERO
      then let mul = mul * ucast base
           in exp_down fpu uval base (fp_trunc fpu (fp_mul fpu uval (fp_of_int fpu (sint mul)))) (e - 1) mul
      else Some (e, mul))"

definition pad_left :: "nat \<Rightarrow> u8 list \<Rightarrow> u8 list" where
  "pad_left n ds = replicate (n - length ds) 48 @ ds"

text \<open>The exponent part, written right to left, and the normalised value.\<close>

definition float_exponent ::
    "'f fpu \<Rightarrow> 'f \<Rightarrow> u64 \<Rightarrow> u8 \<Rightarrow> (u8 list \<times> 'f) option" where
  "float_exponent fpu uval base exp_marker =
     (case exp_up fpu uval base (fp_trunc fpu uval) 0 1 of None \<Rightarrow> None
      | Some (nval, e, mul) \<Rightarrow>
          (case exp_down fpu uval base nval e mul of None \<Rightarrow> None
           | Some (e, mul) \<Rightarrow>
               (case inttodigits [] (ucast (if sint e < 0 then - e else e)) base lowerhex of None \<Rightarrow> None
                | Some digits \<Rightarrow>
                    Some (exp_marker # (if 0 \<le> sint e then 43 else 45) # pad_left 2 digits,
                      if 0 < sint e then fp_div fpu uval (fp_of_int fpu (sint mul))
                      else fp_mul fpu uval (fp_of_int fpu (sint mul))))))"

text \<open>The fraction with its rounding, the decimal point and the whole part.\<close>

definition float_digits ::
    "'f fpu \<Rightarrow> fmtspec \<Rightarrow> 'f \<Rightarrow> u64 \<Rightarrow> u8 list \<Rightarrow> u8 list option" where
  "float_digits fpu spec uval base str =
     (let prec = nat (sint (precision spec));
          mul = (ucast base :: u32) ^ prec;
          wholepart = fp_trunc fpu uval;
          dfracpart = fp_mul fpu (fp_sub fpu uval (fp_of_int fpu (uint wholepart))) (fp_of_int fpu (uint mul));
          fracpart = fp_trunc fpu dfracpart;
          fracpart = (if fp_ge_half fpu (fp_sub fpu dfracpart (fp_of_int fpu (uint fracpart)))
                      then fracpart + 1 else fracpart)
      in case (inttodigits [] fracpart base lowerhex, inttodigits [] wholepart base lowerhex) of
           (Some frac, Some whole) \<Rightarrow>
             let str = pad_left prec frac @ str;
                 str = (if fracpart \<noteq> 0 \<or> precision spec \<noteq> 0 \<or> flag_alt spec then 46 # str else str);
                 str = whole @ str
             in Some (if deref str = 46 then 48 # str else str)
         | _ \<Rightarrow> None)"

text \<open>
  The local buffer has \<open>FLOATBUFSZ\<close> bytes, the last one for the terminator; writing more than
  fits is an access outside it.
\<close>

definition fmt_float :: "'f fpu \<Rightarrow> fmtspec \<Rightarrow> 'f \<Rightarrow> stream \<Rightarrow> stream res" where
  "fmt_float fpu spec dval s =
     (let spec = (if precision spec = WP_UNSPECIFIED then spec\<lparr>precision := 6\<rparr> else spec);
          upper = isupper (schar (specifier spec))
      in case fpclassify fpu dval of
           FP_INFINITE \<Rightarrow> fmt_str spec (Bytes (if upper then [73, 78, 70] else [105, 110, 102])) s
         | FP_NAN \<Rightarrow> fmt_str spec (Bytes (if upper then [78, 65, 78] else [110, 97, 110])) s
         | _ \<Rightarrow>
             let uval = fabsl fpu dval;
                 prefix = signstr (signbitl fpu dval) spec;
                 (prefix, exp_marker, base) =
                   (if specifier spec = 101 \<or> specifier spec = 69 then (prefix, specifier spec, 10)
                    else if specifier spec = 97 then (prefix @ [48, 120], 112, 16)
                    else if specifier spec = 65 then (prefix @ [48, 88], 80, 16)
                    else (prefix, 0, 10))
             in case (if exp_marker \<noteq> 0 then float_exponent fpu uval base exp_marker
                      else Some ([], uval)) of
                  None \<Rightarrow> Inl Diverges
                | Some (str, uval) \<Rightarrow>
                    (case float_digits fpu spec uval base str of
                       None \<Rightarrow> Inl Diverges
                     | Some str \<Rightarrow>
                         let str = (if flag_zero spec
                                    then pad_left (nat (sint (width spec) + int (length prefix))) str
                                    else str)
                         in if FLOATBUFSZ \<le> length str then Inl WildAccess
                            else fmt_str_val spec (Bytes prefix) 0 (Bytes str) INT_MAX s))"

section \<open>Arguments\<close>

definition va_word :: "u32 list \<Rightarrow> (u32 \<times> u32 list) res" where
  "va_word args = (case args of w # args \<Rightarrow> Inr (w, args) | _ \<Rightarrow> Inl WildAccess)"

definition va_dword :: "u32 list \<Rightarrow> (u64 \<times> u32 list) res" where
  "va_dword args =
     (case args of lo # hi # args \<Rightarrow> Inr (ucast lo OR push_bit 32 (ucast hi), args) | _ \<Rightarrow> Inl WildAccess)"

text \<open>Width and precision, taken from the arguments where the format has a star.\<close>

definition pull_width :: "fmtspec \<Rightarrow> u32 list \<Rightarrow> (fmtspec \<times> u32 list) res" where
  "pull_width spec args =
     (let spec = (if width spec = WP_UNSPECIFIED then spec\<lparr>width := 0\<rparr> else spec) in
      bindR (if width spec = WP_STAR
             then bindR (va_word args) (\<lambda>(w, args). Inr (spec\<lparr>width := w\<rparr>, args))
             else Inr (spec, args)) (\<lambda>(spec, args).
        let spec = (if sint (width spec) < 0
                    then spec\<lparr>flag_left := True, width := - width spec\<rparr> else spec) in
        bindR (if precision spec = WP_STAR
               then bindR (va_word args) (\<lambda>(p, args). Inr (spec\<lparr>precision := p\<rparr>, args))
               else Inr (spec, args)) (\<lambda>(spec, args).
          Inr (if sint (precision spec) < 0 then spec\<lparr>precision := WP_UNSPECIFIED\<rparr> else spec, args))))"

text \<open>
  The argument of an integer conversion. \<open>None\<close> stands for \<open>return -EINVAL\<close>. The signed
  conversion of a fixed-width argument of more than 32 bits takes a \<open>signed long\<close>, one word.
\<close>

definition signed_arg :: "fmtspec \<Rightarrow> u32 list \<Rightarrow> (u64 option \<times> u32 list) res" where
  "signed_arg spec args =
     (let word = bindR (va_word args) (\<lambda>(w, args). Inr (Some (scast w), args));
          dword = bindR (va_dword args) (\<lambda>(d, args). Inr (Some d, args))
      in case lenmod spec of
           LEN_CHAR \<Rightarrow> word | LEN_SHORT \<Rightarrow> word | LEN_NONE \<Rightarrow> word | LEN_LONG \<Rightarrow> word
         | LEN_LONG_LONG \<Rightarrow> dword | LEN_MAX \<Rightarrow> dword | LEN_SIZE \<Rightarrow> word | LEN_PTRDIFF \<Rightarrow> word
         | LEN_FIXED \<Rightarrow> if lenbits spec \<le> 64 then word else dword
         | LEN_FAST \<Rightarrow> if lenbits spec \<le> 64 then word else dword
         | _ \<Rightarrow> Inr (None, args))"

definition unsigned_arg :: "fmtspec \<Rightarrow> u32 list \<Rightarrow> (u64 option \<times> u32 list) res" where
  "unsigned_arg spec args =
     (let word = bindR (va_word args) (\<lambda>(w, args). Inr (Some (ucast w), args));
          dword = bindR (va_dword args) (\<lambda>(d, args). Inr (Some d, args))
      in case lenmod spec of
           LEN_CHAR \<Rightarrow> word | LEN_SHORT \<Rightarrow> word | LEN_NONE \<Rightarrow> word | LEN_LONG \<Rightarrow> word
         | LEN_LONG_LONG \<Rightarrow> dword | LEN_MAX \<Rightarrow> dword | LEN_SIZE \<Rightarrow> word | LEN_PTRDIFF \<Rightarrow> word
         | LEN_FIXED \<Rightarrow> if lenbits spec \<le> 32 then word else dword
         | LEN_FAST \<Rightarrow> if lenbits spec \<le> 32 then word else dword
         | _ \<Rightarrow> Inr (None, args))"

definition float_arg :: "'f fpu \<Rightarrow> fmtspec \<Rightarrow> u32 list \<Rightarrow> ((int + 'f) \<times> u32 list) res" where
  "float_arg fpu spec args =
     (case lenmod spec of
        LEN_NONE \<Rightarrow> (case args of lo # hi # args \<Rightarrow> Inr (Inr (fp_double fpu lo hi), args) | _ \<Rightarrow> Inl WildAccess)
      | LEN_LONG \<Rightarrow> (case args of lo # hi # args \<Rightarrow> Inr (Inr (fp_double fpu lo hi), args) | _ \<Rightarrow> Inl WildAccess)
      | LEN_LONG_DOUBLE \<Rightarrow>
          (case args of a # b # c # args \<Rightarrow> Inr (Inr (fp_long_double fpu a b c), args) | _ \<Rightarrow> Inl WildAccess)
      | LEN_DECIMAL32 \<Rightarrow> Inr (Inl (- EUNIMPLEMENTED), args)
      | LEN_DECIMAL64 \<Rightarrow> Inr (Inl (- EUNIMPLEMENTED), args)
      | LEN_DECIMAL128 \<Rightarrow> Inr (Inl (- EUNIMPLEMENTED), args)
      | _ \<Rightarrow> Inr (Inl (- EINVAL), args))"

section \<open>The main function\<close>

text \<open>One conversion. The first result is the value of an early return.\<close>

definition fmt_one ::
    "'f fpu \<Rightarrow> fmtspec \<Rightarrow> u32 list \<Rightarrow> stream \<Rightarrow> ((int option \<times> u32 list) \<times> stream) res" where
  "fmt_one fpu spec args s =
     (let c = specifier spec;
          put = (\<lambda>args r. bindR r (\<lambda>s. Inr ((None, args), s)))
      in if c = 0 then Inr ((None, args), snd (fputsn (Bytes (start spec)) (len spec) s))
         else if c = 37 then
           if len spec \<noteq> 2 then Inr ((Some (- EINVAL), args), s)
           else Inr ((None, args), snd (fputc 37 s))
         else if c = 99 then
           if lenmod spec \<noteq> LEN_NONE then Inr ((Some (- EUNIMPLEMENTED), args), s)
           else bindR (va_word args) (\<lambda>(ch, args). put args (fmt_char spec ch s))
         else if c = 115 then
           if lenmod spec \<noteq> LEN_NONE then Inr ((Some (- EUNIMPLEMENTED), args), s)
           else bindR (va_word args) (\<lambda>(p, args). put args (fmt_str spec (AtAddr p) s))
         else if c = 100 \<or> c = 105 then
           bindR (signed_arg spec args) (\<lambda>(val, args).
             case val of None \<Rightarrow> Inr ((Some (- EINVAL), args), s)
             | Some val \<Rightarrow> put args (fmt_signed spec val s))
         else if c \<in> {98, 66, 111, 120, 88, 117} then
           bindR (unsigned_arg spec args) (\<lambda>(val, args).
             case val of None \<Rightarrow> Inr ((Some (- EINVAL), args), s)
             | Some val \<Rightarrow> put args (fmt_unsigned spec val s))
         else if c = 112 then bindR (va_word args) (\<lambda>(p, args). put args (fmt_pointer spec p s))
         else if c \<in> {102, 70, 101, 69, 97, 65} then
           bindR (float_arg fpu spec args) (\<lambda>(val, args).
             case val of Inl e \<Rightarrow> Inr ((Some e, args), s)
             | Inr val \<Rightarrow> put args (fmt_float fpu spec val s))
         else Inr ((Some (- EUNIMPLEMENTED), args), s))"

text \<open>The parsers only move forward, so what they return is a suffix of the format.\<close>

lemma suffix_tl: "suffix ys (tl xs) \<Longrightarrow> suffix ys xs"
  by (cases xs) (auto intro: suffix_ConsI)

lemma parse_flags_suffix: "suffix (fst (parse_flags fmt spec)) fmt"
  by (induction fmt spec rule: parse_flags.induct) (auto intro: suffix_ConsI)

lemma parse_number_suffix: "suffix (fst (parse_number fmt n)) fmt"
  by (induction fmt n rule: parse_number.induct) (auto intro: suffix_ConsI)

lemma parse_width_suffix: "suffix (fst (parse_width_precision fmt)) fmt"
  using parse_number_suffix [of fmt 0] suffix_tl [of "tl fmt" fmt]
  by (auto simp: parse_width_precision_def split_beta)

lemma parse_precision_suffix: "suffix (fst (parse_precision fmt)) fmt"
  using parse_width_suffix [of "tl fmt"]
  by (auto simp: parse_precision_def split_beta intro: suffix_tl)

lemma parse_lenmod_loop_suffix: "suffix (fst (parse_lenmod_loop maps fmt spec)) fmt"
  by (induction maps fmt spec rule: parse_lenmod_loop.induct) (auto intro: suffix_tl)

lemma parse_lenmod_suffix: "suffix (fst (parse_lenmod fmt spec)) fmt"
  using parse_lenmod_loop_suffix [of LENMOD_MAP fmt "spec\<lparr>lenmod := LEN_NONE\<rparr>"]
    parse_number_suffix [of "fst (parse_lenmod_loop LENMOD_MAP fmt (spec\<lparr>lenmod := LEN_NONE\<rparr>))" 0]
  by (auto simp: parse_lenmod_def Let_def split_beta intro: suffix_order.trans)

text \<open>The position of the conversion character, inside the format after the percent sign.\<close>

lemma parse_spec_position:
  assumes "deref fmt = 37"
  obtains fmt4 where "suffix fmt4 (tl fmt)" "specifier (snd (parse_spec fmt)) = deref fmt4"
    "fst (parse_spec fmt) = (case fmt4 of [] \<Rightarrow> None | _ # rest \<Rightarrow> Some rest)"
proof -
  let ?f1 = "parse_flags (tl fmt) (zero_spec\<lparr>start := fmt, len := 0\<rparr>)"
  let ?f2 = "parse_width_precision (fst ?f1)"
  let ?f3 = "parse_precision (fst ?f2)"
  have "suffix (fst ?f3) (tl fmt)"
    by (rule suffix_order.trans [OF parse_precision_suffix
        suffix_order.trans [OF parse_width_suffix parse_flags_suffix]])
  then have suf: "suffix (fst (parse_lenmod (fst ?f3) sp)) (tl fmt)" for sp
    using parse_lenmod_suffix suffix_order.trans by blast
  let ?f4 = "parse_lenmod (fst ?f3) (snd ?f1\<lparr>width := snd ?f2, precision := snd ?f3\<rparr>)"
  have "specifier (snd (parse_spec fmt)) = deref (fst ?f4)"
    "fst (parse_spec fmt) = (case fst ?f4 of [] \<Rightarrow> None | _ # r \<Rightarrow> Some r)"
    using assms by (simp_all add: parse_spec_def Let_def split_beta)
  then show ?thesis using that suf by blast
qed

lemma parse_spec_suffix:
  assumes "deref fmt \<noteq> 0" "fst (parse_spec fmt) = Some rest"
  shows "suffix rest fmt \<and> length rest < length fmt"
proof (cases "deref fmt = 37")
  case True
  then obtain fmt4 where p: "suffix fmt4 (tl fmt)"
    "fst (parse_spec fmt) = (case fmt4 of [] \<Rightarrow> None | _ # rest \<Rightarrow> Some rest)"
    by (rule parse_spec_position)
  then have "suffix rest fmt4" "length rest < length fmt4"
    using assms(2) by (cases fmt4; auto intro: suffix_ConsI)+
  then show ?thesis
    using suffix_length_le [OF p(1)] suffix_tl [OF suffix_order.trans [OF _ p(1)]] by fastforce
next
  case False
  then show ?thesis
    using assms by (cases fmt) (auto simp: parse_spec_def deref_def Let_def suffix_drop intro: suffix_ConsI)
qed

lemma parse_spec_specifier:
  assumes "specifier (snd (parse_spec fmt)) = c" "c \<noteq> 0"
  shows "c \<in> set fmt"
proof (cases "deref fmt = 37")
  case True
  then obtain fmt4 where "suffix fmt4 (tl fmt)" "specifier (snd (parse_spec fmt)) = deref fmt4"
    by (rule parse_spec_position)
  with assms have "suffix fmt4 fmt" "c \<in> set fmt4"
    by (auto simp: deref_def split: list.splits intro: suffix_tl)
  then show ?thesis by (auto dest: set_mono_suffix)
next
  case False
  then show ?thesis using assms by (simp add: parse_spec_def Let_def)
qed

function vfprintf_loop ::
    "'f fpu \<Rightarrow> u8 list \<Rightarrow> u32 list \<Rightarrow> stream \<Rightarrow> (int option \<times> stream) res" where
  "vfprintf_loop fpu fmt args s =
     (if deref fmt = 0 then Inr (None, s)
      else
        bindR (pull_width (snd (parse_spec fmt)) args) (\<lambda>(spec, args).
        bindR (fmt_one fpu spec args s) (\<lambda>((ret, args), s).
          if ret \<noteq> None then Inr (ret, s)
          else case fst (parse_spec fmt) of
                 None \<Rightarrow> Inl WildAccess
               | Some rest \<Rightarrow> vfprintf_loop fpu rest args s)))"
  by pat_completeness auto
termination
  by (relation "measure (\<lambda>(fpu, fmt, args, s). length fmt)") (auto dest: parse_spec_suffix)

declare vfprintf_loop.simps [simp del]

definition vfprintf :: "'f fpu \<Rightarrow> u8 list \<Rightarrow> u32 list \<Rightarrow> stream \<Rightarrow> (int \<times> stream) res" where
  "vfprintf fpu format args s =
     (let start_ct = written_ct s in
      bindR (vfprintf_loop fpu format args s) (\<lambda>(ret, s).
        case ret of Some e \<Rightarrow> Inr (e, s)
        | None \<Rightarrow> Inr (if ferror s then - EIO else sint (written_ct s - start_ct), s)))"

definition fprintf :: "'f fpu \<Rightarrow> u8 list \<Rightarrow> u32 list \<Rightarrow> stream \<Rightarrow> (int \<times> stream) res" where
  "fprintf fpu format args s = vfprintf fpu format args s"

section \<open>String printf family\<close>

definition vsnprintf ::
    "'f fpu \<Rightarrow> u32 \<Rightarrow> u32 \<Rightarrow> u8 list \<Rightarrow> u32 list \<Rightarrow> mem \<Rightarrow> (int \<times> mem) res" where
  "vsnprintf fpu buf bufsz format args m =
     bindR (vfprintf fpu format args (file_init_string_io buf bufsz m)) (\<lambda>(count, s).
       let m = fmem s in
       if count < 0 then Inr (count, m)
       else if (word_of_int count :: u32) < bufsz then Inr (count, m(buf + word_of_int count := 0))
       else if bufsz \<noteq> 0 then Inr (count, m(buf + (bufsz - 1) := 0))
       else Inr (count, m))"

definition snprintf ::
    "'f fpu \<Rightarrow> u32 \<Rightarrow> u32 \<Rightarrow> u8 list \<Rightarrow> u32 list \<Rightarrow> mem \<Rightarrow> (int \<times> mem) res" where
  "snprintf fpu buf bufsz format args m = vsnprintf fpu buf bufsz format args m"

definition vsprintf :: "'f fpu \<Rightarrow> u32 \<Rightarrow> u8 list \<Rightarrow> u32 list \<Rightarrow> mem \<Rightarrow> (int \<times> mem) res" where
  "vsprintf fpu buf format args m = vsnprintf fpu buf INT_MAX format args m"

definition sprintf :: "'f fpu \<Rightarrow> u32 \<Rightarrow> u8 list \<Rightarrow> u32 list \<Rightarrow> mem \<Rightarrow> (int \<times> mem) res" where
  "sprintf fpu buf format args m = vsnprintf fpu buf INT_MAX format args m"

end
