(* ===== verification/CStringLemmas.thy ===== *)
theory CStringLemmas
  imports CStrings "HOL-Library.List_Lexorder"
begin

text \<open>
  What the string functions do, as facts about the bytes of memory: a copy is a store of the
  bytes loaded, and a terminated string at an address is a list of non-zero bytes.
\<close>

section \<open>Copying bytes\<close>

lemma store_bytes_snoc:
  assumes "length bs < 4294967296"
  shows "store_bytes a (bs @ [b]) m = store_bytes a bs (m(a + of_nat (length bs) := b))"
proof
  fix x
  have "x = a + of_nat (length bs) \<longleftrightarrow> unat (x - a) = length bs"
  proof -
    have "x = a + of_nat (length bs) \<longleftrightarrow> x - a = of_nat (length bs)" by (auto simp: algebra_simps)
    then show ?thesis using assms by (simp add: word_unat_eq_iff unat_of_nat_small)
  qed
  then show "store_bytes a (bs @ [b]) m x = store_bytes a bs (m(a + of_nat (length bs) := b)) x"
    by (auto simp: store_bytes_def nth_append)
qed

lemma load_bytes_snoc: "load_bytes m a (Suc n) = load_bytes m a n @ [m (a + of_nat n)]"
  using load_bytes_append [of m a n 1] by (simp add: load_bytes_Suc)

lemma load_bytes_upd:
  "(\<And>i. i < n \<Longrightarrow> a + of_nat i \<noteq> d) \<Longrightarrow> load_bytes (m(d := b)) a n = load_bytes m a n"
  by (auto intro!: load_bytes_eq)

lemma store_bytes_upd_Cons:
  "length bs < 4294967295 \<Longrightarrow> store_bytes (a + 1) bs (m(a := b)) = store_bytes a (b # bs) m"
  by (simp add: store_bytes_Cons)

text \<open>No byte is read after it was written.\<close>

definition read_before :: "nat \<Rightarrow> u32 \<Rightarrow> u32 \<Rightarrow> bool" where
  "read_before n d s \<longleftrightarrow> (\<forall>i j. i < j \<and> j < n \<longrightarrow> d + of_nat i \<noteq> s + of_nat j)"

lemma read_before_Suc:
  assumes "read_before (Suc n) d s"
  shows "read_before n (d + 1) (s + 1)" "i < n \<Longrightarrow> s + 1 + of_nat i \<noteq> d"
proof -
  have "d + 1 + of_nat i \<noteq> s + 1 + of_nat j" if "i < j" "j < n" for i j
    using assms that by (auto simp: read_before_def algebra_simps)
  then show "read_before n (d + 1) (s + 1)" by (simp add: read_before_def)
  show "s + 1 + of_nat i \<noteq> d" if "i < n"
    using assms [unfolded read_before_def, rule_format, of 0 "Suc i"] that by (auto simp: algebra_simps)
qed

lemma memcpy_loop_store:
  "read_before n d s \<Longrightarrow> n < 4294967296 \<Longrightarrow>
   memcpy_loop n d s m = store_bytes d (load_bytes m s n) m"
proof (induction n arbitrary: d s m)
  case (Suc n)
  have "load_bytes (m(d := m s)) (s + 1) n = load_bytes m (s + 1) n"
    using read_before_Suc(2) [OF Suc.prems(1)] by (rule load_bytes_upd)
  then show ?case
    using Suc.IH [OF read_before_Suc(1) [OF Suc.prems(1)]] Suc.prems(2)
    by (simp add: load_bytes_Suc store_bytes_upd_Cons)
qed simp

lemma bcopy_up_memcpy: "bcopy_up n i s d m = memcpy_loop n (d + of_nat i) (s + of_nat i) m"
  by (induction n arbitrary: i m) (simp_all add: algebra_simps)

lemma bcopy_down_store:
  assumes "\<And>i j. i < j \<Longrightarrow> j < n \<Longrightarrow> d + of_nat j \<noteq> s + of_nat i" "n < 4294967296"
  shows "bcopy_down n s d m = store_bytes d (load_bytes m s n) m"
  using assms
proof (induction n arbitrary: m)
  case (Suc n)
  have "load_bytes (m(d + of_nat n := m (s + of_nat n))) s n = load_bytes m s n"
    by (rule load_bytes_upd) (use Suc.prems(1) [of _ n] in \<open>metis lessI\<close>)
  then show ?case
    using Suc.IH Suc.prems by (simp add: load_bytes_snoc store_bytes_snoc)
qed simp

lemma range_inj:
  fixes a b :: u32
  assumes "unat a + n \<le> 4294967296" "unat b + n \<le> 4294967296" "i < n" "j < n"
    and "a + of_nat i = b + of_nat j"
  shows "unat a + i = unat b + j"
proof -
  have "unat (a + of_nat i) = unat a + i" "unat (b + of_nat j) = unat b + j"
    using assms(1-4) by (simp_all add: unat_add_small)
  with assms(5) show ?thesis by simp
qed

lemma bcopy_store:
  assumes "0 \<le> sz" "unat source + nat sz \<le> 4294967296" "unat destin + nat sz \<le> 4294967296" "sz < 4294967296"
  shows "bcopy source destin sz m = store_bytes destin (load_bytes m source (nat sz)) m"
proof (cases "source < destin")
  case True
  then have lt: "unat source < unat destin" by (simp add: word_less_nat_alt)
  have "bcopy_down (nat sz) source destin m = store_bytes destin (load_bytes m source (nat sz)) m"
  proof (rule bcopy_down_store)
    fix i j
    assume "i < j" "j < nat sz"
    then show "destin + of_nat j \<noteq> source + of_nat i"
      using range_inj [OF assms(3,2), of j i] lt by auto
  qed (use assms(4) in linarith)
  with True show ?thesis by (simp add: bcopy_def)
next
  case False
  then have "unat destin \<le> unat source" by (simp add: word_less_nat_alt)
  then have "destin + of_nat i \<noteq> source + of_nat j" if "i < j" "j < nat sz" for i j
    using range_inj [OF assms(3,2), of i j] that by auto
  then have "read_before (nat sz) destin source" by (simp add: read_before_def)
  with False assms(4) show ?thesis
    by (simp add: bcopy_def bcopy_up_memcpy memcpy_loop_store)
qed

lemma fill_loop_store: "n < 4294967296 \<Longrightarrow> fill_loop c n cur m = store_bytes cur (replicate n c) m"
  by (induction n arbitrary: cur m) (simp_all add: store_bytes_upd_Cons)

section \<open>Terminated strings\<close>

text \<open>The bytes of the string at address \<open>a\<close>, without its terminator.\<close>

fun cstr :: "mem \<Rightarrow> u32 \<Rightarrow> u8 list \<Rightarrow> bool" where
  "cstr m a [] \<longleftrightarrow> m a = 0"
| "cstr m a (b # bs) \<longleftrightarrow> b \<noteq> 0 \<and> m a = b \<and> cstr m (a + 1) bs"

lemma cstr_load:
  "cstr m a bs \<longleftrightarrow> load_bytes m a (length bs) = bs \<and> 0 \<notin> set bs \<and> m (a + of_nat (length bs)) = 0"
  by (induction bs arbitrary: a) (auto simp: load_bytes_Suc algebra_simps)

lemma cstr_load_Suc: "cstr m a bs \<Longrightarrow> load_bytes m a (Suc (length bs)) = bs @ [0]"
  by (simp add: cstr_load load_bytes_snoc)

lemma cstr_cong: "(\<And>i. i \<le> length bs \<Longrightarrow> m' (a + of_nat i) = m (a + of_nat i)) \<Longrightarrow> cstr m' a bs = cstr m a bs"
  using load_bytes_eq [of "length bs" m' a m a] by (simp add: cstr_load)

lemma cstr_stored:
  assumes "0 \<notin> set bs" "length bs < 4294967295"
  shows "cstr (store_bytes a (bs @ [0]) m) a bs"
proof -
  have "load_bytes (store_bytes a (bs @ [0]) m) a (length (bs @ [0])) = bs @ [0]"
    by (rule load_store_same) (use assms in auto)
  then have "load_bytes (store_bytes a (bs @ [0]) m) a (length bs) = bs"
    "store_bytes a (bs @ [0]) m (a + of_nat (length bs)) = 0"
    by (simp_all add: load_bytes_snoc)
  then show ?thesis using assms(1) by (simp add: cstr_load)
qed

lemma strlen_loop_cstr: "cstr m s bs \<Longrightarrow> strlen_loop n s m = Some (n + of_nat (length bs))"
  by (induction bs arbitrary: s n) (subst strlen_loop.simps; simp add: algebra_simps)+

lemma strlen_cstr: "cstr m s bs \<Longrightarrow> s \<noteq> 0 \<Longrightarrow> strlen s m = Some (of_nat (length bs))"
  by (simp add: strlen_def strlen_loop_cstr)

lemma find_end_cstr: "cstr m s bs \<Longrightarrow> find_end s m = Some (s + of_nat (length bs))"
  by (induction bs arbitrary: s) (subst find_end.simps; simp add: algebra_simps)+

text \<open>Two ranges of addresses without a common byte.\<close>

definition disjoint_ranges :: "u32 \<Rightarrow> nat \<Rightarrow> u32 \<Rightarrow> nat \<Rightarrow> bool" where
  "disjoint_ranges d n s k \<longleftrightarrow> (\<forall>i < n. \<forall>j < k. d + of_nat i \<noteq> s + of_nat j)"

lemma disjoint_ranges_mono:
  "disjoint_ranges d n s k \<Longrightarrow> n' \<le> n \<Longrightarrow> k' \<le> k \<Longrightarrow> disjoint_ranges d n' s k'"
  by (auto simp: disjoint_ranges_def)

lemma disjoint_ranges_Suc:
  assumes "disjoint_ranges d (Suc n) s (Suc k)"
  shows "disjoint_ranges (d + 1) n (s + 1) k" "i < Suc k \<Longrightarrow> s + of_nat i \<noteq> d"
proof -
  have "d + 1 + of_nat i \<noteq> s + 1 + of_nat j" if "i < n" "j < k" for i j
    using assms that by (auto simp: disjoint_ranges_def algebra_simps)
  then show "disjoint_ranges (d + 1) n (s + 1) k" by (simp add: disjoint_ranges_def)
  show "s + of_nat i \<noteq> d" if "i < Suc k"
    using assms [unfolded disjoint_ranges_def, rule_format, of 0 i] that by auto
qed

lemma disjoint_read_before: "disjoint_ranges d n s n \<Longrightarrow> read_before n d s"
  by (auto simp: disjoint_ranges_def read_before_def)

lemma cstr_upd:
  assumes "cstr m s bs" "\<And>i. i \<le> length bs \<Longrightarrow> s + of_nat i \<noteq> d"
  shows "cstr (m(d := b)) s bs"
  using assms cstr_cong [of bs "m(d := b)" s m] by simp

lemma strcpy_loop_cstr:
  assumes "cstr m src bs" "disjoint_ranges dest (Suc (length bs)) src (Suc (length bs))"
    and "length bs < 4294967295"
  shows "strcpy_loop dest src m = Some (store_bytes dest (bs @ [0]) m)"
  using assms
proof (induction bs arbitrary: dest src m)
  case Nil
  then show ?case by (subst strcpy_loop.simps) (simp add: store_bytes_Cons)
next
  case (Cons b bs)
  note dj = disjoint_ranges_Suc [OF Cons.prems(2) [simplified]]
  have c: "cstr (m(dest := b)) (src + 1) bs"
  proof (rule cstr_upd)
    show "cstr m (src + 1) bs" using Cons.prems(1) by simp
    show "src + 1 + of_nat i \<noteq> dest" if "i \<le> length bs" for i
      using dj(2) [of "Suc i"] that by (auto simp: algebra_simps)
  qed
  have "strcpy_loop (dest + 1) (src + 1) (m(dest := b)) =
      Some (store_bytes (dest + 1) (bs @ [0]) (m(dest := b)))"
    by (rule Cons.IH [OF c dj(1)]) (use Cons.prems(3) in simp)
  with Cons.prems show ?case
    by (subst strcpy_loop.simps) (simp add: Let_def store_bytes_upd_Cons)
qed

text \<open>The copying loop of \<open>strncpy\<close> and \<open>strncat\<close>.\<close>

lemma copy_loop_cstr:
  assumes "cstr m src bs" "disjoint_ranges dest (Suc n) src (Suc (length bs))" "n < 4294967296"
  shows "copy_loop n dest src m =
    (if n \<le> length bs then (0, dest + of_nat n, store_bytes dest (take n bs) m)
     else (n - length bs, dest + of_nat (length bs), store_bytes dest (bs @ [0]) m))"
  using assms
proof (induction n arbitrary: dest src m bs)
  case (Suc n)
  show ?case
  proof (cases bs)
    case Nil
    then show ?thesis using Suc.prems by (simp add: Let_def store_bytes_Cons)
  next
    case (Cons b cs)
    note dj = disjoint_ranges_Suc [OF Suc.prems(2) [unfolded Cons, simplified]]
    have c: "cstr (m(dest := b)) (src + 1) cs"
    proof (rule cstr_upd)
      show "cstr m (src + 1) cs" using Suc.prems(1) Cons by simp
      show "src + 1 + of_nat i \<noteq> dest" if "i \<le> length cs" for i
        using dj(2) [of "Suc i"] that by (auto simp: algebra_simps)
    qed
    have "copy_loop n (dest + 1) (src + 1) (m(dest := b)) =
      (if n \<le> length cs then (0, dest + 1 + of_nat n, store_bytes (dest + 1) (take n cs) (m(dest := b)))
       else (n - length cs, dest + 1 + of_nat (length cs), store_bytes (dest + 1) (cs @ [0]) (m(dest := b))))"
      by (rule Suc.IH [OF c dj(1)]) (use Suc.prems(3) in simp)
    with Suc.prems show ?thesis by (simp add: Let_def Cons store_bytes_upd_Cons)
  qed
qed simp

lemma unat_sub_of_nat:
  "L < 4294967296 \<Longrightarrow> unat (y - of_nat L) = (unat y + 4294967296 - L) mod 4294967296" for y :: u32
  using unat_bound32 [of y] by (auto simp: unat_sub_if' word_le_nat_alt unat_of_nat_small mod_if)

lemma store_bytes_over:
  assumes "length xs + length ys \<le> 4294967296" "length zs \<le> length ys"
  shows "store_bytes (a + of_nat (length xs)) ys (store_bytes a (xs @ zs) m) = store_bytes a (xs @ ys) m"
proof
  fix x
  let ?u = "unat (x - a)" and ?L = "length xs"
  have L: "?L < 4294967296 \<or> ys = []" using assms(1) by (cases ys) auto
  have u: "?u < 4294967296" by (rule unat_bound32)
  have d: "unat (x - (a + of_nat ?L)) = (?u + 4294967296 - ?L) mod 4294967296" if "?L < 4294967296"
    using unat_sub_of_nat [OF that, of "x - a"] by (simp add: diff_diff_eq)
  show "store_bytes (a + of_nat ?L) ys (store_bytes a (xs @ zs) m) x = store_bytes a (xs @ ys) m x"
  proof (cases "ys = []")
    case False
    with L have L: "?L < 4294967296" by blast
    show ?thesis
    proof (cases "?u < ?L")
      case True
      have "\<not> unat (x - (a + of_nat ?L)) < length ys"
        using d [OF L] True assms(1) u L by simp
      with True show ?thesis by (simp add: store_bytes_def nth_append)
    next
      case False
      then have "unat (x - (a + of_nat ?L)) = ?u - ?L"
        using d [OF L] u L by (simp add: mod_if)
      then show ?thesis using False assms(2) by (auto simp: store_bytes_def nth_append)
    qed
  qed (use assms(2) in simp)
qed

lemma strncpy_cstr:
  assumes "cstr m src bs" "disjoint_ranges dest (Suc (unat count)) src (Suc (length bs))"
  shows "strncpy dest src count m =
    (dest, store_bytes dest (take (unat count) bs @ replicate (unat count - length bs) 0) m)"
proof -
  have c: "unat count < 4294967296" by (rule unat_bound32)
  show ?thesis
  proof (cases "unat count \<le> length bs")
    case True
    then show ?thesis by (simp add: strncpy_def copy_loop_cstr [OF assms c])
  next
    case False
    then have "store_bytes (dest + of_nat (length bs)) (replicate (unat count - length bs) 0) (store_bytes dest (bs @ [0]) m) =
        store_bytes dest (bs @ replicate (unat count - length bs) 0) m"
      using c by (intro store_bytes_over) simp_all
    with False c show ?thesis by (simp add: strncpy_def copy_loop_cstr [OF assms c] fill_loop_store)
  qed
qed

lemma strncat_cstr:
  assumes "cstr m dest as" "cstr m src bs" "e = dest + of_nat (length as)"
    and "disjoint_ranges e (Suc (unat count)) src (Suc (length bs))"
  shows "strncat dest src count m = Some (dest,
    if length bs < unat count then store_bytes e (bs @ [0]) m
    else if m (e + count) = 0 then store_bytes e (take (unat count) bs) m
    else (store_bytes e (take (unat count) bs) m)(e + count + 1 := 0))"
proof -
  have c: "unat count < 4294967296" by (rule unat_bound32)
  note cl = copy_loop_cstr [OF assms(2,4) c]
  show ?thesis
  proof (cases "length bs < unat count")
    case True
    moreover have "store_bytes e (bs @ [0]) m (e + of_nat (length bs)) = 0"
      using True c store_bytes_in [of "length bs" "bs @ [0]"] by simp
    ultimately show ?thesis by (simp add: strncat_def find_end_cstr [OF assms(1)] cl flip: assms(3))
  next
    case False
    have "store_bytes e (take (unat count) bs) m (e + count) = m (e + count)"
      by (simp add: store_bytes_def)
    with False show ?thesis by (simp add: strncat_def find_end_cstr [OF assms(1)] cl flip: assms(3))
  qed
qed

section \<open>Comparison\<close>

lemma schar_eq [simp]: "schar a = schar b \<longleftrightarrow> a = b"
  by (auto simp: schar_def intro: signed_word_eqI)

lemma schar_0 [simp]: "schar 0 = 0"
  by (simp add: schar_def)

definition three_way :: "int list \<Rightarrow> int list \<Rightarrow> int" where
  "three_way x y = (if x < y then - 1 else if x = y then 0 else 1)"

lemma three_way_Nil [simp]: "three_way [] [] = 0"
  by (simp add: three_way_def)

lemma three_way_Cons [simp]:
  "three_way (a # x) (b # y) = (if a < b then - 1 else if a = b then three_way x y else 1)"
  by (simp add: three_way_def)

lemma strncmp_loop_cstr:
  "cstr m s as \<Longrightarrow> cstr m t bs \<Longrightarrow>
   strncmp_loop n s t m = three_way (map schar (take n (as @ [0]))) (map schar (take n (bs @ [0])))"
proof (induction n arbitrary: s t as bs)
  case (Suc n)
  then show ?case by (cases as; cases bs) (auto simp flip: schar_eq)
qed simp

lemma same_string_cstr: "cstr m s as \<Longrightarrow> cstr m t bs \<Longrightarrow> same_string s t m = Some (as = bs)"
proof (induction as arbitrary: s t bs)
  case Nil
  then show ?case by (subst same_string.simps) (cases bs; auto)
next
  case (Cons a as)
  then show ?case by (subst same_string.simps) (cases bs; auto)
qed

section \<open>Bounded copies\<close>

lemma cstr_drop: "cstr m s bs \<Longrightarrow> i \<le> length bs \<Longrightarrow> cstr m (s + of_nat i) (drop i bs)"
proof (induction i arbitrary: s bs)
  case (Suc i)
  then obtain b cs where bs: "bs = b # cs" by (cases bs) auto
  have "cstr m (s + 1 + of_nat i) (drop i cs)" using Suc.prems by (intro Suc.IH) (simp_all add: bs)
  then show ?case by (simp add: bs algebra_simps)
qed simp

lemma store_bytes_outside:
  assumes "\<And>j. j < length xs \<Longrightarrow> d + of_nat j \<noteq> x"
  shows "store_bytes d xs m x = m x"
proof -
  have "d + of_nat (unat (x - d)) = x" by simp
  with assms [of "unat (x - d)"] show ?thesis by (auto simp: store_bytes_def)
qed

lemma cstr_store:
  assumes "cstr m s bs" "disjoint_ranges d (length xs) s (Suc (length bs))"
  shows "cstr (store_bytes d xs m) s bs"
proof -
  have "store_bytes d xs m (s + of_nat i) = m (s + of_nat i)" if "i \<le> length bs" for i
    using assms(2) that by (intro store_bytes_outside) (auto simp: disjoint_ranges_def)
  then show ?thesis using assms(1) cstr_cong by blast
qed

lemma strlcpy_copy_cstr:
  assumes "cstr m src bs" "disjoint_ranges dest (Suc k) src (Suc (length bs))" "k < 4294967296"
  shows "strlcpy_copy k n dest src m =
    (if k \<le> length bs then (n + of_nat k, dest + of_nat k, src + of_nat k, store_bytes dest (take k bs) m)
     else (n + of_nat (length bs), dest + of_nat (length bs) + 1, src + of_nat (length bs) + 1,
           store_bytes dest (bs @ [0]) m))"
  using assms
proof (induction k arbitrary: n dest src m bs)
  case (Suc k)
  show ?case
  proof (cases bs)
    case Nil
    then show ?thesis using Suc.prems by (simp add: Let_def store_bytes_Cons)
  next
    case (Cons b cs)
    note dj = disjoint_ranges_Suc [OF Suc.prems(2) [unfolded Cons, simplified]]
    have c: "cstr (m(dest := b)) (src + 1) cs"
    proof (rule cstr_upd)
      show "cstr m (src + 1) cs" using Suc.prems(1) Cons by simp
      show "src + 1 + of_nat i \<noteq> dest" if "i \<le> length cs" for i
        using dj(2) [of "Suc i"] that by (auto simp: algebra_simps)
    qed
    have "strlcpy_copy k (n + 1) (dest + 1) (src + 1) (m(dest := b)) =
      (if k \<le> length cs then (n + 1 + of_nat k, dest + 1 + of_nat k, src + 1 + of_nat k,
         store_bytes (dest + 1) (take k cs) (m(dest := b)))
       else (n + 1 + of_nat (length cs), dest + 1 + of_nat (length cs) + 1, src + 1 + of_nat (length cs) + 1,
         store_bytes (dest + 1) (cs @ [0]) (m(dest := b))))"
      by (rule Suc.IH [OF c dj(1)]) (use Suc.prems(3) in simp)
    with Suc.prems show ?thesis by (simp add: Let_def Cons store_bytes_upd_Cons)
  qed
qed simp

lemma strlcpy_truncated:
  assumes "cstr m src bs" "0 < sz" "nat sz \<le> Suc (length bs)" "sz < 4294967296"
    and "disjoint_ranges dest (nat sz) src (Suc (length bs))"
  shows "strlcpy dest src sz m =
    Some (of_nat (length bs), store_bytes dest (take (nat sz - 1) bs @ [0]) m)"
proof -
  let ?k = "nat (sz - 1)"
  have k: "?k \<le> length bs" "?k < 4294967296" "nat sz - 1 = ?k" "Suc ?k = nat sz" using assms(2-4) by auto
  let ?m = "store_bytes dest (take ?k bs @ [0]) m"
  have "(store_bytes dest (take ?k bs) m)(dest + of_nat ?k := 0) = ?m"
    using store_bytes_snoc [of "take ?k bs" dest 0 m] store_bytes_over [of "take ?k bs" "[0]" "[]" dest m] k
    by (simp add: store_bytes_Cons)
  moreover have "cstr ?m (src + of_nat ?k) (drop ?k bs)"
    using cstr_store [OF assms(1), of dest "take ?k bs @ [0]"] assms(5) k
    by (intro cstr_drop) simp_all
  ultimately show ?thesis
    using k strlcpy_copy_cstr [OF assms(1), of dest ?k 0] assms(5)
    by (simp add: strlcpy_def strlen_loop_cstr flip: of_nat_add)
qed

lemma strlcpy_overrun:
  assumes "cstr m src bs" "cstr m (src + of_nat (length bs) + 1) cs" "Suc (length bs) < nat sz" "sz < 4294967296"
    and "disjoint_ranges dest (nat sz) src (length bs + length cs + 2)"
  shows "strlcpy dest src sz m =
    Some (of_nat (length bs + length cs), store_bytes dest (bs @ [0, 0]) m)"
proof -
  let ?k = "nat (sz - 1)"
  have k: "\<not> ?k \<le> length bs" "?k < 4294967296" "Suc ?k = nat sz" "length bs + 2 \<le> nat sz"
    "length bs < 4294967294" using assms(3,4) by auto
  let ?m = "store_bytes dest (bs @ [0, 0]) m"
  have "(store_bytes dest (bs @ [0]) m)(dest + of_nat (length bs) + 1 := 0) = ?m"
    using store_bytes_over [of "bs @ [0]" "[0]" "[]" dest m] k
    by (simp add: store_bytes_Cons algebra_simps)
  moreover have "cstr ?m (src + of_nat (length bs) + 1) cs"
  proof (rule cstr_store [OF assms(2)])
    have "dest + of_nat i \<noteq> src + of_nat (length bs + 1 + j)" if "i < length bs + 2" "j < Suc (length cs)" for i j
      using assms(5) [unfolded disjoint_ranges_def, rule_format, of i "length bs + 1 + j"] that k(4) by simp
    then show "disjoint_ranges dest (length (bs @ [0, 0])) (src + of_nat (length bs) + 1) (Suc (length cs))"
      by (simp add: disjoint_ranges_def algebra_simps)
  qed
  ultimately show ?thesis
    using k strlcpy_copy_cstr [OF assms(1), of dest ?k 0] disjoint_ranges_mono [OF assms(5), of "nat sz" "Suc (length bs)"]
    by (simp add: strlcpy_def strlen_loop_cstr)
qed

section \<open>Numbers\<close>

lemma isdigit_byte: "isdigit (schar b) \<longleftrightarrow> b \<in> {48, 49, 50, 51, 52, 53, 54, 55, 56, 57}"
proof -
  have "schar b = n \<longleftrightarrow> b = word_of_int n" if "0 \<le> n" "n < 128" for n
  proof -
    have "schar (word_of_int n) = n" using that by (simp add: schar_def sint_sbintrunc' signed_take_bit_int_eq_self)
    then show ?thesis by (metis schar_eq)
  qed
  then show ?thesis by (simp add: isdigit_def)
qed

definition dec_value :: "u8 list \<Rightarrow> nat" where
  "dec_value ds = foldl (\<lambda>n d. n * 10 + (unat d - 48)) 0 ds"

lemma atoi_loop_digits:
  assumes "cstr m s (ds @ rest)" "\<forall>d \<in> set ds. isdigit (schar d)"
    and "rest = [] \<or> \<not> isdigit (schar (hd rest))"
  shows "atoi_loop (of_nat n) s m = Some (of_nat (foldl (\<lambda>n d. n * 10 + (unat d - 48)) n ds))"
  using assms
proof (induction ds arbitrary: s n)
  case Nil
  then show ?case by (subst atoi_loop.simps) (cases rest; auto)
next
  case (Cons d ds)
  have d: "isdigit (schar d)" "m s = d" "d \<noteq> 0" using Cons.prems by simp_all
  have "scast d - (48 :: u32) = of_nat (unat d - 48)" using d(1) by (auto simp: isdigit_byte)
  then have "(of_nat n * 10 + (scast d - 48) :: u32) = of_nat (n * 10 + (unat d - 48))" by simp
  then show ?case
    using Cons.IH [of "s + 1" "n * 10 + (unat d - 48)"] Cons.prems d
    by (subst atoi_loop.simps) simp
qed

lemma skip_space_cstr:
  assumes "cstr m s (ws @ rest)" "\<forall>w \<in> set ws. isspace (schar w)" "rest = [] \<or> \<not> isspace (schar (hd rest))"
  shows "skip_space s m = Some (s + of_nat (length ws))"
  using assms
proof (induction ws arbitrary: s)
  case Nil
  then show ?case by (subst skip_space.simps) (cases rest; auto)
next
  case (Cons w ws)
  then show ?case by (subst skip_space.simps) (simp add: algebra_simps)
qed

end
