(* ===== verification/PrintfLemmas.thy ===== *)
theory PrintfLemmas
  imports Printf CStringLemmas
begin

text \<open>
  The formatting functions as producers of text: each of them appends a sequence of bytes to
  the stream that does not depend on where the stream writes or on how much room it has.
\<close>

unbundle bit_operations_syntax

section \<open>Appending bytes to a stream\<close>

definition emit :: "u8 list \<Rightarrow> stream \<Rightarrow> stream" where
  "emit bs s = fold (\<lambda>b s. snd (fputc (scast b) s)) bs s"

lemma emit_Nil [simp]: "emit [] s = s"
  by (simp add: emit_def)

lemma emit_Cons: "emit (b # bs) s = emit bs (snd (fputc (scast b) s))"
  by (simp add: emit_def)

lemma emit_append: "emit (xs @ ys) s = emit ys (emit xs s)"
  by (simp add: emit_def)

lemma fputc_stream: "snd (fputc ch s) =
  (if write_ptr s < write_end s then s\<lparr>fmem := (fmem s)(write_ptr s := ucast ch)\<rparr> else s)
    \<lparr>write_ptr := write_ptr s + 1\<rparr>"
  by (auto simp: fputc_def Let_def fflush_def fflush_noop_def split: file_vtable.splits)

lemma ucast_scast_byte: "ucast (scast b :: u32) = (b :: u8)"
  by (rule bit_word_eqI) (auto simp: bit_simps)

lemma fputc_emit: "snd (fputc ch s) = emit [ucast ch] s"
  by (simp add: emit_def fputc_stream ucast_scast_byte)

lemma emit_fields [simp]:
  "write_ptr (emit bs s) = write_ptr s + of_nat (length bs)" "write_end (emit bs s) = write_end s"
  "write_base (emit bs s) = write_base s" "file_error (emit bs s) = file_error s"
  "written_flushed_ct (emit bs s) = written_flushed_ct s" "ferror (emit bs s) = ferror s"
  by (induction bs arbitrary: s) (simp_all add: emit_Cons fputc_stream ferror_def algebra_simps)

lemma fpad_emit: "fpad ch count s = emit (replicate (nat (sint count)) (ucast ch)) s"
proof -
  have "((\<lambda>s. snd (fputc ch s)) ^^ n) s = emit (replicate n (ucast ch)) s" for n
    by (induction n arbitrary: s)
      (simp_all add: funpow_Suc_right emit_Cons fputc_stream ucast_scast_byte del: funpow.simps)
  then show ?thesis by (simp add: fpad_def)
qed

lemma fputsn_bytes_emit: "fputsn_bytes n bs s = emit (take n (takeWhile (\<lambda>b. b \<noteq> 0) bs)) s"
  by (induction n bs s rule: fputsn_bytes.induct) (auto simp: emit_Cons)

text \<open>What the stream writes: the bytes that fit before the end of its buffer.\<close>

lemma fmem_emit:
  assumes "unat (write_ptr s) + length bs < 4294967296"
  shows "fmem (emit bs s) =
    store_bytes (write_ptr s) (take (unat (write_end s) - unat (write_ptr s)) bs) (fmem s)"
  using assms
proof (induction bs arbitrary: s)
  case (Cons b bs)
  let ?s = "snd (fputc (scast b) s)"
  have p: "unat (write_ptr s + 1) = Suc (unat (write_ptr s))"
    using Cons.prems by (simp add: unat_word_ariths)
  have IH: "fmem (emit bs ?s) =
      store_bytes (write_ptr ?s) (take (unat (write_end ?s) - unat (write_ptr ?s)) bs) (fmem ?s)"
    by (rule Cons.IH) (use Cons.prems p in \<open>simp add: fputc_stream\<close>)
  show ?case
  proof (cases "write_ptr s < write_end s")
    case True
    then obtain k where k: "unat (write_end s) - unat (write_ptr s) = Suc k"
      by (metis Suc_diff_Suc word_less_nat_alt)
    then have "unat (write_end s) - unat (write_ptr s + 1) = k" using p by simp
    with True IH k Cons.prems show ?thesis
      by (simp add: emit_Cons fputc_stream ucast_scast_byte store_bytes_upd_Cons)
  next
    case False
    then show ?thesis using IH p by (simp add: emit_Cons fputc_stream word_less_nat_alt)
  qed
qed simp

section \<open>Streams inside a buffer\<close>

text \<open>
  The stream writes to \<open>n\<close> bytes from \<open>buf\<close> on, and memory elsewhere is as in \<open>m\<close>.
\<close>

definition within :: "mem \<Rightarrow> u32 \<Rightarrow> nat \<Rightarrow> stream \<Rightarrow> bool" where
  "within m buf n s \<longleftrightarrow> unat buf \<le> unat (write_ptr s) \<and> unat (write_end s) = unat buf + n \<and>
     (\<forall>a. unat a < unat buf \<or> unat buf + n \<le> unat a \<longrightarrow> fmem s a = m a)"

lemma within_emit:
  assumes "within m buf n s" "unat (write_ptr s) + length bs < 4294967296"
  shows "within m buf n (emit bs s)"
proof -
  have "fmem (emit bs s) a = fmem s a" if a: "unat a < unat buf \<or> unat buf + n \<le> unat a" for a
    unfolding fmem_emit [OF assms(2)]
  proof (rule store_bytes_outside)
    fix j
    assume j: "j < length (take (unat (write_end s) - unat (write_ptr s)) bs)"
    then have "unat (write_ptr s + of_nat j) = unat (write_ptr s) + j"
      using assms(2) by (intro unat_add_small) simp
    then show "write_ptr s + of_nat j \<noteq> a" using a j assms(1) by (auto simp: within_def)
  qed
  moreover have "unat (write_ptr s + of_nat (length bs)) = unat (write_ptr s) + length bs"
    using assms(2) by (intro unat_add_small) simp
  ultimately show ?thesis using assms(1) by (simp add: within_def)
qed

text \<open>The bytes of a string argument, which lies outside the buffer.\<close>

definition outside :: "u32 \<Rightarrow> nat \<Rightarrow> u32 \<Rightarrow> nat \<Rightarrow> bool" where
  "outside buf n p k \<longleftrightarrow>
     (\<forall>i \<le> k. unat (p + of_nat i) < unat buf \<or> unat buf + n \<le> unat (p + of_nat i))"

definition str_at :: "mem \<Rightarrow> u32 \<Rightarrow> nat \<Rightarrow> str \<Rightarrow> u8 list \<Rightarrow> bool" where
  "str_at m buf n st bs \<longleftrightarrow> (case st of
       Bytes xs \<Rightarrow> bs = takeWhile (\<lambda>b. b \<noteq> 0) xs
     | AtAddr p \<Rightarrow> if p = 0 then bs = [] else cstr m p bs \<and> outside buf n p (length bs))"

lemma within_cstr: "within m buf n s \<Longrightarrow> cstr m p bs \<Longrightarrow> outside buf n p (length bs) \<Longrightarrow> cstr (fmem s) p bs"
  using cstr_cong [of bs "fmem s" p m] unfolding within_def outside_def by blast

lemma str_strlen_at:
  assumes "within m buf n s" "str_at m buf n st bs"
  shows "str_strlen st (fmem s) = Some (of_nat (length bs))"
proof (cases st)
  case (AtAddr p)
  then show ?thesis
    using assms strlen_cstr [OF within_cstr [OF assms(1)], of p bs]
    by (auto simp: str_strlen_def str_at_def strlen_def split: if_splits)
qed (use assms in \<open>simp add: str_strlen_def str_at_def\<close>)

lemma fputsn_loop_emit:
  assumes "within m buf n s" "cstr m p bs" "outside buf n p (length bs)"
    and "unat (write_ptr s) + length (take k bs) < 4294967296"
  shows "fputsn_loop k p s = emit (take k bs) s"
  using assms
proof (induction k arbitrary: p bs s)
  case (Suc k)
  note c = within_cstr [OF Suc.prems(1-3)]
  show ?case
  proof (cases bs)
    case Nil
    then show ?thesis using c by simp
  next
    case (Cons b cs)
    let ?s = "snd (fputc (scast b) s)"
    have e: "?s = emit [b] s" by (simp add: emit_def)
    have w: "within m buf n ?s"
      unfolding e by (rule within_emit [OF Suc.prems(1)]) (use Suc.prems(4) Cons in simp)
    have o: "outside buf n (p + 1) (length cs)"
      unfolding outside_def
    proof (intro allI impI)
      fix i assume "i \<le> length cs"
      then show "unat (p + 1 + of_nat i) < unat buf \<or> unat buf + n \<le> unat (p + 1 + of_nat i)"
        using Suc.prems(3) [unfolded outside_def, rule_format, of "Suc i"] Cons by (simp add: algebra_simps)
    qed
    have "unat (write_ptr ?s) = Suc (unat (write_ptr s))"
      using Suc.prems(4) Cons by (simp add: fputc_stream unat_word_ariths)
    then have "fputsn_loop k (p + 1) ?s = emit (take k cs) ?s"
      using Suc.prems(2,4) Cons by (intro Suc.IH [OF w _ o]) simp_all
    then show ?thesis using c Cons by (simp add: emit_Cons)
  qed
qed simp

lemma fputsn_emit:
  assumes "within m buf n s" "str_at m buf n st bs"
    and "unat (write_ptr s) + length (take (unat k) bs) < 4294967296"
  shows "snd (fputsn st k s) = emit (take (unat k) bs) s"
  using assms fputsn_loop_emit [OF assms(1)]
  by (auto simp: fputsn_def str_at_def Let_def fputsn_bytes_emit split: str.splits if_splits)

section \<open>Formatting functions append text\<close>

definition val_text :: "fmtspec \<Rightarrow> u8 list \<Rightarrow> u32 \<Rightarrow> u8 list \<Rightarrow> u32 \<Rightarrow> u8 list" where
  "val_text spec pre zeropad val limit =
     (let flen = of_nat (length pre) + zeropad + smin (of_nat (length val)) limit;
          pad = (if flen < width spec then width spec - flen else 0);
          spaces = replicate (nat (sint pad)) 32
      in (if flag_left spec then [] else spaces) @ take (unat SIZE_MAX) pre @
         replicate (nat (sint zeropad)) 48 @ take (unat limit) val @
         (if flag_left spec then spaces else []))"

lemma fmt_str_val_emit:
  assumes w: "within m buf n s" and p: "str_at m buf n pre ps" and v: "str_at m buf n val vs"
    and b: "unat (write_ptr s) + length (val_text spec ps zeropad vs limit) < 4294967296"
  shows "fmt_str_val spec pre zeropad val limit s = Inr (emit (val_text spec ps zeropad vs limit) s)"
proof -
  define flen where "flen = of_nat (length ps) + zeropad + smin (of_nat (length vs)) limit"
  define pad where "pad = (if flen < width spec then width spec - flen else 0)"
  define sp :: "u8 list" where "sp = replicate (nat (sint pad)) 32"
  define l where "l = (if flag_left spec then [] else sp)"
  define ps' where "ps' = take (unat SIZE_MAX) ps"
  define zs :: "u8 list" where "zs = replicate (nat (sint zeropad)) 48"
  define vs' where "vs' = take (unat limit) vs"
  define r where "r = (if flag_left spec then sp else [])"
  have t: "val_text spec ps zeropad vs limit = l @ ps' @ zs @ vs' @ r"
    by (simp add: val_text_def Let_def flen_def pad_def sp_def l_def ps'_def zs_def vs'_def r_def)
  have len: "unat (write_ptr s) + (length l + length ps' + length zs + length vs' + length r) < 4294967296"
    using b t by simp
  have ptr: "unat (write_ptr (emit xs s)) = unat (write_ptr s) + length xs"
    if "unat (write_ptr s) + length xs < 4294967296" for xs
    using that unat_add_small [of "write_ptr s" "length xs"] by simp
  have "snd (fputs pre (emit l s)) = emit ps' (emit l s)"
    unfolding fputs_def ps'_def
    by (rule fputsn_emit [OF within_emit [OF w] p]) (use len ptr [of l] in \<open>simp_all add: ps'_def\<close>)
  then have s2: "(if pre \<noteq> AtAddr 0 then snd (fputs pre (emit l s)) else emit l s) = emit (l @ ps') s"
    using p by (auto simp: emit_append str_at_def ps'_def)
  have s4: "snd (fputsn val limit (emit (l @ ps' @ zs) s)) = emit vs' (emit (l @ ps' @ zs) s)"
    unfolding vs'_def
    by (rule fputsn_emit [OF within_emit [OF w] v]) (use len ptr [of "l @ ps' @ zs"] in \<open>simp_all add: vs'_def\<close>)
  have f: "fpad 32 pad s' = emit sp s'" "fpad 48 zeropad s' = emit zs s'" for s'
    by (simp_all add: fpad_emit sp_def zs_def)
  have l: "(if pad \<noteq> 0 \<and> \<not> flag_left spec then fpad 32 pad s else s) = emit l s"
    by (auto simp: f l_def sp_def)
  have z: "(if zeropad \<noteq> 0 then fpad 48 zeropad (emit xs s) else emit xs s) = emit (xs @ zs) s" for xs
    by (auto simp: f emit_append zs_def)
  have r: "(if pad \<noteq> 0 \<and> flag_left spec then fpad 32 pad s' else s') = emit r s'" for s'
    by (auto simp: f r_def sp_def)
  have "fmt_str_val spec pre zeropad val limit s = Inr (emit r (emit vs' (emit (l @ ps' @ zs) s)))"
    unfolding fmt_str_val_def str_strlen_at [OF w p] str_strlen_at [OF w v] prod.case option.case Let_def
      flen_def [symmetric] pad_def [symmetric] l s2 z append_assoc s4 r by (rule refl)
  then show ?thesis by (simp add: t emit_append)
qed

section \<open>The text of a format\<close>

text \<open>
  The reference: the bytes each conversion stands for, without streams and buffers.
\<close>

definition nonzero :: "u8 list \<Rightarrow> u8 list" where
  "nonzero bs = takeWhile (\<lambda>b. b \<noteq> 0) bs"

definition string_text :: "fmtspec \<Rightarrow> u8 list \<Rightarrow> u8 list" where
  "string_text spec bs =
     val_text spec [] 0 bs (if precision spec = WP_UNSPECIFIED then INT_MAX else precision spec)"

definition number_text :: "fmtspec \<Rightarrow> u8 list \<Rightarrow> u32 \<Rightarrow> u8 list \<Rightarrow> u8 list" where
  "number_text spec pre zeropad digits =
     (let flen = of_nat (length pre) + zeropad + of_nat (length digits)
      in val_text spec (nonzero pre) (width_zeros spec flen zeropad) (nonzero digits) INT_MAX)"

definition signed_text :: "fmtspec \<Rightarrow> u64 \<Rightarrow> u8 list res" where
  "signed_text spec val =
     (case inttodigits [] (if sint val < 0 then - val else val) 10 lowerhex of
        None \<Rightarrow> Inl Diverges
      | Some digits \<Rightarrow> Inr (number_text spec (signstr (sint val < 0) spec)
          (precision_zeros spec (of_nat (length digits))) digits))"

definition unsigned_text :: "fmtspec \<Rightarrow> u64 \<Rightarrow> u8 list res" where
  "unsigned_text spec uval =
     (case inttodigits [] uval (spec_base (specifier spec)) (if specifier spec = 88 then upperhex else lowerhex) of
        None \<Rightarrow> Inl Diverges
      | Some digits \<Rightarrow>
          let zeropad = precision_zeros spec (of_nat (length digits))
          in Inr (number_text spec (alt_prefix spec zeropad digits) zeropad digits))"

definition mem_string :: "mem \<Rightarrow> u32 \<Rightarrow> u8 list res" where
  "mem_string m p =
     (if p = 0 then Inr []
      else case strlen p m of None \<Rightarrow> Inl Diverges | Some k \<Rightarrow> Inr (load_bytes m p (unat k)))"

text \<open>One conversion: an early return, or the rest of the arguments and the text.\<close>

definition text_one :: "mem \<Rightarrow> fmtspec \<Rightarrow> u32 list \<Rightarrow> ((int option \<times> u32 list) \<times> u8 list) res" where
  "text_one m spec args =
     (let c = specifier spec; early = (\<lambda>e args. Inr ((Some (- e), args), []));
          put = (\<lambda>args r. bindR r (\<lambda>ts. Inr ((None, args), ts)))
      in if c = 0 then Inr ((None, args), take (unat (len spec)) (nonzero (start spec)))
         else if c = 37 then if len spec \<noteq> 2 then early EINVAL args else Inr ((None, args), [37])
         else if c = 99 then
           if lenmod spec \<noteq> LEN_NONE then early EUNIMPLEMENTED args
           else bindR (va_word args) (\<lambda>(ch, args). Inr ((None, args), val_text spec [] 0 (nonzero [ucast ch]) 1))
         else if c = 115 then
           if lenmod spec \<noteq> LEN_NONE then early EUNIMPLEMENTED args
           else bindR (va_word args) (\<lambda>(p, args). put args (bindR (mem_string m p) (\<lambda>bs. Inr (string_text spec bs))))
         else if c = 100 \<or> c = 105 then
           bindR (signed_arg spec args) (\<lambda>(val, args).
             case val of None \<Rightarrow> early EINVAL args | Some val \<Rightarrow> put args (signed_text spec val))
         else if c \<in> {98, 66, 111, 120, 88, 117} then
           bindR (unsigned_arg spec args) (\<lambda>(val, args).
             case val of None \<Rightarrow> early EINVAL args | Some val \<Rightarrow> put args (unsigned_text spec val))
         else if c = 112 then
           bindR (va_word args) (\<lambda>(p, args). put args (unsigned_text
             (spec\<lparr>lenmod := LEN_PTRDIFF, specifier := 120, flag_alt := True, precision := 8\<rparr>) (ucast p)))
         else if c \<in> {102, 70, 101, 69, 97, 65} then Inl WildAccess
         else early EUNIMPLEMENTED args)"

text \<open>The whole format. Floating-point conversions are left out.\<close>

function format_text :: "mem \<Rightarrow> u8 list \<Rightarrow> u32 list \<Rightarrow> (int option \<times> u8 list) res" where
  "format_text m fmt args =
     (if deref fmt = 0 then Inr (None, [])
      else
        bindR (pull_width (snd (parse_spec fmt)) args) (\<lambda>(spec, args).
        bindR (text_one m spec args) (\<lambda>((ret, args), ts).
          if ret \<noteq> None then Inr (ret, ts)
          else case fst (parse_spec fmt) of
                 None \<Rightarrow> Inl WildAccess
               | Some rest \<Rightarrow> bindR (format_text m rest args) (\<lambda>(ret, us). Inr (ret, ts @ us)))))"
  by pat_completeness auto
termination
  by (relation "measure (\<lambda>(m, fmt, args). length fmt)") (auto dest: parse_spec_suffix)

declare format_text.simps [simp del]

section \<open>Conversions append their text\<close>

text \<open>The strings at the addresses in \<open>A\<close> lie outside the buffer.\<close>

definition safe_strs :: "mem \<Rightarrow> u32 set \<Rightarrow> u32 \<Rightarrow> nat \<Rightarrow> bool" where
  "safe_strs m A buf n \<longleftrightarrow> (\<forall>p \<in> A. p = 0 \<or> (\<exists>bs. cstr m p bs \<and> length bs < 4294967296 \<and> outside buf n p (length bs)))"

lemma str_at_Bytes: "str_at m buf n (Bytes bs) (nonzero bs)"
  by (simp add: str_at_def nonzero_def)

lemma str_at_null: "str_at m buf n (AtAddr 0) []"
  by (simp add: str_at_def)

lemma str_at_mem:
  assumes "safe_strs m A buf n" "p \<in> A"
  shows "\<exists>bs. mem_string m p = Inr bs \<and> str_at m buf n (AtAddr p) bs"
proof (cases "p = 0")
  case False
  then obtain bs where bs: "cstr m p bs" "length bs < 4294967296" "outside buf n p (length bs)"
    using assms by (auto simp: safe_strs_def)
  then have "mem_string m p = Inr bs"
    using False strlen_cstr [OF bs(1)] bs(1) by (simp add: mem_string_def unat_of_nat_small cstr_load)
  then show ?thesis using bs False by (auto simp: str_at_def)
qed (simp add: mem_string_def str_at_def)

text \<open>
  \<open>f\<close> appends the text of \<open>r\<close> to any stream in a buffer, unless the output would run around
  the end of the address space.
\<close>

definition appends :: "mem \<Rightarrow> u32 set \<Rightarrow> (stream \<Rightarrow> stream res) \<Rightarrow> u8 list res \<Rightarrow> bool" where
  "appends m A f r \<longleftrightarrow> (\<forall>buf n s ts. safe_strs m A buf n \<and> within m buf n s \<and> r = Inr ts \<and>
     unat (write_ptr s) + length ts < 4294967296 \<longrightarrow> f s = Inr (emit ts s))"

lemma appendsD: "appends m A f r \<Longrightarrow> safe_strs m A buf n \<Longrightarrow> within m buf n s \<Longrightarrow> r = Inr ts \<Longrightarrow>
    unat (write_ptr s) + length ts < 4294967296 \<Longrightarrow> f s = Inr (emit ts s)"
  unfolding appends_def by blast

lemma appends_val:
  assumes "\<And>buf n. safe_strs m A buf n \<Longrightarrow> str_at m buf n pre ps"
    and "\<And>buf n. safe_strs m A buf n \<Longrightarrow> str_at m buf n val vs"
  shows "appends m A (fmt_str_val spec pre zeropad val limit) (Inr (val_text spec ps zeropad vs limit))"
  using assms unfolding appends_def by (auto intro: fmt_str_val_emit)

lemma appends_number:
  "appends m A (\<lambda>s. let zeropad = width_zeros spec (of_nat (length pre) + z + of_nat (length digits)) z
     in fmt_str_val spec (Bytes pre) zeropad (Bytes digits) INT_MAX s) (Inr (number_text spec pre z digits))"
  unfolding number_text_def Let_def by (rule appends_val [OF str_at_Bytes str_at_Bytes])

lemma appends_signed: "appends m A (fmt_signed spec val) (signed_text spec val)"
  using appends_number [of m A spec]
  by (cases "inttodigits [] (if sint val < 0 then - val else val) 10 lowerhex")
    (simp_all add: fmt_signed_def signed_text_def Let_def appends_def)

lemma appends_unsigned: "appends m A (fmt_unsigned spec val) (unsigned_text spec val)"
  using appends_number [of m A spec]
  by (cases "inttodigits [] val (spec_base (specifier spec)) (if specifier spec = 88 then upperhex else lowerhex)")
    (simp_all add: fmt_unsigned_def unsigned_text_def Let_def appends_def)

lemma appends_string:
  assumes "p \<in> A"
  shows "appends m A (fmt_str spec (AtAddr p)) (bindR (mem_string m p) (\<lambda>bs. Inr (string_text spec bs)))"
  unfolding appends_def
proof (intro allI impI, elim conjE)
  fix buf n s ts
  assume h: "safe_strs m A buf n" "within m buf n s" "bindR (mem_string m p) (\<lambda>bs. Inr (string_text spec bs)) = Inr ts"
    "unat (write_ptr s) + length ts < 4294967296"
  obtain bs where bs: "mem_string m p = Inr bs" "str_at m buf n (AtAddr p) bs"
    using str_at_mem [OF h(1) assms] by blast
  then show "fmt_str spec (AtAddr p) s = Inr (emit ts s)"
    using h by (auto simp: fmt_str_def string_text_def Let_def intro!: fmt_str_val_emit str_at_null)
qed

section \<open>The whole format\<close>

lemma va_word_args: "va_word args = Inr (w, args') \<Longrightarrow> w \<in> set args \<and> set args' \<subseteq> set args"
  by (auto simp: va_word_def split: list.splits)

lemma va_dword_args: "va_dword args = Inr (w, args') \<Longrightarrow> set args' \<subseteq> set args"
  by (auto simp: va_dword_def split: list.splits)

lemma integer_args:
  "signed_arg spec args = Inr (v, args') \<Longrightarrow> set args' \<subseteq> set args"
  "unsigned_arg spec args = Inr (v, args') \<Longrightarrow> set args' \<subseteq> set args"
  by (auto simp: signed_arg_def unsigned_arg_def Let_def bindR_eq_Inr
      dest!: va_word_args va_dword_args split: lenmod.splits if_splits)

lemma float_args: "float_arg fpu spec args = Inr (v, args') \<Longrightarrow>
    set args' \<subseteq> set args \<and> (\<forall>e. v = Inl e \<longrightarrow> e < 0)"
  by (auto simp: float_arg_def errno_defs split: lenmod.splits list.splits)

lemma pull_width_args: "pull_width spec args = Inr (spec', args') \<Longrightarrow>
    specifier spec' = specifier spec \<and> set args' \<subseteq> set args"
  by (auto simp: pull_width_def Let_def bindR_eq_Inr dest!: va_word_args split: if_splits)

lemma fmt_one_args:
  assumes "fmt_one fpu spec args s = Inr ((ret, args'), s')"
  shows "set args' \<subseteq> set args \<and> (\<forall>e. ret = Some e \<longrightarrow> e < 0)"
proof -
  have float: "set args' \<subseteq> set args \<and> (\<forall>e. ret = Some e \<longrightarrow> e < 0)"
    if "bindR (float_arg fpu spec args) (\<lambda>(val, args). case val of Inl e \<Rightarrow> Inr ((Some e, args), s)
          | Inr val \<Rightarrow> bindR (fmt_float fpu spec val s) (\<lambda>s. Inr ((None, args), s))) = Inr ((ret, args'), s')"
  proof (cases "float_arg fpu spec args")
    case (Inr r)
    obtain v as where r: "r = (v, as)" by (cases r)
    show ?thesis using that Inr float_args [of fpu spec args v as] by (cases v) (auto simp: r bindR_eq_Inr)
  qed (use that in simp)
  show ?thesis
    using assms float unfolding fmt_one_def Let_def
    by (auto simp: bindR_eq_Inr errno_defs dest!: va_word_args integer_args
        split: if_split_asm option.split_asm)
qed

lemma text_one_args: "text_one m spec args = Inr ((ret, args'), ts) \<Longrightarrow> set args' \<subseteq> set args"
  unfolding text_one_def Let_def
  by (auto simp: bindR_eq_Inr dest!: va_word_args integer_args split: if_split_asm option.split_asm)

lemma fputsn_Bytes: "snd (fputsn (Bytes bs) n s) = emit (take (unat n) (nonzero bs)) s"
  by (simp add: fputsn_def Let_def fputsn_bytes_emit nonzero_def)

lemma fmt_one_text:
  assumes A: "specifier spec = 115 \<Longrightarrow> set args \<subseteq> A" and h: "safe_strs m A buf n" "within m buf n s"
    and t: "text_one m spec args = Inr (x, ts)" "unat (write_ptr s) + length ts < 4294967296"
  shows "fmt_one fpu spec args s = Inr (x, emit ts s)"
proof -
  note apps = appendsD [OF _ h]
  have str: "fmt_str spec (AtAddr p) s = Inr (emit us s)"
    if "specifier spec = 115" "va_word args = Inr (p, args')" "mem_string m p = Inr bs"
      "us = string_text spec bs" "unat (write_ptr s) + length us < 4294967296" for p args' bs us
    by (rule apps [OF appends_string]) (use that A va_word_args [OF that(2)] in auto)
  have char: "fmt_char spec ch s = Inr (emit us s)"
    if "us = val_text spec [] 0 (nonzero [ucast ch]) 1" "unat (write_ptr s) + length us < 4294967296" for ch us
    unfolding fmt_char_def by (rule apps [OF appends_val [OF str_at_null str_at_Bytes]]) (use that in auto)
  have ptr: "fmt_pointer spec p s = Inr (emit us s)"
    if "unsigned_text (spec\<lparr>lenmod := LEN_PTRDIFF, specifier := 120, flag_alt := True, precision := 8\<rparr>) (ucast p) = Inr us"
      "unat (write_ptr s) + length us < 4294967296" for p us
    unfolding fmt_pointer_def by (rule apps [OF appends_unsigned that])
  have sgn: "fmt_signed spec v s = Inr (emit us s)"
    if "signed_text spec v = Inr us" "unat (write_ptr s) + length us < 4294967296" for v us
    by (rule apps [OF appends_signed that])
  have uns: "fmt_unsigned spec v s = Inr (emit us s)"
    if "unsigned_text spec v = Inr us" "unat (write_ptr s) + length us < 4294967296" for v us
    by (rule apps [OF appends_unsigned that])
  let ?c = "specifier spec"
  consider "?c \<in> {0, 37, 99, 115, 112}" | "?c \<in> {100, 105}" | "?c \<in> {98, 66, 111, 120, 88, 117}"
    | "?c \<in> {102, 70, 101, 69, 97, 65}"
    | "?c \<notin> {0, 37, 99, 115, 112, 100, 105, 98, 66, 111, 120, 88, 117, 102, 70, 101, 69, 97, 65}"
    by blast
  then show ?thesis
  proof cases
    case 1
    then show ?thesis
      using t char str ptr
      by (elim insertE emptyE; auto simp: text_one_def fmt_one_def bindR_eq_Inr fputsn_Bytes fputc_emit split: if_split_asm)
  next
    case 2
    have F: "fmt_one fpu spec args s = bindR (signed_arg spec args) (\<lambda>(val, args).
        case val of None \<Rightarrow> Inr ((Some (- EINVAL), args), s)
        | Some val \<Rightarrow> bindR (fmt_signed spec val s) (\<lambda>s. Inr ((None, args), s)))"
      and T: "text_one m spec args = bindR (signed_arg spec args) (\<lambda>(val, args).
        case val of None \<Rightarrow> Inr ((Some (- EINVAL), args), [])
        | Some val \<Rightarrow> bindR (signed_text spec val) (\<lambda>ts. Inr ((None, args), ts)))"
      using 2 by (auto simp: fmt_one_def text_one_def Let_def)
    from t(1) [unfolded T] obtain val as where "signed_arg spec args = Inr (val, as)" by (auto simp: bindR_eq_Inr)
    then show ?thesis using t(1) [unfolded T] F t(2) sgn by (cases val) (auto simp: bindR_eq_Inr)
  next
    case 3
    have F: "fmt_one fpu spec args s = bindR (unsigned_arg spec args) (\<lambda>(val, args).
        case val of None \<Rightarrow> Inr ((Some (- EINVAL), args), s)
        | Some val \<Rightarrow> bindR (fmt_unsigned spec val s) (\<lambda>s. Inr ((None, args), s)))"
      and T: "text_one m spec args = bindR (unsigned_arg spec args) (\<lambda>(val, args).
        case val of None \<Rightarrow> Inr ((Some (- EINVAL), args), [])
        | Some val \<Rightarrow> bindR (unsigned_text spec val) (\<lambda>ts. Inr ((None, args), ts)))"
      using 3 by (auto simp: fmt_one_def text_one_def Let_def)
    from t(1) [unfolded T] obtain val as where "unsigned_arg spec args = Inr (val, as)" by (auto simp: bindR_eq_Inr)
    then show ?thesis using t(1) [unfolded T] F t(2) uns by (cases val) (auto simp: bindR_eq_Inr)
  next
    case 4
    then show ?thesis using t(1) by (auto simp: text_one_def Let_def)
  next
    case 5
    then show ?thesis using t(1) by (simp add: text_one_def fmt_one_def Let_def)
  qed
qed

lemma vfprintf_loop_text:
  assumes "115 \<in> set fmt \<longrightarrow> set args \<subseteq> A" "safe_strs m A buf n" "within m buf n s"
    and "format_text m fmt args = Inr (ret, ts)" "unat (write_ptr s) + length ts < 4294967296"
  shows "vfprintf_loop fpu fmt args s = Inr (ret, emit ts s)"
  using assms
proof (induction m fmt args arbitrary: s ts rule: format_text.induct)
  case (1 m fmt args)
  show ?case
  proof (cases "deref fmt = 0")
    case True
    then show ?thesis using "1.prems"(4) by (simp add: vfprintf_loop.simps format_text.simps)
  next
    case False
    with "1.prems"(4) obtain spec as ret1 as1 t1 where one: "pull_width (snd (parse_spec fmt)) args = Inr (spec, as)"
      "text_one m spec as = Inr ((ret1, as1), t1)"
      "if ret1 \<noteq> None then ret1 = ret \<and> t1 = ts else \<exists>rest t2. fst (parse_spec fmt) = Some rest \<and>
         format_text m rest as1 = Inr (ret, t2) \<and> ts = t1 @ t2"
      by (subst (asm) format_text.simps) (auto simp: bindR_eq_Inr split: if_split_asm option.split_asm)
    have as: "specifier spec = specifier (snd (parse_spec fmt))" "set as \<subseteq> set args" "set as1 \<subseteq> set as"
      using pull_width_args [OF one(1)] text_one_args [OF one(2)] by auto
    have len: "unat (write_ptr s) + length t1 < 4294967296"
      using one(3) "1.prems"(5) by (auto split: if_splits)
    have f1: "fmt_one fpu spec as s = Inr ((ret1, as1), emit t1 s)"
    proof (rule fmt_one_text [OF _ "1.prems"(2,3) one(2) len])
      show "set as \<subseteq> A" if "specifier spec = 115"
        using parse_spec_specifier [of fmt 115] as that "1.prems"(1) by auto
    qed
    show ?thesis
    proof (cases "ret1 = None")
      case True
      then obtain rest t2 where r: "fst (parse_spec fmt) = Some rest" "format_text m rest as1 = Inr (ret, t2)"
        "ts = t1 @ t2" using one(3) by auto
      have "set rest \<subseteq> set fmt" using parse_spec_suffix [OF False r(1)] by (auto dest: set_mono_suffix)
      moreover have "unat (write_ptr (emit t1 s)) + length t2 < 4294967296"
        using "1.prems"(5) r(3) unat_add_small [of "write_ptr s" "length t1"] by simp
      ultimately have "vfprintf_loop fpu rest as1 (emit t1 s) = Inr (ret, emit t2 (emit t1 s))"
        using as "1.prems" r one True len
        by (intro "1.IH" [OF False one(1) refl one(2) refl refl _ r(1)] within_emit) auto
      then show ?thesis using False one f1 r True by (subst vfprintf_loop.simps) (simp add: emit_append)
    next
      case False
      then show ?thesis
        using \<open>deref fmt \<noteq> 0\<close> one f1 by (subst vfprintf_loop.simps) auto
    qed
  qed
qed

lemma vfprintf_loop_error:
  "vfprintf_loop fpu fmt args s = Inr (Some e, s') \<Longrightarrow> e < 0"
proof (induction fpu fmt args s rule: vfprintf_loop.induct)
  case (1 fpu fmt args s)
  then have "deref fmt \<noteq> 0" by (auto simp: vfprintf_loop.simps)
  then obtain spec as ret as' s2 where *: "pull_width (snd (parse_spec fmt)) args = Inr (spec, as)"
    "fmt_one fpu spec as s = Inr ((ret, as'), s2)"
    "ret \<noteq> None \<and> ret = Some e \<or> (\<exists>rest. ret = None \<and> fst (parse_spec fmt) = Some rest \<and>
       vfprintf_loop fpu rest as' s2 = Inr (Some e, s'))"
    using "1.prems" by (subst (asm) vfprintf_loop.simps)
      (auto simp: bindR_eq_Inr split: if_split_asm option.split_asm)
  show ?case
  proof (cases "ret = None")
    case True
    then obtain rest where "fst (parse_spec fmt) = Some rest" "vfprintf_loop fpu rest as' s2 = Inr (Some e, s')"
      using * by auto
    then show ?thesis using "1.IH" [OF \<open>deref fmt \<noteq> 0\<close> *(1) refl *(2) refl refl _ ] True by simp
  next
    case False
    then show ?thesis using * fmt_one_args [OF *(2)] by auto
  qed
qed

section \<open>The string printf family\<close>

lemma init_within:
  assumes "buf \<noteq> 0" "unat buf + unat bufsz < 4294967296"
  shows "within m buf (unat bufsz) (file_init_string_io buf bufsz m)"
    "write_ptr (file_init_string_io buf bufsz m) = buf" "write_end (file_init_string_io buf bufsz m) = buf + bufsz"
    "written_ct (file_init_string_io buf bufsz m) = 0" "\<not> ferror (file_init_string_io buf bufsz m)"
    "fmem (file_init_string_io buf bufsz m) = m" "write_base (file_init_string_io buf bufsz m) = buf"
    "written_flushed_ct (file_init_string_io buf bufsz m) = 0"
  using assms by (simp_all add: file_init_string_io_def setvbuf_def within_def written_ct_def ferror_def
      unat_word_ariths)

lemma fmem_emit_init:
  assumes "buf \<noteq> 0" "unat buf + unat bufsz < 4294967296" "unat buf + length ts < 4294967296"
  shows "fmem (emit ts (file_init_string_io buf bufsz m)) = store_bytes buf (take (unat bufsz) ts) m"
proof -
  have "unat (buf + bufsz) = unat buf + unat bufsz" using assms(2) by (simp add: unat_word_ariths)
  then show ?thesis
    using assms init_within [OF assms(1,2), of m] by (subst fmem_emit) simp_all
qed

text \<open>What \<open>vsnprintf\<close> leaves in memory: the text, cut to the buffer and terminated.\<close>

definition printed :: "u32 \<Rightarrow> nat \<Rightarrow> u8 list \<Rightarrow> mem \<Rightarrow> mem" where
  "printed buf n ts m = (if n = 0 then m else store_bytes buf (take (n - 1) ts @ [0]) m)"

lemma store_terminator:
  assumes "buf \<noteq> 0" "unat buf + unat bufsz < 4294967296" "unat buf + length ts < 4294967296" "length ts < 2147483648"
  shows "(let m' = store_bytes buf (take (unat bufsz) ts) m in
      if (of_nat (length ts) :: u32) < bufsz then m'(buf + of_nat (length ts) := 0)
      else if bufsz \<noteq> 0 then m'(buf + (bufsz - 1) := 0) else m') = printed buf (unat bufsz) ts m"
proof -
  have l: "unat (of_nat (length ts) :: u32) = length ts" using assms(4) by (simp add: unat_of_nat_small)
  have upd: "(store_bytes buf (xs @ ys) m)(buf + of_nat (length xs) := 0) = store_bytes buf (xs @ [0]) m"
    if "length xs < 4294967295" "length ys \<le> 1" for xs ys
    using store_bytes_over [of xs "[0]" ys buf m] that by (simp add: store_bytes_Cons)
  show ?thesis
  proof (cases "length ts < unat bufsz")
    case True
    then show ?thesis using upd [of ts "[]"] l assms by (simp add: word_less_nat_alt printed_def)
  next
    case False
    show ?thesis
    proof (cases "unat bufsz")
      case 0
      then show ?thesis using False by (simp add: printed_def unat_eq_0)
    next
      case (Suc k)
      have "bufsz = of_nat (Suc k)" unfolding Suc [symmetric] by simp
      with Suc have b: "bufsz - 1 = of_nat k" "bufsz \<noteq> 0" by auto
      have "take (Suc k) ts = take k ts @ [ts ! k]" using False Suc by (simp add: take_Suc_conv_app_nth)
      then show ?thesis
        using upd [of "take k ts" "[ts ! k]"] False Suc l b assms(4) by (simp add: word_less_nat_alt printed_def)
    qed
  qed
qed

lemma vsnprintf_text:
  assumes h: "buf \<noteq> 0" "unat buf + unat bufsz < 4294967296" "unat buf + length ts < 4294967296" "length ts < 2147483648"
    and A: "115 \<in> set fmt \<longrightarrow> safe_strs m (set args) buf (unat bufsz)"
    and t: "format_text m fmt args = Inr (ret, ts)"
  shows "vsnprintf fpu buf bufsz fmt args m = (case ret of
        Some e \<Rightarrow> Inr (e, store_bytes buf (take (unat bufsz) ts) m)
      | None \<Rightarrow> Inr (int (length ts), printed buf (unat bufsz) ts m))"
proof -
  let ?s = "file_init_string_io buf bufsz m" and ?A = "if 115 \<in> set fmt then set args else {}"
  note i = init_within [OF h(1,2), of m]
  have "safe_strs m ?A buf (unat bufsz)" using A by (simp add: safe_strs_def)
  from vfprintf_loop_text [OF _ this i(1) t, of fpu] h(3) i(2)
  have l: "vfprintf_loop fpu fmt args ?s = Inr (ret, emit ts ?s)" by simp
  have c: "sint (of_nat (length ts) :: u32) = int (length ts)"
    using h(4) by (simp add: signed_of_nat signed_take_bit_int_eq_self)
  note mem = fmem_emit_init [OF h(1-3), of m]
  show ?thesis
  proof (cases ret)
    case None
    then show ?thesis
      using l i mem store_terminator [OF h, of m] c
      by (auto simp: vsnprintf_def vfprintf_def Let_def written_ct_def split: if_splits)
  next
    case (Some e)
    with l have "e < 0" by (intro vfprintf_loop_error [of fpu fmt args ?s]) simp
    with Some l mem show ?thesis by (simp add: vsnprintf_def vfprintf_def)
  qed
qed

section \<open>Numbers\<close>

text \<open>
  The digits of a number in a base: all below the base, their value is the number, no leading
  zero, and no more of them than the magnitude needs.
\<close>

definition digits_of :: "nat \<Rightarrow> nat \<Rightarrow> nat list \<Rightarrow> bool" where
  "digits_of b n vs \<longleftrightarrow> (\<forall>v \<in> set vs. v < b) \<and> foldl (\<lambda>n v. n * b + v) 0 vs = n \<and>
     (vs \<noteq> [] \<longrightarrow> hd vs \<noteq> 0) \<and> (\<forall>k. n < b ^ k \<longrightarrow> length vs \<le> k)"

lemma digits_of_step:
  assumes "digits_of b (n div b) vs" "n \<noteq> 0" "2 \<le> b"
  shows "digits_of b n (vs @ [n mod b])"
proof -
  have "vs \<noteq> [] \<or> n mod b \<noteq> 0"
    using assms by (auto simp: digits_of_def div_eq_0_iff mod_eq_0_iff_dvd)
  moreover have "length (vs @ [n mod b]) \<le> k" if "n < b ^ k" for k
  proof (cases k)
    case 0
    then show ?thesis using that assms(2) by simp
  next
    case (Suc j)
    then have "n div b < b ^ j" using that assms(3) by (simp add: div_less_iff_less_mult mult.commute)
    then show ?thesis using assms(1) Suc by (auto simp: digits_of_def)
  qed
  ultimately show ?thesis using assms by (auto simp: digits_of_def hd_append)
qed

lemma inttodigits_digits:
  assumes "2 \<le> unat base"
  shows "\<exists>vs. inttodigits acc num base digitset = Some (map (\<lambda>v. digitset ! v) vs @ acc) \<and>
    digits_of (unat base) (unat num) vs"
proof (induction "unat num" arbitrary: num acc rule: less_induct)
  case less
  show ?case
  proof (cases "num = 0")
    case True
    have "inttodigits acc num base digitset = Some acc" by (subst inttodigits.simps) (simp add: True)
    moreover have "digits_of (unat base) 0 []" by (simp add: digits_of_def)
    ultimately show ?thesis using True by (intro exI [of _ "[]"]) simp
  next
    case False
    then have n: "unat num \<noteq> 0" by (simp add: unat_eq_0)
    have dv: "unat (num div base) = unat num div unat base" "unat (num mod base) = unat num mod unat base"
      by (simp_all add: unat_div_distrib unat_mod_distrib)
    with n assms have "unat (num div base) < unat num" by simp
    from less [OF this, of "digitset ! unat (num mod base) # acc"] obtain vs where vs:
      "inttodigits (digitset ! unat (num mod base) # acc) (num div base) base digitset =
         Some (map (\<lambda>v. digitset ! v) vs @ digitset ! unat (num mod base) # acc)"
      "digits_of (unat base) (unat num div unat base) vs" by (auto simp: dv)
    have "inttodigits acc num base digitset =
        Some (map (\<lambda>v. digitset ! v) (vs @ [unat num mod unat base]) @ acc)"
      by (subst inttodigits.simps) (simp add: False vs(1), simp add: dv)
    with digits_of_step [OF vs(2) n assms] show ?thesis by blast
  qed
qed

text \<open>The text of \<open>%d\<close>.\<close>

lemma parse_d: "parse_spec [37, 100] =
  (Some [], zero_spec\<lparr>start := [37, 100], len := 2, width := WP_UNSPECIFIED, precision := WP_UNSPECIFIED, specifier := 100\<rparr>)"
  by (simp add: parse_spec_def deref_def parse_width_precision_def parse_precision_def parse_lenmod_def
      LENMOD_MAP_def Let_def zero_spec_def isdigit_byte)

definition decimal_text :: "int \<Rightarrow> u8 list \<Rightarrow> bool" where
  "decimal_text n ts \<longleftrightarrow> (\<exists>vs. digits_of 10 (nat \<bar>n\<bar>) vs \<and>
     ts = (if n < 0 then [45] else []) @ (if vs = [] then [48] else map (\<lambda>d. of_nat (48 + d)) vs))"

lemma lowerhex_digit: "v < 10 \<Longrightarrow> lowerhex ! v = of_nat (48 + v)"
  by (auto simp: lowerhex_def nth_Cons' numeral_eq_Suc less_Suc_eq)

lemma digit_byte: "d < 10 \<Longrightarrow> unat (48 + of_nat d :: u8) = 48 + d"
  by (simp add: unat_word_ariths unat_of_nat)

lemma abs_val:
  fixes v :: u32
  defines "val \<equiv> (scast v :: u64)"
  shows "sint val = sint v" "unat (if sint val < 0 then - val else val) = nat \<bar>sint v\<bar>"
proof -
  have r: "- 2147483648 \<le> sint v" "sint v < 2147483648"
    using sint_ge [of v] sint_lt [of v] by simp_all
  then show s: "sint val = sint v" by (simp add: val_def signed_scast_eq signed_take_bit_int_eq_self)
  have val: "val = word_of_int (sint v)" by (simp add: val_def)
  have "uint (word_of_int \<bar>sint v\<bar> :: u64) = \<bar>sint v\<bar>" using r by (simp add: uint_word_of_int take_bit_int_eq_self)
  moreover have "(if sint val < 0 then - val else val) = word_of_int \<bar>sint v\<bar>"
    using s val by (simp add: abs_if)
  ultimately show "unat (if sint val < 0 then - val else val) = nat \<bar>sint v\<bar>"
    by (simp add: unat_eq_nat_uint)
qed

lemma val_text_plain:
  assumes "width spec = 0" "length ps < 4294967295" "length vs < 2147483647"
  shows "val_text spec ps z vs INT_MAX = ps @ replicate (nat (sint z)) 48 @ vs"
  using assms by (simp add: val_text_def Let_def SIZE_MAX_def INT_MAX_def)

definition d_spec :: "u8 list \<Rightarrow> fmtspec" where
  "d_spec st = zero_spec\<lparr>start := st, len := 2, width := 0, precision := WP_UNSPECIFIED, specifier := 100\<rparr>"

lemma text_one_d:
  fixes v :: u32
  shows "\<exists>ts. decimal_text (sint v) ts \<and> length ts \<le> 11 \<and> text_one m (d_spec st) (v # args) = Inr ((None, args), ts)"
proof -
  let ?spec = "d_spec st"
  let ?val = "scast v :: u64"
  let ?u = "if sint ?val < 0 then - ?val else ?val"
  obtain vs where vs: "inttodigits [] ?u 10 lowerhex = Some (map (\<lambda>v. lowerhex ! v) vs)"
    "digits_of 10 (nat \<bar>sint v\<bar>) vs"
    using inttodigits_digits [of 10 "[]" ?u lowerhex] abs_val(2) [of v] by auto
  have "nat \<bar>sint v\<bar> < 10 ^ 10" using sint_ge [of v] sint_lt [of v] by simp
  with vs(2) have len: "length vs \<le> 10" unfolding digits_of_def by blast
  let ?ds = "map (\<lambda>d. of_nat (48 + d)) vs :: u8 list" and ?ps = "if sint v < 0 then [45] else [] :: u8 list"
  have ds: "map (\<lambda>v. lowerhex ! v) vs = ?ds" using vs(2) by (auto simp: digits_of_def lowerhex_digit)
  have z: "precision_zeros ?spec (of_nat (length vs)) = (if vs = [] then 1 else 0)"
    using len by (auto simp: precision_zeros_def d_spec_def signed_of_nat signed_take_bit_int_eq_self)
  have "of_nat (48 + d) \<noteq> (0 :: u8)" if "d < 10" for d :: nat
    using digit_byte [OF that] by (auto simp: word_unat_eq_iff)
  then have nz: "nonzero ?ds = ?ds" "nonzero ?ps = ?ps"
    using vs(2) by (auto simp: nonzero_def takeWhile_eq_all_conv digits_of_def)
  let ?ts = "?ps @ (if vs = [] then [48] else ?ds)"
  have "signed_text ?spec ?val = Inr (val_text ?spec (nonzero ?ps) (precision_zeros ?spec (of_nat (length vs))) (nonzero ?ds) INT_MAX)"
    using vs(1) by (simp add: signed_text_def ds number_text_def Let_def abs_val(1) width_zeros_def signstr_def)
      (simp add: zero_spec_def d_spec_def)
  also have "\<dots> = Inr ?ts" unfolding z nz using len by (subst val_text_plain) (simp_all add: d_spec_def)
  finally have "signed_text ?spec ?val = Inr ?ts" .
  then have "text_one m ?spec (v # args) = Inr ((None, args), ?ts)"
    by (simp add: text_one_def Let_def signed_arg_def va_word_def d_spec_def) (simp add: zero_spec_def)
  moreover have "decimal_text (sint v) ?ts" using vs(2) by (auto simp: decimal_text_def)
  moreover have "length ?ts \<le> 11" using len by simp
  ultimately show ?thesis by blast
qed

lemma text_d:
  fixes v :: u32
  shows "\<exists>ts. decimal_text (sint v) ts \<and> length ts \<le> 11 \<and> format_text m [37, 100] [v] = Inr (None, ts)"
proof -
  obtain ts where ts: "decimal_text (sint v) ts" "length ts \<le> 11"
    "text_one m (d_spec [37, 100]) [v] = Inr ((None, []), ts)" using text_one_d by blast
  moreover have "pull_width (snd (parse_spec [37, 100])) [v] = Inr (d_spec [37, 100], [v])"
    by (simp add: parse_d pull_width_def zero_spec_def WP_UNSPECIFIED_def WP_STAR_def d_spec_def)
  ultimately have "format_text m [37, 100] [v] = Inr (None, ts)"
    by (subst format_text.simps) (simp add: parse_d deref_def format_text.simps [of _ "[]"])
  with ts show ?thesis by blast
qed

lemma decimal_text_nonzero:
  assumes "decimal_text n ts"
  shows "0 \<notin> set ts"
proof -
  obtain vs where vs: "\<forall>d \<in> set vs. d < 10"
    "ts = (if n < 0 then [45] else []) @ (if vs = [] then [48] else map (\<lambda>d. of_nat (48 + d)) vs)"
    using assms unfolding decimal_text_def digits_of_def by blast
  have "of_nat (48 + d) \<noteq> (0 :: u8)" if "d < 10" for d :: nat
    using digit_byte [OF that] by (auto simp: word_unat_eq_iff)
  then have "0 \<notin> set (map (\<lambda>d. of_nat (48 + d) :: u8) vs)" using vs(1) by force
  then show ?thesis unfolding vs(2) by simp
qed

lemma dec_value_digits: "dec_value (map (\<lambda>d. 48 + of_nat d) vs) = foldl (\<lambda>n v. n * 10 + v) 0 vs"
  if "\<forall>v \<in> set vs. v < 10"
proof -
  have "foldl (\<lambda>n d. n * 10 + (unat d - 48)) k (map (\<lambda>d. 48 + of_nat d :: u8) vs) = foldl (\<lambda>n v. n * 10 + v) k vs" for k
    using that by (induction vs arbitrary: k) (simp_all add: digit_byte)
  then show ?thesis by (simp add: dec_value_def)
qed

lemma atoi_decimal:
  fixes v :: u32
  assumes "decimal_text (sint v) ts" "cstr m s ts" "s \<noteq> 0"
  shows "atoi s m = Some v"
proof -
  obtain vs where vs: "digits_of 10 (nat \<bar>sint v\<bar>) vs"
    "ts = (if sint v < 0 then [45] else []) @ (if vs = [] then [48] else map (\<lambda>d. 48 + of_nat d) vs)"
    using assms(1) by (auto simp: decimal_text_def)
  define ds :: "u8 list" where "ds = (if vs = [] then [48] else map (\<lambda>d. 48 + of_nat d) vs)"
  have dig: "isdigit (schar (48 + of_nat d))" if "d < 10" for d :: nat
  proof -
    have "d \<in> {0, 1, 2, 3, 4, 5, 6, 7, 8, 9}" using that by auto
    then show ?thesis by (auto simp: isdigit_byte)
  qed
  have ds: "ds \<noteq> []" "\<forall>d \<in> set ds. isdigit (schar d)"
    using vs(1) dig dig [of 0] by (auto simp: ds_def digits_of_def)
  have val: "dec_value ds = nat \<bar>sint v\<bar>"
    using vs(1) dec_value_digits [of vs] by (auto simp: ds_def digits_of_def dec_value_def)
  have hd: "isdigit (schar (hd ds))" using ds by (cases ds) auto
  then have first: "hd ds \<notin> {43, 45}" "\<not> isspace (schar (hd ds))"
    by (auto simp: isdigit_def isspace_def schar_def)
  let ?sg = "if sint v < 0 then [45] else [] :: u8 list"
  have c: "cstr m s (?sg @ ds)" using assms(2) vs(2) by (simp add: ds_def)
  have skip: "skip_space s m = Some s"
    using skip_space_cstr [of m s "[]" "?sg @ ds"] c first(2) by (auto simp: isspace_def schar_def)
  have loop: "atoi_loop 0 (s + of_nat (length ?sg)) m = Some (of_nat (nat \<bar>sint v\<bar>))"
    using atoi_loop_digits [of m "s + of_nat (length ?sg)" ds "[]" 0] cstr_drop [OF c, of "length ?sg"] ds val
    by (auto simp: dec_value_def split: if_splits)
  have ms: "m s = hd (?sg @ ds)" using c ds(1) by (cases ds) auto
  have w: "of_nat (nat \<bar>sint v\<bar>) = (if sint v < 0 then - v else v)"
    by (simp add: of_nat_nat)
  show ?thesis
    using skip loop ms first(1) w assms(3) by (auto simp: atoi_def Let_def split: if_splits)
qed

text \<open>Floating-point operations for examples that use none.\<close>

definition no_fpu :: "unit fpu" where
  "no_fpu = \<lparr>fp_double = (\<lambda>_ _. ()), fp_long_double = (\<lambda>_ _ _. ()), fpclassify = (\<lambda>_. FP_ZERO),
     signbitl = (\<lambda>_. False), fabsl = (\<lambda>_. ()), fp_of_int = (\<lambda>_. ()), fp_mul = (\<lambda>_ _. ()),
     fp_div = (\<lambda>_ _. ()), fp_sub = (\<lambda>_ _. ()), fp_trunc = (\<lambda>_. 0), fp_ge_half = (\<lambda>_. False)\<rparr>"

end
