(* ===== verification/LibcProps.thy ===== *)
theory LibcProps
  imports PrintfLemmas
begin

text \<open>
  The properties of the C library routines (\<open>lib/libc\<close>) and of the string helpers of
  \<open>lib/util/util.c\<close>, each with a small memory in which its hypotheses hold.
\<close>

unbundle bit_operations_syntax

section \<open>A small memory\<close>

text \<open>Bytes placed at an address of an otherwise zero memory.\<close>

definition mem_with :: "(u32 \<times> u8 list) list \<Rightarrow> mem" where
  "mem_with ps = fold (\<lambda>(a, bs) m. store_bytes a bs m) ps (\<lambda>_. 0)"

lemma unat_minus_1: "unat (- 1 :: u32) = 4294967295"
proof -
  have "unat (- 1 :: u32) = unat (4294967295 :: u32)" by (rule arg_cong [where f = unat]) simp
  also have "\<dots> = 4294967295" by simp
  finally show ?thesis .
qed

lemma disjoint_rangesI:
  assumes "unat d + n \<le> unat s \<and> unat s + k \<le> 4294967296 \<or> unat s + k \<le> unat d \<and> unat d + n \<le> 4294967296"
  shows "disjoint_ranges d n s k"
  unfolding disjoint_ranges_def
proof (intro allI impI)
  fix i j
  assume "i < n" "j < k"
  then have "unat (d + of_nat i) = unat d + i" "unat (s + of_nat j) = unat s + j"
    using assms by (auto intro!: unat_add_small)
  then show "d + of_nat i \<noteq> s + of_nat j" using assms \<open>i < n\<close> \<open>j < k\<close> by (auto simp: word_unat_eq_iff)
qed

section \<open>Printing\<close>



text \<open>
  C32: Printing an \<open>int\<close> with \<open>%d\<close> and reading it back with \<open>atoi\<close> gives the same number, for
  every 32-bit value and every buffer of at least twelve bytes.
\<close>

theorem print_parse_int:
  fixes v :: u32
  assumes "buf \<noteq> 0" "12 \<le> unat bufsz" "unat buf + unat bufsz < 4294967296"
  shows "\<exists>n m'. vsnprintf fpu buf bufsz [37, 100] [v] m = Inr (n, m') \<and> atoi buf m' = Some v"
proof -
  obtain ts where ts: "decimal_text (sint v) ts" "length ts \<le> 11" "format_text m [37, 100] [v] = Inr (None, ts)"
    using text_d by blast
  have "vsnprintf fpu buf bufsz [37, 100] [v] m = Inr (int (length ts), store_bytes buf (ts @ [0]) m)"
    using vsnprintf_text [OF assms(1,3) _ _ _ ts(3), of fpu] ts(2) assms by (simp add: printed_def)
  moreover have "cstr (store_bytes buf (ts @ [0]) m) buf ts"
    using decimal_text_nonzero [OF ts(1)] ts(2) by (intro cstr_stored) auto
  then have "atoi buf (store_bytes buf (ts @ [0]) m) = Some v"
    by (rule atoi_decimal [OF ts(1)]) (use assms(1) in simp)
  ultimately show ?thesis by blast
qed

theorem print_parse_int_witness:
  "\<exists>n m'. vsnprintf no_fpu 0x1000 16 [37, 100] [- 2147483648] (\<lambda>_. 7) = Inr (n, m') \<and>
    atoi 0x1000 m' = Some (- 2147483648)"
  using print_parse_int [of "0x1000" 16 no_fpu "- 2147483648" "\<lambda>_. 7"] by simp

text \<open>
  C33: The digit loop of the printf family ends for every number and every base from two on,
  and the digits it writes are the representation of the number in that base: below the base,
  without leading zero, with the number as their value. A 64-bit number never needs more than
  64 of them, so the 129-byte digit buffer is large enough.
\<close>

theorem inttodigits_represents:
  assumes "2 \<le> unat base"
  shows "\<exists>vs. inttodigits [] num base digitset = Some (map (\<lambda>v. digitset ! v) vs) \<and>
    (\<forall>v \<in> set vs. v < unat base) \<and> foldl (\<lambda>n v. n * unat base + v) 0 vs = unat num \<and>
    (vs \<noteq> [] \<longrightarrow> hd vs \<noteq> 0) \<and> length vs \<le> 64"
proof -
  obtain vs where vs: "inttodigits [] num base digitset = Some (map (\<lambda>v. digitset ! v) vs)"
    "digits_of (unat base) (unat num) vs" using inttodigits_digits [OF assms, of "[]"] by auto
  have "unat num < 2 ^ 64" using unsigned_less [of num, where 'a = nat] by simp
  also have "\<dots> \<le> unat base ^ 64" using assms by (rule power_mono) simp
  finally show ?thesis using vs unfolding digits_of_def by blast
qed

theorem inttodigits_represents_witness:
  "\<exists>vs. inttodigits [] 255 16 lowerhex = Some (map (\<lambda>v. lowerhex ! v) vs) \<and> foldl (\<lambda>n v. n * 16 + v) 0 vs = 255"
proof -
  have "2 \<le> unat (16 :: u64)" by simp
  from inttodigits_represents [OF this, of 255 lowerhex] show ?thesis by auto
qed


section \<open>Copying and comparing\<close>

text \<open>
  C34: \<open>bcopy\<close> copies correctly whether or not the two areas overlap: afterwards the destination
  holds the bytes the source had before the call, and nothing else changes.
\<close>

theorem bcopy_overlap_safe:
  assumes "0 \<le> sz" "unat source + nat sz \<le> 4294967296" "unat destin + nat sz \<le> 4294967296" "sz < 2147483648"
  shows "load_bytes (bcopy source destin sz m) destin (nat sz) = load_bytes m source (nat sz) \<and>
    (\<forall>a. \<not> unat (a - destin) < nat sz \<longrightarrow> bcopy source destin sz m a = m a)"
proof -
  have "bcopy source destin sz m = store_bytes destin (load_bytes m source (nat sz)) m"
    using assms by (intro bcopy_store) simp_all
  moreover have "nat sz \<le> 4294967296" using assms(4) by simp
  ultimately show ?thesis
    by (simp add: load_store_same) (simp add: store_bytes_def)
qed

theorem bcopy_overlap_safe_witness:
  "load_bytes (bcopy 100 101 3 (\<lambda>a. ucast a)) 101 3 = [100, 101, 102]"
  using bcopy_overlap_safe [of 3 100 101 "\<lambda>a. ucast a"] by (simp add: load_bytes_def upt_rec)

text \<open>
  C35: \<open>strncmp\<close> is the three-way lexicographic comparison of the first \<open>n\<close> characters of the two
  strings, their terminators included, with characters compared as signed values.
\<close>

theorem strncmp_lexicographic:
  assumes "cstr m s as" "cstr m t bs"
  shows "strncmp s t n m =
    (let x = map schar (take (unat n) (as @ [0])); y = map schar (take (unat n) (bs @ [0]))
     in if x < y then - 1 else if x = y then 0 else 1)"
  using strncmp_loop_cstr [OF assms, of "unat n"] by (simp add: strncmp_def three_way_def)

theorem strncmp_lexicographic_witness:
  "strncmp 100 200 5 (mem_with [(100, [65, 66, 0]), (200, [65, 0xe5, 0])]) = 1"
proof -
  let ?m = "mem_with [(100, [65, 66, 0]), (200, [65, 0xe5, 0])]"
  have "cstr ?m 100 [65, 66]" "cstr ?m 200 [65, 0xe5]" by (simp_all add: mem_with_def store_bytes_def)
  from strncmp_lexicographic [OF this, of 5] show ?thesis by (simp add: schar_def)
qed

text \<open>
  C38: \<open>strncat\<close> appends the whole source when it is shorter than the count. Otherwise it appends
  \<open>count\<close> characters, but the terminator depends on what the destination array holds behind
  them: it is put one byte too far, after a stray byte, unless that byte is zero already.
\<close>

theorem strncat_appends:
  assumes "cstr m dest as" "cstr m src bs" "e = dest + of_nat (length as)"
    and "disjoint_ranges e (Suc (unat count)) src (Suc (length bs))"
  shows "strncat dest src count m = Some (dest,
    if length bs < unat count then store_bytes e (bs @ [0]) m
    else if m (e + count) = 0 then store_bytes e (take (unat count) bs) m
    else (store_bytes e (take (unat count) bs) m)(e + count + 1 := 0))"
  by (rule strncat_cstr [OF assms])

theorem strncat_appends_witness:
  "\<exists>m'. strncat 100 200 2 (mem_with [(100, [65, 0, 90, 90, 90]), (200, [66, 67, 68, 0])]) = Some (100, m') \<and>
    cstr m' 100 [65, 66, 67, 90]"
proof -
  let ?m = "mem_with [(100, [65, 0, 90, 90, 90]), (200, [66, 67, 68, 0])]"
  have c: "cstr ?m 100 [65]" "cstr ?m 200 [66, 67, 68]" by (simp_all add: mem_with_def store_bytes_def)
  have d: "disjoint_ranges 101 (Suc (unat (2 :: u32))) 200 (Suc (length [66 :: u8, 67, 68]))"
    by (rule disjoint_rangesI) simp
  have e: "101 = 100 + of_nat (length [65 :: u8])" by simp
  have m: "?m 100 = 65" "?m (101 + 2) = 90" by (simp_all add: mem_with_def store_bytes_def)
  have "strncat 100 200 2 ?m = Some (100, (store_bytes 101 (take (unat (2 :: u32)) [66, 67, 68]) ?m)(101 + 2 + 1 := 0))"
    using strncat_appends [OF c e d] m(2) by (simp split: if_split_asm)
  moreover have "cstr ((store_bytes 101 (take (unat (2 :: u32)) [66, 67, 68]) ?m)(101 + 2 + 1 := 0)) 100 [65, 66, 67, 90]"
    using m by (simp add: store_bytes_def [of 101] unat_minus_1)
  ultimately show ?thesis by blast
qed

text \<open>
  C39: \<open>strlcpy\<close> keeps its contract when the source has to be cut: the copy is terminated inside
  the destination and the length of the source is returned. When the source fits it runs on:
  it stores a second terminator behind the first one and adds the length of whatever string
  follows the source in memory to its result.
\<close>

theorem strlcpy_result:
  assumes "cstr m src bs" "cstr m (src + of_nat (length bs) + 1) cs" "0 < sz" "sz < 2147483648"
    and "disjoint_ranges dest (nat sz) src (length bs + length cs + 2)"
  shows "strlcpy dest src sz m = Some
    (if nat sz \<le> Suc (length bs) then (of_nat (length bs), store_bytes dest (take (nat sz - 1) bs @ [0]) m)
     else (of_nat (length bs + length cs), store_bytes dest (bs @ [0, 0]) m))"
proof (cases "nat sz \<le> Suc (length bs)")
  case True
  then show ?thesis
    using assms strlcpy_truncated [OF assms(1,3) True] disjoint_ranges_mono [OF assms(5), of "nat sz" "Suc (length bs)"]
    by simp
next
  case False
  then show ?thesis using strlcpy_overrun [OF assms(1,2) _ _ assms(5)] assms(4) by simp
qed

theorem strlcpy_result_witness:
  "\<exists>m'. strlcpy 300 200 8 (mem_with [(200, [65, 0, 66, 67, 0])]) = Some (3, m')"
proof -
  let ?m = "mem_with [(200, [65, 0, 66, 67, 0])]"
  have c: "cstr ?m 200 [65]" "cstr ?m (200 + of_nat (length [65 :: u8]) + 1) [66, 67]"
    by (simp_all add: mem_with_def store_bytes_def)
  have d: "disjoint_ranges 300 (nat 8) 200 (length [65 :: u8] + length [66 :: u8, 67] + 2)"
    by (rule disjoint_rangesI) simp
  from strlcpy_result [OF c _ _ d] show ?thesis by simp
qed

end
