(* ===== verification/Termbuf.thy ===== *)
theory Termbuf
  imports Printf
begin

text \<open>
  The screen windows of \<^verbatim>\<open>lib/ansi_term\<close>: the escape sequence parser of
  \<^verbatim>\<open>ansi_parse.c\<close>, the window driver of \<^verbatim>\<open>termbuf.c\<close> and the formatted output of
  \<^verbatim>\<open>tprintf.c\<close>.

  The text buffer is a function from cell numbers, counted from \<^verbatim>\<open>buf.base\<close>, to
  16-bit cells; it is kept in the record of the terminal that writes to it.
  Rows and columns are signed C integers, modelled as integers; the parameters
  of an escape sequence are 32-bit words that wrap around.  Characters are
  integers because \<^verbatim>\<open>term_putc\<close> takes an \<^verbatim>\<open>int\<close> and the parser answers with negative
  codes.
\<close>

unbundle bit_operations_syntax

section \<open>The escape sequence parser\<close>

datatype ansi_inner_state = AIS_READY | AIS_ESC | AIS_PARAM | AIS_INTERMEDIATE

definition APS_ESCAPE :: int where "APS_ESCAPE = 1"
definition APS_FINAL :: int where "APS_FINAL = 2"
definition APS_INVALID :: int where "APS_INVALID = 3"
definition APS_UNIMPLEMENTED :: int where "APS_UNIMPLEMENTED = 4"

definition CSI_MAX_PARAM :: nat where "CSI_MAX_PARAM = 3"

definition ANSI_ESC :: int where "ANSI_ESC = 27"
definition ANSI_CSI :: int where "ANSI_CSI = 91"
definition ANSI_CUP :: int where "ANSI_CUP = 72"
definition ANSI_ED :: int where "ANSI_ED = 74"
definition ANSI_EL :: int where "ANSI_EL = 75"
definition ANSI_EFWD :: int where "ANSI_EFWD = 0"
definition ANSI_EBACK :: int where "ANSI_EBACK = 1"
definition ANSI_EFULL :: int where "ANSI_EFULL = 2"

lemmas ansi_defs = APS_ESCAPE_def APS_FINAL_def APS_INVALID_def APS_UNIMPLEMENTED_def
  CSI_MAX_PARAM_def ANSI_ESC_def ANSI_CSI_def ANSI_CUP_def ANSI_ED_def ANSI_EL_def
  ANSI_EFWD_def ANSI_EBACK_def ANSI_EFULL_def

record ansi_parse =
  ap_state :: ansi_inner_state
  csi_param :: "u32 list"
  param_num :: nat
  ap_cmd :: int

definition start_esc :: "ansi_parse \<Rightarrow> ansi_parse" where
  "start_esc parser =
     parser\<lparr>ap_state := AIS_ESC, csi_param := replicate CSI_MAX_PARAM 0, param_num := 0, ap_cmd := 0\<rparr>"

definition start_csi :: "ansi_parse \<Rightarrow> ansi_parse" where
  "start_csi parser = parser\<lparr>ap_state := AIS_PARAM\<rparr>"

definition parameter_byte :: "ansi_parse \<Rightarrow> int \<Rightarrow> ansi_parse" where
  "parameter_byte parser ch =
     (if 48 \<le> ch \<and> ch \<le> 57 \<and> param_num parser < CSI_MAX_PARAM then
        let digit = word_of_int (ch - 48);
            i = param_num parser
        in parser\<lparr>csi_param := (csi_param parser)[i := csi_param parser ! i * 10 + digit]\<rparr>
      else if ch = 59 then parser\<lparr>param_num := param_num parser + 1\<rparr>
      else parser)"

definition intermediate_byte :: "ansi_parse \<Rightarrow> int \<Rightarrow> ansi_parse" where
  "intermediate_byte parser ch = parser"

definition final_byte :: "ansi_parse \<Rightarrow> int \<Rightarrow> ansi_parse" where
  "final_byte parser ch = parser\<lparr>ap_cmd := ch, ap_state := AIS_READY\<rparr>"

text \<open>The last two cases of the switch, shared because the third falls through to the fourth.\<close>

definition parse_intermediate :: "ansi_parse \<Rightarrow> int \<Rightarrow> int \<times> ansi_parse" where
  "parse_intermediate parser ch =
     (if 0x20 \<le> ch \<and> ch \<le> 0x2f then (- APS_ESCAPE, intermediate_byte parser ch)
      else if 0x40 \<le> ch \<and> ch \<le> 0x7e then (- APS_FINAL, final_byte parser ch)
      else (- APS_INVALID, parser))"

definition ansi_parse_putc :: "ansi_parse \<Rightarrow> int \<Rightarrow> int \<times> ansi_parse" where
  "ansi_parse_putc parser ch =
     (case ap_state parser of
        AIS_READY \<Rightarrow>
          if ch = ANSI_ESC then (- APS_ESCAPE, start_esc parser) else (ch, parser)
      | AIS_ESC \<Rightarrow>
          if ch = ANSI_CSI then (- APS_ESCAPE, start_csi parser) else (- APS_UNIMPLEMENTED, parser)
      | AIS_PARAM \<Rightarrow>
          if 0x30 \<le> ch \<and> ch \<le> 0x3f then (- APS_ESCAPE, parameter_byte parser ch)
          else parse_intermediate (parser\<lparr>ap_state := AIS_INTERMEDIATE\<rparr>) ch
      | AIS_INTERMEDIATE \<Rightarrow> parse_intermediate parser ch)"


section \<open>Windows\<close>

datatype termwin_overflow = TERM_OF_CLIP | TERM_OF_SCROLL | TERM_OF_GROW

record termwin =
  start_row :: int
  height :: int
  start_col :: int
  win_width :: int

record termbuf =
  buf_rows :: int
  buf_cols :: int
  cells :: "int \<Rightarrow> u16"

record term_t =
  buf :: termbuf
  win :: termwin
  overflow_mode :: termwin_overflow
  row :: int
  col :: int
  color :: u8
  show_cursor :: bool
  cursor_visible :: bool
  cursor_color :: u16
  parser :: ansi_parse

definition COLOR_GREY_ON_BLACK :: u8 where "COLOR_GREY_ON_BLACK = 7"

definition colorchar :: "u8 \<Rightarrow> int \<Rightarrow> u16" where
  "colorchar c ch = push_bit 8 (ucast c) + ucast (word_of_int ch :: u8)"

definition term_ptr :: "term_t \<Rightarrow> int \<Rightarrow> int \<Rightarrow> int" where
  "term_ptr t r c = (start_row (win t) + r) * buf_cols (buf t) + start_col (win t) + c"

definition is_in_bounds :: "term_t \<Rightarrow> int \<Rightarrow> int \<Rightarrow> bool" where
  "is_in_bounds t r c \<longleftrightarrow> 0 \<le> r \<and> r < height (win t) \<and> 0 \<le> c \<and> c < win_width (win t)"

definition set_cell :: "int \<Rightarrow> u16 \<Rightarrow> term_t \<Rightarrow> term_t" where
  "set_cell i v t = t\<lparr>buf := (buf t)\<lparr>cells := (cells (buf t))(i := v)\<rparr>\<rparr>"

definition setcc :: "int \<Rightarrow> int \<Rightarrow> u16 \<Rightarrow> term_t \<Rightarrow> term_t" where
  "setcc r c v t = (if is_in_bounds t r c then set_cell (term_ptr t r c) v t else t)"

definition setc :: "int \<Rightarrow> int \<Rightarrow> u8 \<Rightarrow> int \<Rightarrow> term_t \<Rightarrow> term_t" where
  "setc r c clr ch t = setcc r c (colorchar clr ch) t"

definition setcolor :: "int \<Rightarrow> int \<Rightarrow> u8 \<Rightarrow> term_t \<Rightarrow> term_t" where
  "setcolor r c clr t =
     (if is_in_bounds t r c
      then let p = term_ptr t r c; ch = uint (cells (buf t) p AND 0xff)
           in set_cell p (colorchar clr ch) t
      else t)"

definition erase_rows :: "int \<Rightarrow> int \<Rightarrow> term_t \<Rightarrow> term_t" where
  "erase_rows start_r end_r t =
     fold (\<lambda>r t. fold (\<lambda>c t. setc r c COLOR_GREY_ON_BLACK 0 t) [0..win_width (win t) - 1] t)
       [start_r..end_r - 1] t"

text \<open>The range of an erase mode; other modes erase nothing.\<close>

definition erase_range :: "int \<Rightarrow> int \<Rightarrow> int \<Rightarrow> int \<Rightarrow> (int \<times> int) option" where
  "erase_range mode fwd cur n =
     (if mode = ANSI_EFWD then Some (fwd, n)
      else if mode = ANSI_EBACK then Some (0, cur)
      else if mode = ANSI_EFULL then Some (0, n)
      else None)"

definition erase_line :: "int \<Rightarrow> term_t \<Rightarrow> term_t" where
  "erase_line mode t =
     (case erase_range mode (col t) (col t) (win_width (win t)) of None \<Rightarrow> t
      | Some (start_c, end_c) \<Rightarrow>
          fold (\<lambda>c t. setc (row t) c COLOR_GREY_ON_BLACK 0 t) [start_c..end_c - 1] t)"

definition erase_display :: "int \<Rightarrow> term_t \<Rightarrow> term_t" where
  "erase_display mode t =
     (case erase_range mode (row t + 1) (row t) (height (win t)) of None \<Rightarrow> t
      | Some (start_r, end_r) \<Rightarrow> erase_rows start_r end_r (erase_line mode t))"

definition term_setpos :: "int \<Rightarrow> int \<Rightarrow> term_t \<Rightarrow> term_t" where
  "term_setpos r c t = t\<lparr>row := r, col := c\<rparr>"

text \<open>One row of \<^verbatim>\<open>scroll\<close>: the \<^verbatim>\<open>memcpy\<close> of the window's columns from one row to another.\<close>

definition copy_row :: "int \<Rightarrow> int \<Rightarrow> term_t \<Rightarrow> term_t" where
  "copy_row dest src t =
     fold (\<lambda>c t. set_cell (term_ptr t dest 0 + c) (cells (buf t) (term_ptr t src 0 + c)) t)
       [0..win_width (win t) - 1] t"

definition scroll :: "int \<Rightarrow> term_t \<Rightarrow> term_t" where
  "scroll row_ct t =
     (let t1 = fold (\<lambda>r. copy_row r (r + row_ct)) [0..height (win t) - row_ct - 1] t;
          r = max 0 (height (win t) - row_ct);
          t2 = erase_rows r (height (win t)) t1
      in term_setpos (row t2 - row_ct) (col t2) t2)"

primrec grow_up :: "nat \<Rightarrow> term_t \<Rightarrow> nat \<times> term_t" where
  "grow_up 0 t = (0, t)"
| "grow_up (Suc row_ct) t =
     (if start_row (win t) \<noteq> 0 then
        grow_up row_ct (scroll 1
          (t\<lparr>win := (win t)\<lparr>start_row := start_row (win t) - 1, height := height (win t) + 1\<rparr>,
             row := row t + 1\<rparr>))
      else (Suc row_ct, t))"

primrec grow_down :: "nat \<Rightarrow> term_t \<Rightarrow> nat \<times> term_t" where
  "grow_down 0 t = (0, t)"
| "grow_down (Suc row_ct) t =
     (if height (win t) < buf_rows (buf t) then
        grow_down row_ct (t\<lparr>win := (win t)\<lparr>height := height (win t) + 1\<rparr>\<rparr>)
      else (Suc row_ct, t))"

definition overflow :: "term_t \<Rightarrow> term_t" where
  "overflow t =
     (let row_ct = row t - height (win t) + 1 in
      if row_ct \<le> 0 then t
      else case overflow_mode t of
        TERM_OF_CLIP \<Rightarrow> t
      | TERM_OF_SCROLL \<Rightarrow> scroll row_ct t
      | TERM_OF_GROW \<Rightarrow>
          let (n, t) = grow_up (nat row_ct) t;
              (n, t) = grow_down n t
          in if n \<noteq> 0 then scroll (int n) t else t)"

definition move_cursor_into_bounds :: "term_t \<Rightarrow> term_t" where
  "move_cursor_into_bounds t =
     (if overflow_mode t = TERM_OF_CLIP then t
      else let t = (if col t \<ge> win_width (win t) then term_setpos (row t + 1) 0 t else t)
           in if row t \<ge> height (win t) then overflow t else t)"

definition backspace :: "term_t \<Rightarrow> term_t" where
  "backspace t =
     (if row t = 0 \<and> col t = 0 then t
      else
        let t = t\<lparr>col := col t - 1\<rparr>;
            t = (if col t < 0 then t\<lparr>col := win_width (win t) - 1, row := row t - 1\<rparr> else t)
        in setc (row t) (col t) (color t) 0 t)"

definition ansi_pos_param :: "term_t \<Rightarrow> nat \<Rightarrow> int" where
  "ansi_pos_param t i =
     (let param = csi_param (parser t) ! i;
          param = (if param = 0 then 1 else param)
      in sint (param - 1))"

definition execute_ansi_escape :: "term_t \<Rightarrow> term_t" where
  "execute_ansi_escape t =
     (if ap_cmd (parser t) = ANSI_CUP then term_setpos (ansi_pos_param t 0) (ansi_pos_param t 1) t
      else if ap_cmd (parser t) = ANSI_EL then erase_line (sint (csi_param (parser t) ! 0)) t
      else if ap_cmd (parser t) = ANSI_ED then erase_display (sint (csi_param (parser t) ! 0)) t
      else t)"

definition clear_cursor :: "term_t \<Rightarrow> term_t" where
  "clear_cursor t =
     (if cursor_visible t then (setcolor (row t) (col t) (color t) t)\<lparr>cursor_visible := False\<rparr>
      else t)"

definition write_cursor :: "term_t \<Rightarrow> term_t" where
  "write_cursor t =
     (if show_cursor t then
        let t = move_cursor_into_bounds t
        in (setcolor (row t) (col t) (ucast (cursor_color t)) t)\<lparr>cursor_visible := True\<rparr>
      else t)"

definition term_putc :: "int \<Rightarrow> term_t \<Rightarrow> term_t" where
  "term_putc ch t =
     (let t = clear_cursor t;
          (ch, p) = ansi_parse_putc (parser t) ch;
          t = t\<lparr>parser := p\<rparr>
      in if ch = - APS_ESCAPE \<or> ch = - APS_INVALID \<or> ch = - APS_UNIMPLEMENTED then t
         else if ch = - APS_FINAL then execute_ansi_escape t
         else
           let t = move_cursor_into_bounds t;
               t = (if ch = 10 then term_setpos (row t + 1) 0 t
                    else if ch = 13 then term_setpos (row t) 0 t
                    else if ch = 8 then backspace t
                    else (setc (row t) (col t) (color t) ch t)\<lparr>col := col t + 1\<rparr>)
           in write_cursor t)"

partial_function (option) term_puts_loop :: "u32 \<Rightarrow> mem \<Rightarrow> term_t \<Rightarrow> term_t option" where
  "term_puts_loop str m t =
     (if m str \<noteq> 0 then term_puts_loop (str + 1) m (term_putc (schar (m str)) t) else Some t)"

definition term_puts :: "u32 \<Rightarrow> mem \<Rightarrow> term_t \<Rightarrow> term_t option" where
  "term_puts str m t = (if str = 0 then Some t else term_puts_loop str m t)"

primrec term_write_loop :: "nat \<Rightarrow> u32 \<Rightarrow> mem \<Rightarrow> term_t \<Rightarrow> term_t" where
  "term_write_loop 0 b m t = t"
| "term_write_loop (Suc nbyte) b m t = term_write_loop nbyte (b + 1) m (term_putc (schar (m b)) t)"

definition term_write :: "u32 \<Rightarrow> u32 \<Rightarrow> mem \<Rightarrow> term_t \<Rightarrow> term_t" where
  "term_write b nbyte m t = (if b = 0 then t else term_write_loop (unat nbyte) b m t)"

definition term_getwin :: "term_t \<Rightarrow> termwin" where
  "term_getwin t = win t"


section \<open>Formatted output\<close>

definition TPRINTF_BUFSZ :: u32 where "TPRINTF_BUFSZ = 256"

text \<open>\<open>b\<close> is the address of the local buffer.\<close>

definition vtprintf :: "'f fpu \<Rightarrow> u32 \<Rightarrow> u8 list \<Rightarrow> u32 list \<Rightarrow> mem \<Rightarrow> term_t \<Rightarrow> (int \<times> mem \<times> term_t) res" where
  "vtprintf fpu b fmt args m t =
     bindR (vsnprintf fpu b TPRINTF_BUFSZ fmt args m)
       (\<lambda>(ret, m). if ret < 0 then Inr (ret, m, t)
          else case term_puts b m t of None \<Rightarrow> Inl Diverges | Some t \<Rightarrow> Inr (ret, m, t))"

definition tprintf :: "'f fpu \<Rightarrow> u32 \<Rightarrow> u8 list \<Rightarrow> u32 list \<Rightarrow> mem \<Rightarrow> term_t \<Rightarrow> (int \<times> mem \<times> term_t) res" where
  "tprintf fpu b fmt args m t = vtprintf fpu b fmt args m t"

end
