(* ===== verification/TermLemmas.thy ===== *)
theory TermLemmas
  imports Termbuf PrintfLemmas
begin

text \<open>
  What a terminal may touch.  \<open>local\<close> relates two states of a terminal that
  differ at most in the cursor and in cells of the window; \<open>grows\<close> also allows
  the window to grow, as it does in the mode that grows on overflow.  Both are
  preorders, and every operation of \<^verbatim>\<open>termbuf.c\<close> is an instance of one of them.
\<close>

definition win_cells :: "term_t \<Rightarrow> int set" where
  "win_cells t = {term_ptr t r c |r c. is_in_bounds t r c}"

definition win_ok :: "term_t \<Rightarrow> bool" where
  "win_ok t \<longleftrightarrow>
     0 \<le> start_row (win t) \<and> 0 \<le> height (win t) \<and>
     start_row (win t) + height (win t) \<le> buf_rows (buf t) \<and>
     0 \<le> start_col (win t) \<and> 0 \<le> win_width (win t) \<and>
     start_col (win t) + win_width (win t) \<le> buf_cols (buf t)"

definition parser_ok :: "ansi_parse \<Rightarrow> bool" where
  "parser_ok p \<longleftrightarrow> length (csi_param p) = CSI_MAX_PARAM"

definition term_ok :: "term_t \<Rightarrow> bool" where
  "term_ok t \<longleftrightarrow> win_ok t \<and> parser_ok (parser t)"

definition local_to :: "term_t \<Rightarrow> term_t \<Rightarrow> bool" where
  "local_to t t' \<longleftrightarrow>
     win t' = win t \<and> buf_rows (buf t') = buf_rows (buf t) \<and> buf_cols (buf t') = buf_cols (buf t) \<and>
     overflow_mode t' = overflow_mode t \<and> parser t' = parser t \<and> show_cursor t' = show_cursor t \<and>
     color t' = color t \<and>
     (\<forall>i. i \<notin> win_cells t \<longrightarrow> cells (buf t') i = cells (buf t) i)"

lemma local_win:
  assumes "local_to t t'"
  shows "win t' = win t" "term_ptr t' = term_ptr t" "is_in_bounds t' = is_in_bounds t"
    "win_cells t' = win_cells t"
  using assms by (auto simp: local_to_def term_ptr_def is_in_bounds_def win_cells_def fun_eq_iff)

lemma local_refl [simp]: "local_to t t"
  by (simp add: local_to_def)

lemma local_trans [trans]: "local_to t u \<Longrightarrow> local_to u v \<Longrightarrow> local_to t v"
  using local_win(4) [of t u] by (simp add: local_to_def)

lemma local_fold:
  assumes "\<And>x u. x \<in> set xs \<Longrightarrow> local_to t u \<Longrightarrow> local_to u (f x u)"
  shows "local_to t (fold f xs t)"
proof -
  have "local_to t (fold f ys u)" if "set ys \<subseteq> set xs" "local_to t u" for ys u
    using that
  proof (induction ys arbitrary: u)
    case (Cons y ys)
    then have "local_to t (f y u)" using local_trans [OF Cons.prems(2) assms] by simp
    then show ?case using Cons by simp
  qed simp
  then show ?thesis by simp
qed

lemma local_fields [simp]:
  "local_to t (u\<lparr>row := r\<rparr>) = local_to t u" "local_to t (u\<lparr>col := c\<rparr>) = local_to t u"
  "local_to t (u\<lparr>cursor_visible := b\<rparr>) = local_to t u"
  "local_to t (term_setpos r c u) = local_to t u"
  by (simp_all add: local_to_def term_setpos_def)

lemma in_win: "is_in_bounds t r c \<Longrightarrow> term_ptr t r c \<in> win_cells t"
  by (auto simp: win_cells_def)

lemma local_set_cell: "i \<in> win_cells t \<Longrightarrow> local_to t (set_cell i v t)"
  by (auto simp: local_to_def set_cell_def)

lemma local_setcc [simp]: "local_to t (setcc r c v t)"
  by (simp add: setcc_def local_set_cell in_win)

lemma local_setc [simp]: "local_to t (setc r c clr ch t)"
  by (simp add: setc_def)

lemma local_setcolor [simp]: "local_to t (setcolor r c clr t)"
  by (simp add: setcolor_def Let_def local_set_cell in_win)

lemma local_erase_rows [simp]: "local_to t (erase_rows a b t)"
  unfolding erase_rows_def by (intro local_fold) simp

lemma local_erase_line [simp]: "local_to t (erase_line mode t)"
  unfolding erase_line_def by (auto intro: local_fold split: option.split)

lemma local_erase_display [simp]: "local_to t (erase_display mode t)"
  unfolding erase_display_def
  by (auto intro: local_trans [OF local_erase_line local_erase_rows] split: option.split)

lemma local_copy_row:
  assumes "0 \<le> dest" "dest < height (win t)"
  shows "local_to t (copy_row dest src t)"
  unfolding copy_row_def
proof (rule local_fold)
  fix c u assume c: "c \<in> set [0..win_width (win t) - 1]" and u: "local_to t u"
  have "term_ptr u dest 0 + c = term_ptr u dest c" by (simp add: term_ptr_def)
  moreover have "is_in_bounds u dest c"
    using c assms local_win [OF u] by (auto simp: is_in_bounds_def)
  ultimately show "local_to u (set_cell (term_ptr u dest 0 + c) (cells (buf u) (term_ptr u src 0 + c)) u)"
    by (simp add: local_set_cell in_win)
qed

lemma local_scroll:
  assumes "0 \<le> k"
  shows "local_to t (scroll k t)"
proof -
  have "local_to t (fold (\<lambda>r. copy_row r (r + k)) [0..height (win t) - k - 1] t)"
    by (rule local_fold, rule local_copy_row) (use assms in \<open>auto simp: local_win\<close>)
  then show ?thesis
    unfolding scroll_def Let_def local_fields(4) by (rule local_trans [OF _ local_erase_rows])
qed

lemma local_backspace [simp]: "local_to t (backspace t)"
proof -
  have *: "local_to t u" if "win u = win t" "buf u = buf t" "overflow_mode u = overflow_mode t"
      "parser u = parser t" "show_cursor u = show_cursor t" "color u = color t" for u
    using that by (simp add: local_to_def)
  show ?thesis unfolding backspace_def Let_def by (auto intro!: local_trans [OF * local_setc])
qed

lemma local_clear_cursor [simp]: "local_to t (clear_cursor t)"
  by (simp add: clear_cursor_def)


section \<open>Windows that grow\<close>

definition grows :: "term_t \<Rightarrow> term_t \<Rightarrow> bool" where
  "grows t t' \<longleftrightarrow>
     buf_rows (buf t') = buf_rows (buf t) \<and> buf_cols (buf t') = buf_cols (buf t) \<and>
     overflow_mode t' = overflow_mode t \<and> parser t' = parser t \<and>
     win_cells t \<subseteq> win_cells t' \<and> (win_ok t \<longrightarrow> win_ok t') \<and>
     (overflow_mode t \<noteq> TERM_OF_GROW \<longrightarrow> win t' = win t) \<and>
     (\<forall>i. i \<notin> win_cells t' \<longrightarrow> cells (buf t') i = cells (buf t) i)"

lemma local_grows:
  assumes "local_to t t'"
  shows "grows t t'"
proof -
  have "win_cells t' = win_cells t" by (rule local_win(4) [OF assms])
  with assms show ?thesis by (auto simp: grows_def local_to_def win_ok_def)
qed

lemma grows_refl [simp]: "grows t t"
  by (simp add: grows_def)

lemma grows_trans [trans]:
  assumes "grows t u" "grows u v"
  shows "grows t v"
proof -
  have "cells (buf v) i = cells (buf t) i" if "i \<notin> win_cells v" for i
    using assms that by (auto simp: grows_def)
  with assms show ?thesis by (simp add: grows_def) blast
qed

lemma grows_up:
  assumes "start_row (win t) \<noteq> 0" "overflow_mode t = TERM_OF_GROW"
  shows "grows t (t\<lparr>win := (win t)\<lparr>start_row := start_row (win t) - 1, height := height (win t) + 1\<rparr>,
             row := row t + 1\<rparr>)" (is "grows t ?u")
proof -
  have "win_cells t \<subseteq> win_cells ?u"
  proof
    fix i assume "i \<in> win_cells t"
    then obtain r c where i: "is_in_bounds t r c" "i = term_ptr t r c" by (auto simp: win_cells_def)
    then have "is_in_bounds ?u (r + 1) c" "i = term_ptr ?u (r + 1) c"
      by (simp_all add: is_in_bounds_def term_ptr_def)
    then show "i \<in> win_cells ?u" by (simp add: in_win)
  qed
  then show ?thesis using assms by (simp add: grows_def win_ok_def)
qed

lemma grows_down:
  assumes "start_row (win t) = 0" "height (win t) < buf_rows (buf t)" "overflow_mode t = TERM_OF_GROW"
  shows "grows t (t\<lparr>win := (win t)\<lparr>height := height (win t) + 1\<rparr>\<rparr>)" (is "grows t ?u")
proof -
  have "win_cells t \<subseteq> win_cells ?u"
  proof
    fix i assume "i \<in> win_cells t"
    then obtain r c where i: "is_in_bounds t r c" "i = term_ptr t r c" by (auto simp: win_cells_def)
    then have "is_in_bounds ?u r c" "i = term_ptr ?u r c"
      by (simp_all add: is_in_bounds_def term_ptr_def)
    then show "i \<in> win_cells ?u" by (simp add: in_win)
  qed
  then show ?thesis using assms by (simp add: grows_def win_ok_def)
qed

lemma grow_up_grows:
  assumes "overflow_mode t = TERM_OF_GROW"
  shows "grows t (snd (grow_up n t)) \<and>
    (fst (grow_up n t) \<noteq> 0 \<longrightarrow> start_row (win (snd (grow_up n t))) = 0)"
  using assms
proof (induction n arbitrary: t)
  case (Suc n)
  show ?case
  proof (cases "start_row (win t) = 0")
    case False
    define u where "u = t\<lparr>win := (win t)\<lparr>start_row := start_row (win t) - 1, height := height (win t) + 1\<rparr>,
             row := row t + 1\<rparr>"
    have g: "grows t (scroll 1 u)"
      using grows_up [OF False Suc.prems] local_grows [OF local_scroll [of 1 u]]
      unfolding u_def [symmetric] by (auto intro: grows_trans)
    then have "overflow_mode (scroll 1 u) = TERM_OF_GROW" using Suc.prems by (simp add: grows_def)
    from Suc.IH [OF this] g show ?thesis using False by (auto simp: u_def [symmetric] intro: grows_trans)
  qed simp
qed simp

lemma grow_down_grows:
  assumes "overflow_mode t = TERM_OF_GROW" "start_row (win t) = 0"
  shows "grows t (snd (grow_down n t))"
  using assms
proof (induction n arbitrary: t)
  case (Suc n)
  show ?case
  proof (cases "height (win t) < buf_rows (buf t)")
    case True
    define u where "u = t\<lparr>win := (win t)\<lparr>height := height (win t) + 1\<rparr>\<rparr>"
    have g: "grows t u" unfolding u_def by (rule grows_down) (use True Suc.prems in simp_all)
    have "grows u (snd (grow_down n u))" by (rule Suc.IH) (use Suc.prems in \<open>simp_all add: u_def\<close>)
    with g show ?thesis using True by (simp add: grows_trans flip: u_def)
  qed simp
qed simp

lemma grows_overflow: "grows t (overflow t)"
proof (cases "row t - height (win t) + 1 \<le> 0")
  case False
  show ?thesis
  proof (cases "overflow_mode t")
    case TERM_OF_GROW
    obtain n u where u: "grow_up (nat (row t - height (win t) + 1)) t = (n, u)" by force
    obtain k v where v: "grow_down n u = (k, v)" by force
    have gu: "grows t u" "n \<noteq> 0 \<longrightarrow> start_row (win u) = 0"
      using grow_up_grows [OF TERM_OF_GROW, of "nat (row t - height (win t) + 1)"] u by simp_all
    then have "overflow_mode u = TERM_OF_GROW" using TERM_OF_GROW by (simp add: grows_def)
    with gu(2) v grow_down_grows [of u n] have "grows u v" by (cases n) auto
    then have "grows t v" by (rule grows_trans [OF gu(1)])
    moreover have "grows v (scroll (int k) v)" by (rule local_grows, rule local_scroll) simp
    ultimately show ?thesis
      using False TERM_OF_GROW u v by (auto simp: overflow_def Let_def intro: grows_trans)
  next
    case TERM_OF_SCROLL
    have "grows t (scroll (row t - height (win t) + 1) t)"
      by (rule local_grows, rule local_scroll) (use False in simp)
    then show ?thesis using False TERM_OF_SCROLL by (simp add: overflow_def Let_def)
  qed (use False in \<open>simp add: overflow_def Let_def\<close>)
qed (simp add: overflow_def)

lemma grows_into_bounds: "grows t (move_cursor_into_bounds t)"
proof -
  define u where "u = (if col t \<ge> win_width (win t) then term_setpos (row t + 1) 0 t else t)"
  have "grows t u" by (rule local_grows) (simp add: u_def)
  then show ?thesis
    using grows_trans [OF _ grows_overflow, of t u] by (auto simp: move_cursor_into_bounds_def Let_def u_def)
qed

lemma grows_write_cursor: "grows t (write_cursor t)"
proof (cases "show_cursor t")
  case True
  then show ?thesis
    by (auto simp: write_cursor_def Let_def intro: grows_trans [OF grows_into_bounds local_grows])
qed (simp add: write_cursor_def)


section \<open>One character\<close>

lemma parser_ok_putc: "parser_ok p \<Longrightarrow> parser_ok (snd (ansi_parse_putc p ch))"
  by (cases "ap_state p")
    (auto simp: ansi_parse_putc_def parse_intermediate_def parser_ok_def start_esc_def start_csi_def
      parameter_byte_def intermediate_byte_def final_byte_def Let_def)

lemma local_execute [simp]: "local_to t (execute_ansi_escape t)"
  by (simp add: execute_ansi_escape_def)

text \<open>The part of \<^verbatim>\<open>term_putc\<close> behind the parser.\<close>

definition show_char :: "int \<Rightarrow> term_t \<Rightarrow> term_t" where
  "show_char ch t =
     (if ch = - APS_ESCAPE \<or> ch = - APS_INVALID \<or> ch = - APS_UNIMPLEMENTED then t
      else if ch = - APS_FINAL then execute_ansi_escape t
      else
        let t = move_cursor_into_bounds t;
            t = (if ch = 10 then term_setpos (row t + 1) 0 t
                 else if ch = 13 then term_setpos (row t) 0 t
                 else if ch = 8 then backspace t
                 else (setc (row t) (col t) (color t) ch t)\<lparr>col := col t + 1\<rparr>)
        in write_cursor t)"

lemma term_putc_show:
  "term_putc ch t =
     (let (ch', p) = ansi_parse_putc (parser (clear_cursor t)) ch
      in show_char ch' ((clear_cursor t)\<lparr>parser := p\<rparr>))"
  by (simp add: term_putc_def show_char_def Let_def split: prod.split)

lemma grows_show_char: "grows t (show_char ch t)"
proof -
  define u where "u = move_cursor_into_bounds t"
  define v where "v = (if ch = 10 then term_setpos (row u + 1) 0 u
      else if ch = 13 then term_setpos (row u) 0 u
      else if ch = 8 then backspace u
      else (setc (row u) (col u) (color u) ch u)\<lparr>col := col u + 1\<rparr>)"
  have "grows t u" unfolding u_def by (rule grows_into_bounds)
  also have "grows u v" by (rule local_grows) (simp add: v_def)
  also have "grows v (write_cursor v)" by (rule grows_write_cursor)
  finally show ?thesis
    by (auto simp: show_char_def Let_def u_def v_def intro: local_grows)
qed

lemma term_putc_grows:
  "grows (t\<lparr>parser := snd (ansi_parse_putc (parser t) ch)\<rparr>) (term_putc ch t)"
proof -
  define p where "p = snd (ansi_parse_putc (parser t) ch)"
  have l: "local_to t (clear_cursor t)" by simp
  then have pa: "parser (clear_cursor t) = parser t" by (simp add: local_to_def)
  have "win_cells (t\<lparr>parser := p\<rparr>) = win_cells t"
    by (simp add: win_cells_def term_ptr_def is_in_bounds_def)
  with l have "local_to (t\<lparr>parser := p\<rparr>) ((clear_cursor t)\<lparr>parser := p\<rparr>)"
    by (simp add: local_to_def)
  then have "grows (t\<lparr>parser := p\<rparr>) ((clear_cursor t)\<lparr>parser := p\<rparr>)" by (rule local_grows)
  also have "grows ((clear_cursor t)\<lparr>parser := p\<rparr>) (term_putc ch t)"
    using grows_show_char by (simp add: term_putc_show pa p_def split: prod.split)
  finally show ?thesis by (simp add: p_def)
qed

lemma win_cells_buffer:
  assumes "win_ok t" "i \<in> win_cells t"
  shows "0 \<le> i \<and> i < buf_rows (buf t) * buf_cols (buf t)"
proof -
  obtain r c where i: "is_in_bounds t r c" "i = term_ptr t r c" using assms(2) by (auto simp: win_cells_def)
  define R where "R = start_row (win t) + r"
  define C where "C = start_col (win t) + c"
  have "0 \<le> R" "R + 1 \<le> buf_rows (buf t)" and C: "0 \<le> C" "C < buf_cols (buf t)"
    using i(1) assms(1) by (auto simp: is_in_bounds_def win_ok_def R_def C_def)
  then have "0 \<le> R * buf_cols (buf t)" "(R + 1) * buf_cols (buf t) \<le> buf_rows (buf t) * buf_cols (buf t)"
    by (auto intro: mult_right_mono)
  moreover have "i = R * buf_cols (buf t) + C" by (simp add: i(2) term_ptr_def R_def C_def)
  ultimately show ?thesis using C by (simp add: distrib_right)
qed

end
