(* ===== verification/TermProps.thy ===== *)
theory TermProps
  imports TermLemmas
begin

text \<open>
  The properties of the screen windows: they stay inside their window, they
  show the text they are given, and a cursor position printed with \<^verbatim>\<open>tprintf\<close> is
  read back by the escape sequence parser.
\<close>

section \<open>Lemmas on plain text and escape sequences\<close>









lemma term_puts_fold:
  assumes "cstr m str bs" "str \<noteq> 0"
  shows "term_puts str m t = Some (fold term_putc (map schar bs) t)"
proof -
  have "term_puts_loop str m t = Some (fold term_putc (map schar bs) t)"
    using assms(1) by (induction bs arbitrary: str t) (subst term_puts_loop.simps; simp)+
  then show ?thesis using assms(2) by (simp add: term_puts_def)
qed


section \<open>Windows\<close>


definition vga_term :: "termwin_overflow \<Rightarrow> term_t" where
  "vga_term mode = \<lparr>buf = \<lparr>buf_rows = 25, buf_cols = 80, cells = (\<lambda>_. 0)\<rparr>,
     win = \<lparr>start_row = 5, height = 2, start_col = 10, win_width = 20\<rparr>, overflow_mode = mode,
     row = 0, col = 0, color = COLOR_GREY_ON_BLACK, show_cursor = False, cursor_visible = False,
     cursor_color = 0x70,
     parser = \<lparr>ap_state = AIS_READY, csi_param = [0, 0, 0], param_num = 0, ap_cmd = 0\<rparr>\<rparr>"






section \<open>Cursor positions\<close>

definition ANSIF_CUP :: "u8 list" where
  "ANSIF_CUP = [27, 91, 37, 100, 59, 37, 100, 72]"

lemma cup_specs:
  "parse_spec ANSIF_CUP = (Some [37, 100, 59, 37, 100, 72], zero_spec\<lparr>start := ANSIF_CUP, len := 2\<rparr>)"
  "parse_spec [37, 100, 59, 37, 100, 72] = (Some [59, 37, 100, 72],
     zero_spec\<lparr>start := [37, 100, 59, 37, 100, 72], len := 2, width := WP_UNSPECIFIED,
       precision := WP_UNSPECIFIED, specifier := 100\<rparr>)"
  "parse_spec [59, 37, 100, 72] = (Some [37, 100, 72], zero_spec\<lparr>start := [59, 37, 100, 72], len := 1\<rparr>)"
  "parse_spec [37, 100, 72] = (Some [72], zero_spec\<lparr>start := [37, 100, 72], len := 2,
     width := WP_UNSPECIFIED, precision := WP_UNSPECIFIED, specifier := 100\<rparr>)"
  "parse_spec [72] = (Some [], zero_spec\<lparr>start := [72], len := 1\<rparr>)"
  by (simp_all add: ANSIF_CUP_def parse_spec_def deref_def parse_width_precision_def parse_precision_def
      parse_lenmod_def LENMOD_MAP_def Let_def zero_spec_def isdigit_byte)

lemma format_lit:
  assumes "parse_spec fmt = (Some rest, zero_spec\<lparr>start := fmt, len := n\<rparr>)" "deref fmt \<noteq> 0"
    and "format_text m rest args = Inr (None, ts)"
  shows "format_text m fmt args = Inr (None, take (unat n) (nonzero fmt) @ ts)"
  using assms
  by (subst format_text.simps) (simp add: pull_width_def text_one_def zero_spec_def WP_UNSPECIFIED_def WP_STAR_def)

lemma format_d:
  assumes "parse_spec fmt = (Some rest, zero_spec\<lparr>start := fmt, len := 2, width := WP_UNSPECIFIED,
      precision := WP_UNSPECIFIED, specifier := 100\<rparr>)" "deref fmt \<noteq> 0"
    and "format_text m rest args = Inr (None, us)"
    and "text_one m (d_spec fmt) (v # args) = Inr ((None, args), ts)"
  shows "format_text m fmt (v # args) = Inr (None, ts @ us)"
proof -
  have "pull_width (snd (parse_spec fmt)) (v # args) = Inr (d_spec fmt, v # args)"
    by (simp add: assms(1) pull_width_def zero_spec_def WP_UNSPECIFIED_def WP_STAR_def d_spec_def)
  then show ?thesis using assms by (subst format_text.simps) simp
qed

lemma cup_text:
  "\<exists>ts us. decimal_text (sint r) ts \<and> length ts \<le> 11 \<and> decimal_text (sint c) us \<and> length us \<le> 11 \<and>
     format_text m ANSIF_CUP [r, c] = Inr (None, [27, 91] @ ts @ [59] @ us @ [72])"
proof -
  obtain ts where ts: "decimal_text (sint r) ts" "length ts \<le> 11"
    "text_one m (d_spec [37, 100, 59, 37, 100, 72]) [r, c] = Inr ((None, [c]), ts)" using text_one_d by blast
  obtain us where us: "decimal_text (sint c) us" "length us \<le> 11"
    "text_one m (d_spec [37, 100, 72]) [c] = Inr ((None, []), us)" using text_one_d by blast
  have "format_text m [] [] = Inr (None, [])" by (simp add: format_text.simps deref_def)
  from format_lit [OF cup_specs(5) _ this] have "format_text m [72] [] = Inr (None, [72])"
    by (simp add: deref_def nonzero_def)
  from format_d [OF cup_specs(4) _ this us(3)] have "format_text m [37, 100, 72] [c] = Inr (None, us @ [72])"
    by (simp add: deref_def)
  from format_lit [OF cup_specs(3) _ this]
  have "format_text m [59, 37, 100, 72] [c] = Inr (None, [59] @ us @ [72])"
    by (simp add: deref_def nonzero_def)
  from format_d [OF cup_specs(2) _ this ts(3)]
  have "format_text m [37, 100, 59, 37, 100, 72] [r, c] = Inr (None, ts @ [59] @ us @ [72])"
    by (simp add: deref_def)
  from format_lit [OF cup_specs(1) _ this]
  have "format_text m ANSIF_CUP [r, c] = Inr (None, [27, 91] @ ts @ [59] @ us @ [72])"
    by (simp add: deref_def nonzero_def ANSIF_CUP_def)
  with ts us show ?thesis by blast
qed

text \<open>Characters the parser keeps for itself change only the parser.\<close>

lemma term_putc_escape:
  assumes "\<not> cursor_visible t" "ansi_parse_putc (parser t) ch = (- APS_ESCAPE, p)"
  shows "term_putc ch t = t\<lparr>parser := p\<rparr>"
  using assms by (simp add: term_putc_show clear_cursor_def show_char_def)

lemma digit_step:
  assumes "\<not> cursor_visible t" "ap_state (parser t) = AIS_PARAM" "param_num (parser t) < 3" "d < 10"
  shows "term_putc (48 + int d) t = t\<lparr>parser := (parser t)\<lparr>csi_param :=
    (csi_param (parser t))[param_num (parser t) := csi_param (parser t) ! param_num (parser t) * 10 + of_nat d]\<rparr>\<rparr>"
proof (rule term_putc_escape [OF assms(1)])
  have "48 \<le> 48 + int d" "48 + int d \<le> 57" "48 + int d \<le> 63" using assms(4) by simp_all
  then show "ansi_parse_putc (parser t) (48 + int d) = (- APS_ESCAPE, (parser t)\<lparr>csi_param :=
      (csi_param (parser t))[param_num (parser t) := csi_param (parser t) ! param_num (parser t) * 10 + of_nat d]\<rparr>)"
    using assms(2,3) by (simp add: ansi_parse_putc_def parameter_byte_def CSI_MAX_PARAM_def Let_def)
qed

lemma fold_digits:
  assumes "\<not> cursor_visible t" "ap_state (parser t) = AIS_PARAM" "param_num (parser t) = i" "i < 3"
    "length (csi_param (parser t)) = 3" "\<forall>v\<in>set vs. v < 10"
  shows "fold term_putc (map (\<lambda>d. 48 + int d) vs) t = t\<lparr>parser := (parser t)\<lparr>csi_param :=
    (csi_param (parser t))[i := foldl (\<lambda>a v. a * 10 + of_nat v) (csi_param (parser t) ! i) vs]\<rparr>\<rparr>"
  using assms
proof (induction vs arbitrary: t)
  case (Cons d vs)
  define u where "u = t\<lparr>parser := (parser t)\<lparr>csi_param :=
    (csi_param (parser t))[i := csi_param (parser t) ! i * 10 + of_nat d]\<rparr>\<rparr>"
  have "term_putc (48 + int d) t = u"
    using digit_step [of t d] Cons.prems by (simp add: u_def)
  moreover have "fold term_putc (map (\<lambda>d. 48 + int d) vs) u = u\<lparr>parser := (parser u)\<lparr>csi_param :=
    (csi_param (parser u))[i := foldl (\<lambda>a v. a * 10 + of_nat v) (csi_param (parser u) ! i) vs]\<rparr>\<rparr>"
    by (rule Cons.IH) (use Cons.prems in \<open>simp_all add: u_def\<close>)
  ultimately show ?case using Cons.prems(4,5) by (simp add: u_def)
qed simp

lemma foldl_word: "foldl (\<lambda>a v. a * 10 + of_nat v) (of_nat k :: u32) vs = of_nat (foldl (\<lambda>n v. n * 10 + v) k vs)"
proof (induction vs arbitrary: k)
  case (Cons v vs)
  have "of_nat k * 10 + of_nat v = (of_nat (k * 10 + v) :: u32)" by simp
  then show ?case using Cons.IH [of "k * 10 + v"] by simp
qed simp

lemma decimal_digits:
  assumes "decimal_text n ts" "1 \<le> n"
  shows "\<exists>vs. map schar ts = map (\<lambda>d. 48 + int d) vs \<and> (\<forall>v\<in>set vs. v < 10) \<and>
    foldl (\<lambda>n v. n * 10 + v) 0 vs = nat n"
proof -
  obtain vs where vs: "digits_of 10 (nat \<bar>n\<bar>) vs"
    "ts = (if n < 0 then [45] else []) @ (if vs = [] then [48] else map (\<lambda>d. of_nat (48 + d)) vs)"
    using assms(1) by (auto simp: decimal_text_def)
  have d: "\<forall>v\<in>set vs. v < 10" "foldl (\<lambda>n v. n * 10 + v) 0 vs = nat n"
    using vs(1) assms(2) by (auto simp: digits_of_def)
  then have "vs \<noteq> []" using assms(2) by auto
  then have "ts = map (\<lambda>d. of_nat (48 + d)) vs" using vs(2) assms(2) by simp
  moreover have "schar (of_nat (48 + v)) = 48 + int v" if "v < 10" for v
  proof -
    have "v \<in> {0, 1, 2, 3, 4, 5, 6, 7, 8, 9}" using that by auto
    then show ?thesis by (auto simp: schar_def)
  qed
  ultimately have "map schar ts = map (\<lambda>d. 48 + int d) vs" using d(1) by auto
  with d show ?thesis by blast
qed

lemma pos_param:
  fixes v :: u32
  assumes "1 \<le> sint v"
  shows "sint ((if v = 0 then 1 else v) - 1) = sint v - 1"
proof -
  have nz: "v \<noteq> 0" using assms by auto
  define z where "z = sint v - 1"
  have "- 2147483648 \<le> z" "z < 2147483648" using assms sint_lt [of v] by (simp_all add: z_def)
  then have "sint (word_of_int z :: u32) = z" by (simp add: signed_of_int signed_take_bit_int_eq_self)
  moreover have "v - 1 = word_of_int z" by (simp add: z_def)
  ultimately show ?thesis using nz by (simp only: if_False z_def)
qed

text \<open>The whole sequence: escape, bracket, row, semicolon, column, final letter.\<close>

lemma cup_sequence:
  fixes r c :: u32
  assumes "\<not> cursor_visible t" "ap_state (parser t) = AIS_READY"
    and "decimal_text (sint r) ts" "1 \<le> sint r" "decimal_text (sint c) us" "1 \<le> sint c"
  shows "\<exists>p. fold term_putc (map schar ([27, 91] @ ts @ [59] @ us @ [72])) t =
    t\<lparr>row := sint r - 1, col := sint c - 1, parser := p\<rparr> \<and> ap_state p = AIS_READY"
proof -
  obtain vs where vs: "map schar ts = map (\<lambda>d. 48 + int d) vs" "\<forall>v\<in>set vs. v < 10"
    "foldl (\<lambda>n v. n * 10 + v) 0 vs = nat (sint r)" using decimal_digits [OF assms(3,4)] by blast
  obtain ws where ws: "map schar us = map (\<lambda>d. 48 + int d) ws" "\<forall>v\<in>set ws. v < 10"
    "foldl (\<lambda>n v. n * 10 + v) 0 ws = nat (sint c)" using decimal_digits [OF assms(5,6)] by blast
  define p1 where "p1 = (parser t)\<lparr>ap_state := AIS_PARAM, csi_param := [0, 0, 0], param_num := 0, ap_cmd := 0\<rparr>"
  have w: "foldl (\<lambda>a v. a * 10 + of_nat v) (0 :: u32) vs = r" "foldl (\<lambda>a v. a * 10 + of_nat v) (0 :: u32) ws = c"
    using foldl_word [of 0 vs] foldl_word [of 0 ws] vs(3) ws(3) assms(4,6) by simp_all
  have 1: "term_putc 27 t = t\<lparr>parser := start_esc (parser t)\<rparr>"
    by (rule term_putc_escape) (use assms(1,2) in \<open>simp_all add: ansi_parse_putc_def ANSI_ESC_def\<close>)
  have 2: "term_putc 91 (t\<lparr>parser := start_esc (parser t)\<rparr>) = t\<lparr>parser := p1\<rparr>"
    by (subst term_putc_escape [where p = p1]) (use assms(1) in \<open>simp_all add: ansi_parse_putc_def start_esc_def
        start_csi_def ANSI_CSI_def p1_def CSI_MAX_PARAM_def numeral_3_eq_3\<close>)
  define p2 where "p2 = p1\<lparr>csi_param := [r, 0, 0]\<rparr>"
  have 3: "fold term_putc (map schar ts) (t\<lparr>parser := p1\<rparr>) = t\<lparr>parser := p2\<rparr>"
    unfolding vs(1) by (subst fold_digits [where i = 0]) (use assms(1) vs(2) w(1) in \<open>simp_all add: p1_def p2_def\<close>)
  define p3 where "p3 = p2\<lparr>param_num := 1\<rparr>"
  have 4: "term_putc 59 (t\<lparr>parser := p2\<rparr>) = t\<lparr>parser := p3\<rparr>"
    by (subst term_putc_escape [where p = p3]) (use assms(1) in \<open>simp_all add: ansi_parse_putc_def p1_def p2_def p3_def
        parameter_byte_def\<close>)
  define p4 where "p4 = p3\<lparr>csi_param := [r, c, 0]\<rparr>"
  have 5: "fold term_putc (map schar us) (t\<lparr>parser := p3\<rparr>) = t\<lparr>parser := p4\<rparr>"
    unfolding ws(1) by (subst fold_digits [where i = 1])
      (use assms(1) ws(2) w(2) in \<open>simp_all add: p1_def p2_def p3_def p4_def\<close>)
  define p5 where "p5 = p4\<lparr>ap_state := AIS_READY, ap_cmd := 72\<rparr>"
  have a: "ansi_parse_putc p4 72 = (- APS_FINAL, p5)"
    by (simp add: ansi_parse_putc_def p1_def p2_def p3_def p4_def p5_def parse_intermediate_def final_byte_def)
  have "execute_ansi_escape (t\<lparr>parser := p5\<rparr>) = t\<lparr>row := sint r - 1, col := sint c - 1, parser := p5\<rparr>"
    using pos_param [OF assms(4)] pos_param [OF assms(6)]
    by (simp add: execute_ansi_escape_def ANSI_CUP_def term_setpos_def ansi_pos_param_def Let_def p5_def p4_def)
  then have "term_putc 72 (t\<lparr>parser := p4\<rparr>) = t\<lparr>row := sint r - 1, col := sint c - 1, parser := p5\<rparr>"
    using assms(1) a by (simp add: term_putc_show clear_cursor_def show_char_def ansi_defs)
  then have "fold term_putc (map schar ([27, 91] @ ts @ [59] @ us @ [72])) t =
      t\<lparr>row := sint r - 1, col := sint c - 1, parser := p5\<rparr>"
    by (simp add: 1 2 3 4 5 schar_def del: map_map)
  then show ?thesis by (intro exI [of _ p5]) (simp add: p5_def)
qed

text \<open>
  C14: Printing and parsing a cursor position. \<^verbatim>\<open>tprintf(t, ANSIF_CUP, r, c)\<close>
  formats the row and the column as decimal numbers into an escape sequence,
  sends it through the parser and leaves the cursor at row \<open>r - 1\<close> and column
  \<open>c - 1\<close>, for all positive 32-bit numbers; the screen is unchanged and the
  parser is ready for the next character.
\<close>

theorem tprintf_cursor_position:
  fixes r c :: u32
  assumes "b \<noteq> 0" "unat b + 256 < 4294967296"
    and "\<not> cursor_visible t" "ap_state (parser t) = AIS_READY" "1 \<le> sint r" "1 \<le> sint c"
  shows "\<exists>n m' p. tprintf fpu b ANSIF_CUP [r, c] m t =
      Inr (n, m', t\<lparr>row := sint r - 1, col := sint c - 1, parser := p\<rparr>) \<and> ap_state p = AIS_READY"
proof -
  obtain ts us where ts: "decimal_text (sint r) ts" "length ts \<le> 11" and us: "decimal_text (sint c) us" "length us \<le> 11"
    and f: "format_text m ANSIF_CUP [r, c] = Inr (None, [27, 91] @ ts @ [59] @ us @ [72])"
    using cup_text by blast
  define xs where "xs = [27, 91] @ ts @ [59] @ us @ [72]"
  define m' where "m' = store_bytes b (xs @ [0]) m"
  have len: "length xs \<le> 26" using ts us by (simp add: xs_def)
  have nz: "0 \<notin> set xs" using decimal_text_nonzero ts(1) us(1) by (auto simp: xs_def)
  have "vsnprintf fpu b 256 ANSIF_CUP [r, c] m = Inr (int (length xs), printed b 256 xs m)"
    using vsnprintf_text [OF assms(1) _ _ _ _ f, of 256 fpu] assms(2) len by (simp add: xs_def ANSIF_CUP_def)
  also have "printed b 256 xs m = m'" using len by (simp add: printed_def m'_def)
  finally have v: "vsnprintf fpu b 256 ANSIF_CUP [r, c] m = Inr (int (length xs), m')" .
  obtain p where p: "fold term_putc (map schar xs) t = t\<lparr>row := sint r - 1, col := sint c - 1, parser := p\<rparr>"
    "ap_state p = AIS_READY"
    using cup_sequence [OF assms(3,4) ts(1) assms(5) us(1) assms(6)] by (auto simp: xs_def)
  have "cstr m' b xs" unfolding m'_def by (rule cstr_stored) (use nz len in simp_all)
  then have "term_puts b m' t = Some (t\<lparr>row := sint r - 1, col := sint c - 1, parser := p\<rparr>)"
    using term_puts_fold [OF _ assms(1)] p(1) by simp
  with v p(2) show ?thesis by (auto simp: tprintf_def vtprintf_def TPRINTF_BUFSZ_def bindR_def)
qed

theorem tprintf_cursor_position_witness:
  "\<exists>n m' p. tprintf no_fpu 0x1000 ANSIF_CUP [12, 40] (\<lambda>_. 0) (vga_term TERM_OF_CLIP) =
      Inr (n, m', (vga_term TERM_OF_CLIP)\<lparr>row := 11, col := 39, parser := p\<rparr>) \<and> ap_state p = AIS_READY"
  using tprintf_cursor_position [of "0x1000" "vga_term TERM_OF_CLIP" 12 40 no_fpu "\<lambda>_. 0"]
  by (simp add: vga_term_def)

text \<open>
  C37: An escape character that is not followed by an opening bracket
  silences the terminal: the parser stays in its escape state, and every
  character up to the next opening bracket, newlines included, is dropped.
\<close>

theorem lone_escape_silences:
  assumes "\<not> cursor_visible t" "ap_state (parser t) = AIS_READY" "ANSI_CSI \<notin> set chs"
  shows "fold term_putc (ANSI_ESC # chs) t = t\<lparr>parser := start_esc (parser t)\<rparr>"
proof -
  define u where "u = t\<lparr>parser := start_esc (parser t)\<rparr>"
  have first: "term_putc ANSI_ESC t = u"
    unfolding u_def by (rule term_putc_escape) (use assms(1,2) in \<open>simp_all add: ansi_parse_putc_def\<close>)
  have "term_putc ch u = u" if "ch \<noteq> ANSI_CSI" for ch
    using assms(1) that
    by (simp add: term_putc_show clear_cursor_def u_def ansi_parse_putc_def start_esc_def show_char_def)
  then have "fold term_putc chs u = u" using assms(3) by (induction chs) auto
  then show ?thesis using first by (simp add: u_def)
qed

theorem lone_escape_silences_witness:
  "fold term_putc [27, 99, 104, 105, 10] (vga_term TERM_OF_SCROLL) =
     (vga_term TERM_OF_SCROLL)\<lparr>parser := start_esc (parser (vga_term TERM_OF_SCROLL))\<rparr>"
  using lone_escape_silences [of "vga_term TERM_OF_SCROLL" "[99, 104, 105, 10]"]
  by (simp add: ANSI_CSI_def ANSI_ESC_def vga_term_def)

end
