(* ===== verification/Sync.thy ===== *)
theory Sync
  imports Prelude
begin

text \<open>
  Kernel synchronisation, \<^verbatim>\<open>kernel/sync.c\<close>: spinlocks, blocking locks,
  condition variables, semaphores and barriers, in the three implementations
  the source contains.

  A timer interrupt may suspend a kernel thread between any two accesses to
  shared memory, so a call of one of these functions is not one state change
  but a sequence of them.  Each C function is therefore a definition that
  yields the list of its statements; a statement is one atomic action, and a
  thread is the list of statements it still has to execute.  The statements
  carry their expressions and assignments as HOL functions on the store.

  \<^item> \<open>exec1\<close> executes the first statement of a thread.  \<open>block\<close> and \<open>unblock\<close>
    (\<^verbatim>\<open>scheduler.c\<close>) run with interrupts disabled from their first to their
    last statement, so each is one action on the wait queue; the theory
    Waitq shows that the linked wait queues are first-in first-out lists.
  \<^item> \<open>sys_step\<close> lets any thread that is neither blocked nor held off by a
    nointerrupt section of another thread execute one action; \<open>run\<close> executes
    a given schedule.
\<close>


section \<open>The store\<close>

type_synonym tid = nat

type_synonym ref = int

text \<open>
  The objects are named by numbers.  A spinlock is a variable of its own or
  the \<^verbatim>\<open>inner_lock\<close> of a lock, a condition variable or a semaphore; a wait
  queue is the \<^verbatim>\<open>wait_queue\<close> field of one of them.
\<close>

datatype spin_ref = SpinVar ref | LockInner ref | CondInner ref | SemInner ref

datatype queue_ref = LockQueue ref | CondQueue ref | SemQueue ref

record spinlock =
  sl_locked :: bool
  sl_flag :: bool

record barrier =
  threads :: int
  count1 :: int
  count2 :: int
  count_up :: bool

record sync_store =
  spins :: "spin_ref \<Rightarrow> spinlock"
  wait_queue :: "queue_ref \<Rightarrow> tid list"
  lock_locked :: "ref \<Rightarrow> bool"
  sem_value :: "ref \<Rightarrow> int"
  barriers :: "ref \<Rightarrow> barrier"
  blocked :: "tid list"
  irq_off :: nat
  cpu :: tid

definition set_flag :: "spin_ref \<Rightarrow> bool \<Rightarrow> 'a sync_store_scheme \<Rightarrow> 'a sync_store_scheme" where
  "set_flag i b s = s\<lparr>spins := (spins s)(i := (spins s i)\<lparr>sl_flag := b\<rparr>)\<rparr>"

definition set_spin_locked :: "spin_ref \<Rightarrow> bool \<Rightarrow> 'a sync_store_scheme \<Rightarrow> 'a sync_store_scheme" where
  "set_spin_locked i b s = s\<lparr>spins := (spins s)(i := (spins s i)\<lparr>sl_locked := b\<rparr>)\<rparr>"

definition set_locked :: "ref \<Rightarrow> bool \<Rightarrow> 'a sync_store_scheme \<Rightarrow> 'a sync_store_scheme" where
  "set_locked l b s = s\<lparr>lock_locked := (lock_locked s)(l := b)\<rparr>"

definition add_value :: "ref \<Rightarrow> int \<Rightarrow> 'a sync_store_scheme \<Rightarrow> 'a sync_store_scheme" where
  "add_value r d s = s\<lparr>sem_value := (sem_value s)(r := sem_value s r + d)\<rparr>"

definition upd_barrier :: "ref \<Rightarrow> (barrier \<Rightarrow> barrier) \<Rightarrow> 'a sync_store_scheme \<Rightarrow> 'a sync_store_scheme" where
  "upd_barrier r f s = s\<lparr>barriers := (barriers s)(r := f (barriers s r))\<rparr>"


section \<open>Statements and threads\<close>

datatype 's cmd =
    Do "'s \<Rightarrow> 's"
  | CIf "'s \<Rightarrow> bool" "'s cmd list" "'s cmd list"
  | CWhile "'s \<Rightarrow> bool" "'s cmd list"
  | SpinTestAndSet spin_ref
  | SpinClear spin_ref
  | Block queue_ref
  | Unblock queue_ref
  | Yield
  | NointerruptEnter
  | NointerruptLeave
  | Halt

text \<open>
  \<open>SpinTestAndSet\<close> is one round of \<^verbatim>\<open>while (atomic_flag_test_and_set(&s->flag)) yield();\<close>.
  A thread that has nothing left to execute, unblocks an empty queue (an
  assertion of \<^verbatim>\<open>unblock\<close>) or halts the kernel makes no step.  \<open>Halt\<close> stands for
  the calls of \<^verbatim>\<open>abortk\<close>: failed assertions and unimplemented cases.
\<close>

fun exec1 :: "tid \<Rightarrow> 'a sync_store_scheme cmd list \<Rightarrow> 'a sync_store_scheme \<Rightarrow>
    ('a sync_store_scheme cmd list \<times> 'a sync_store_scheme) option" where
  "exec1 t [] s = None"
| "exec1 t (Do f # ks) s = Some (ks, f s)"
| "exec1 t (CIf b xs ys # ks) s = Some ((if b s then xs else ys) @ ks, s)"
| "exec1 t (CWhile b xs # ks) s = Some (if b s then xs @ CWhile b xs # ks else ks, s)"
| "exec1 t (SpinTestAndSet i # ks) s =
     (if sl_flag (spins s i) then Some (SpinTestAndSet i # ks, s)
      else Some (ks, set_flag i True s))"
| "exec1 t (SpinClear i # ks) s = Some (ks, set_flag i False s)"
| "exec1 t (Block q # ks) s =
     Some (ks, s\<lparr>wait_queue := (wait_queue s)(q := wait_queue s q @ [t]),
                 blocked := t # blocked s\<rparr>)"
| "exec1 t (Unblock q # ks) s =
     (case wait_queue s q of [] \<Rightarrow> None
      | u # us \<Rightarrow> Some (ks, s\<lparr>wait_queue := (wait_queue s)(q := us),
                              blocked := removeAll u (blocked s)\<rparr>))"
| "exec1 t (Yield # ks) s = Some (ks, s)"
| "exec1 t (NointerruptEnter # ks) s = Some (ks, s\<lparr>irq_off := irq_off s + 1\<rparr>)"
| "exec1 t (NointerruptLeave # ks) s = Some (ks, s\<lparr>irq_off := irq_off s - 1\<rparr>)"
| "exec1 t (Halt # ks) s = None"

type_synonym 's conf = "(tid \<Rightarrow> 's cmd list) \<times> 's"

definition schedulable :: "tid \<Rightarrow> 'a sync_store_scheme \<Rightarrow> bool" where
  "schedulable t s \<longleftrightarrow> t \<notin> set (blocked s) \<and> (irq_off s = 0 \<or> cpu s = t)"

inductive sys_step :: "'a sync_store_scheme conf \<Rightarrow> 'a sync_store_scheme conf \<Rightarrow> bool" where
  step: "schedulable t s \<Longrightarrow> exec1 t (p t) (s\<lparr>cpu := t\<rparr>) = Some (ks, s') \<Longrightarrow>
    sys_step (p, s) (p(t := ks), s')"

inductive_cases sys_stepE: "sys_step (p, s) c"

fun run :: "tid list \<Rightarrow> 'a sync_store_scheme conf \<Rightarrow> 'a sync_store_scheme conf option" where
  "run [] c = Some c"
| "run (t # ts) (p, s) =
     (if schedulable t s
      then (case exec1 t (p t) (s\<lparr>cpu := t\<rparr>) of None \<Rightarrow> None
            | Some (ks, s') \<Rightarrow> run ts (p(t := ks), s'))
      else None)"


section \<open>Spinlocks\<close>

datatype sync_impl = SYNC_IMPL_COOP | SYNC_IMPL_NOINTERRUPT | SYNC_IMPL_ATOMIC

definition SYNC_IMPL :: sync_impl where
  "SYNC_IMPL = SYNC_IMPL_ATOMIC"

definition spinlock_acquire_coop :: "spin_ref \<Rightarrow> 'a sync_store_scheme cmd list" where
  "spinlock_acquire_coop i =
     [CWhile (\<lambda>s. sl_locked (spins s i)) [Yield],
      Do (set_spin_locked i True)]"

definition spinlock_release_coop :: "spin_ref \<Rightarrow> 'a sync_store_scheme cmd list" where
  "spinlock_release_coop i = [Do (set_spin_locked i False)]"

definition spinlock_acquire_nointerrupt :: "spin_ref \<Rightarrow> 'a sync_store_scheme cmd list" where
  "spinlock_acquire_nointerrupt i =
     [NointerruptEnter,
      CWhile (\<lambda>s. sl_locked (spins s i))
        [NointerruptLeave, Yield, NointerruptEnter],
      Do (set_spin_locked i True),
      NointerruptLeave]"

definition spinlock_release_nointerrupt :: "spin_ref \<Rightarrow> 'a sync_store_scheme cmd list" where
  "spinlock_release_nointerrupt i =
     [NointerruptEnter,
      Do (set_spin_locked i False),
      NointerruptLeave]"

definition spinlock_acquire_atomic :: "spin_ref \<Rightarrow> 'a sync_store_scheme cmd list" where
  "spinlock_acquire_atomic i = [SpinTestAndSet i]"

definition spinlock_release_atomic :: "spin_ref \<Rightarrow> 'a sync_store_scheme cmd list" where
  "spinlock_release_atomic i = [SpinClear i]"

definition spinlock_acquire :: "spin_ref \<Rightarrow> 'a sync_store_scheme cmd list" where
  "spinlock_acquire i =
     (case SYNC_IMPL of SYNC_IMPL_COOP \<Rightarrow> spinlock_acquire_coop i
      | SYNC_IMPL_NOINTERRUPT \<Rightarrow> spinlock_acquire_nointerrupt i
      | SYNC_IMPL_ATOMIC \<Rightarrow> spinlock_acquire_atomic i)"

definition spinlock_release :: "spin_ref \<Rightarrow> 'a sync_store_scheme cmd list" where
  "spinlock_release i =
     (case SYNC_IMPL of SYNC_IMPL_COOP \<Rightarrow> spinlock_release_coop i
      | SYNC_IMPL_NOINTERRUPT \<Rightarrow> spinlock_release_nointerrupt i
      | SYNC_IMPL_ATOMIC \<Rightarrow> spinlock_release_atomic i)"


section \<open>Locks\<close>

abbreviation waiting :: "queue_ref \<Rightarrow> 'a sync_store_scheme \<Rightarrow> bool" where
  "waiting q s \<equiv> wait_queue s q \<noteq> []"

abbreviation is_locked :: "ref \<Rightarrow> 'a sync_store_scheme \<Rightarrow> bool" where
  "is_locked l s \<equiv> lock_locked s l"

definition lock_acquire_coop :: "ref \<Rightarrow> 'a sync_store_scheme cmd list" where
  "lock_acquire_coop l =
     [CWhile (is_locked l) [Block (LockQueue l)],
      Do (set_locked l True)]"

definition lock_release_coop :: "ref \<Rightarrow> 'a sync_store_scheme cmd list" where
  "lock_release_coop l =
     [Do (set_locked l False),
      CIf (waiting (LockQueue l)) [Unblock (LockQueue l)] []]"

definition lock_acquire_nointerrupt :: "ref \<Rightarrow> 'a sync_store_scheme cmd list" where
  "lock_acquire_nointerrupt l =
     [NointerruptEnter,
      CWhile (is_locked l) [NointerruptLeave, Block (LockQueue l), NointerruptEnter],
      Do (set_locked l True),
      NointerruptLeave]"

definition lock_release_nointerrupt :: "ref \<Rightarrow> 'a sync_store_scheme cmd list" where
  "lock_release_nointerrupt l =
     [NointerruptEnter,
      Do (set_locked l False),
      CIf (waiting (LockQueue l)) [Unblock (LockQueue l)] [],
      NointerruptLeave]"

definition lock_acquire_atomic :: "ref \<Rightarrow> 'a sync_store_scheme cmd list" where
  "lock_acquire_atomic l =
     spinlock_acquire (LockInner l) @
     [CWhile (is_locked l)
        (spinlock_release (LockInner l) @
         [Block (LockQueue l)] @
         spinlock_acquire (LockInner l)),
      Do (set_locked l True)] @
     spinlock_release (LockInner l)"

definition lock_release_atomic :: "ref \<Rightarrow> 'a sync_store_scheme cmd list" where
  "lock_release_atomic l =
     spinlock_acquire (LockInner l) @
     [Do (set_locked l False),
      CIf (waiting (LockQueue l)) [Unblock (LockQueue l)] []] @
     spinlock_release (LockInner l)"

definition lock_acquire :: "ref \<Rightarrow> 'a sync_store_scheme cmd list" where
  "lock_acquire l =
     (case SYNC_IMPL of SYNC_IMPL_COOP \<Rightarrow> lock_acquire_coop l
      | SYNC_IMPL_NOINTERRUPT \<Rightarrow> lock_acquire_nointerrupt l
      | SYNC_IMPL_ATOMIC \<Rightarrow> lock_acquire_atomic l)"

definition lock_release :: "ref \<Rightarrow> 'a sync_store_scheme cmd list" where
  "lock_release l =
     (case SYNC_IMPL of SYNC_IMPL_COOP \<Rightarrow> lock_release_coop l
      | SYNC_IMPL_NOINTERRUPT \<Rightarrow> lock_release_nointerrupt l
      | SYNC_IMPL_ATOMIC \<Rightarrow> lock_release_atomic l)"


section \<open>Condition variables\<close>

definition condition_wait_coop :: "ref \<Rightarrow> ref \<Rightarrow> 'a sync_store_scheme cmd list" where
  "condition_wait_coop m c = lock_release m @ [Block (CondQueue c)] @ lock_acquire m"

definition condition_signal_coop :: "ref \<Rightarrow> 'a sync_store_scheme cmd list" where
  "condition_signal_coop c = [CIf (waiting (CondQueue c)) [Unblock (CondQueue c)] []]"

definition condition_broadcast_coop :: "ref \<Rightarrow> 'a sync_store_scheme cmd list" where
  "condition_broadcast_coop c = [CWhile (waiting (CondQueue c)) [Unblock (CondQueue c)]]"

definition condition_wait_nointerrupt :: "ref \<Rightarrow> ref \<Rightarrow> 'a sync_store_scheme cmd list" where
  "condition_wait_nointerrupt m c = lock_release m @ [Block (CondQueue c)] @ lock_acquire m"

definition condition_signal_nointerrupt :: "ref \<Rightarrow> 'a sync_store_scheme cmd list" where
  "condition_signal_nointerrupt c =
     [NointerruptEnter,
      CIf (waiting (CondQueue c)) [Unblock (CondQueue c)] [],
      NointerruptLeave]"

definition condition_broadcast_nointerrupt :: "ref \<Rightarrow> 'a sync_store_scheme cmd list" where
  "condition_broadcast_nointerrupt c =
     [NointerruptEnter,
      CWhile (waiting (CondQueue c)) [Unblock (CondQueue c)],
      NointerruptLeave]"

definition condition_wait_atomic :: "ref \<Rightarrow> ref \<Rightarrow> 'a sync_store_scheme cmd list" where
  "condition_wait_atomic m c = lock_release m @ [Block (CondQueue c)] @ lock_acquire m"

definition condition_signal_atomic :: "ref \<Rightarrow> 'a sync_store_scheme cmd list" where
  "condition_signal_atomic c =
     spinlock_acquire (CondInner c) @
     [CIf (waiting (CondQueue c)) [Unblock (CondQueue c)] []] @
     spinlock_release (CondInner c)"

definition condition_broadcast_atomic :: "ref \<Rightarrow> 'a sync_store_scheme cmd list" where
  "condition_broadcast_atomic c =
     spinlock_acquire (CondInner c) @
     [CWhile (waiting (CondQueue c)) [Unblock (CondQueue c)]] @
     spinlock_release (CondInner c)"

definition condition_wait :: "ref \<Rightarrow> ref \<Rightarrow> 'a sync_store_scheme cmd list" where
  "condition_wait m c =
     (case SYNC_IMPL of SYNC_IMPL_COOP \<Rightarrow> condition_wait_coop m c
      | SYNC_IMPL_NOINTERRUPT \<Rightarrow> condition_wait_nointerrupt m c
      | SYNC_IMPL_ATOMIC \<Rightarrow> condition_wait_atomic m c)"

definition condition_signal :: "ref \<Rightarrow> 'a sync_store_scheme cmd list" where
  "condition_signal c =
     (case SYNC_IMPL of SYNC_IMPL_COOP \<Rightarrow> condition_signal_coop c
      | SYNC_IMPL_NOINTERRUPT \<Rightarrow> condition_signal_nointerrupt c
      | SYNC_IMPL_ATOMIC \<Rightarrow> condition_signal_atomic c)"

definition condition_broadcast :: "ref \<Rightarrow> 'a sync_store_scheme cmd list" where
  "condition_broadcast c =
     (case SYNC_IMPL of SYNC_IMPL_COOP \<Rightarrow> condition_broadcast_coop c
      | SYNC_IMPL_NOINTERRUPT \<Rightarrow> condition_broadcast_nointerrupt c
      | SYNC_IMPL_ATOMIC \<Rightarrow> condition_broadcast_atomic c)"


section \<open>Semaphores\<close>

abbreviation sem_wakes :: "ref \<Rightarrow> 'a sync_store_scheme \<Rightarrow> bool" where
  "sem_wakes r s \<equiv> sem_value s r \<le> 0 \<and> waiting (SemQueue r) s"

abbreviation sem_negative :: "ref \<Rightarrow> 'a sync_store_scheme \<Rightarrow> bool" where
  "sem_negative r s \<equiv> sem_value s r < 0"

definition semaphore_up_nointerrupt :: "ref \<Rightarrow> 'a sync_store_scheme cmd list" where
  "semaphore_up_nointerrupt r =
     [NointerruptEnter,
      Do (add_value r 1),
      CIf (sem_wakes r) [Unblock (SemQueue r)] [],
      NointerruptLeave]"

definition semaphore_down_nointerrupt :: "ref \<Rightarrow> 'a sync_store_scheme cmd list" where
  "semaphore_down_nointerrupt r =
     [NointerruptEnter,
      Do (add_value r (- 1)),
      CIf (sem_negative r) [NointerruptLeave, Block (SemQueue r), NointerruptEnter] [],
      NointerruptLeave]"

definition semaphore_up_atomic :: "ref \<Rightarrow> 'a sync_store_scheme cmd list" where
  "semaphore_up_atomic r =
     spinlock_acquire (SemInner r) @
     [Do (add_value r 1),
      CIf (sem_wakes r) [Unblock (SemQueue r)] []] @
     spinlock_release (SemInner r)"

definition semaphore_down_atomic :: "ref \<Rightarrow> 'a sync_store_scheme cmd list" where
  "semaphore_down_atomic r =
     spinlock_acquire (SemInner r) @
     [Do (add_value r (- 1)),
      CIf (sem_negative r)
        (spinlock_release (SemInner r) @
         [Block (SemQueue r)] @
         spinlock_acquire (SemInner r)) []] @
     spinlock_release (SemInner r)"

definition semaphore_up :: "ref \<Rightarrow> 'a sync_store_scheme cmd list" where
  "semaphore_up r =
     (case SYNC_IMPL of SYNC_IMPL_COOP \<Rightarrow> [Halt]
      | SYNC_IMPL_NOINTERRUPT \<Rightarrow> semaphore_up_nointerrupt r
      | SYNC_IMPL_ATOMIC \<Rightarrow> semaphore_up_atomic r)"

definition semaphore_down :: "ref \<Rightarrow> 'a sync_store_scheme cmd list" where
  "semaphore_down r =
     (case SYNC_IMPL of SYNC_IMPL_COOP \<Rightarrow> [Halt]
      | SYNC_IMPL_NOINTERRUPT \<Rightarrow> semaphore_down_nointerrupt r
      | SYNC_IMPL_ATOMIC \<Rightarrow> semaphore_down_atomic r)"


section \<open>Barriers\<close>

text \<open>
  The members \<^verbatim>\<open>mutex\<close> and \<^verbatim>\<open>all_arrived\<close> of a barrier are the lock \<open>m\<close> and the
  condition variable \<open>a\<close>.
\<close>

definition barrier_wait :: "ref \<Rightarrow> ref \<Rightarrow> ref \<Rightarrow> 'a sync_store_scheme cmd list" where
  "barrier_wait r m a =
     lock_acquire m @
     [CIf (\<lambda>s. count_up (barriers s r))
        ([Do (upd_barrier r (\<lambda>b. b\<lparr>count1 := count1 b + 1\<rparr>)),
          CWhile (\<lambda>s. count1 (barriers s r) < threads (barriers s r))
            (condition_wait m a),
          CIf (\<lambda>s. count_up (barriers s r))
            (condition_broadcast a @
             [Do (upd_barrier r (\<lambda>b. b\<lparr>count2 := threads b\<rparr>)),
              Do (upd_barrier r (\<lambda>b. b\<lparr>count_up := False\<rparr>))])
            []])
        ([Do (upd_barrier r (\<lambda>b. b\<lparr>count2 := count2 b - 1\<rparr>)),
          CWhile (\<lambda>s. count2 (barriers s r) > 0)
            (condition_wait m a),
          CIf (\<lambda>s. \<not> count_up (barriers s r))
            (condition_broadcast a @
             [Do (upd_barrier r (\<lambda>b. b\<lparr>count1 := 0\<rparr>)),
              Do (upd_barrier r (\<lambda>b. b\<lparr>count_up := True\<rparr>))])
            []])] @
     lock_release m"

end
