(* ===== verification/Mbox.thy ===== *)
theory Mbox
  imports Sync Machine
begin

text \<open>
  The mailboxes of \<^verbatim>\<open>kernel/mbox.c\<close>: bounded message queues in circular byte
  buffers, each a monitor with one lock and two condition variables.  The
  operations are statement lists over the store of theory Sync extended by
  the mailboxes and the memory the messages are copied from and to.

  A message is its length in bytes, four bytes, followed by its body.  The
  buffer is a function on offsets; \<^verbatim>\<open>head\<close> and \<^verbatim>\<open>tail\<close> are signed, so an offset is
  an integer.  The log line written by \<^verbatim>\<open>print_trace\<close> is left out, and the
  copying loops, which run under the monitor's lock, are one statement each.
\<close>

definition MAX_MBOX :: int where "MAX_MBOX = 5"
definition BUFFER_SIZE :: int where "BUFFER_SIZE = 1024"
definition MSG_T_HEADER_SIZE :: u32 where "MSG_T_HEADER_SIZE = 4"

record mbox =
  mb_used :: int
  mb_count :: int
  mb_head :: int
  mb_tail :: int
  mb_buffer :: "int \<Rightarrow> u8"

text \<open>
  The members \<^verbatim>\<open>l\<close>, \<^verbatim>\<open>moreSpace\<close> and \<^verbatim>\<open>moreData\<close> of mailbox \<open>q\<close> are objects of the
  store.  \<open>msgSize_of\<close> is the local variable \<^verbatim>\<open>msgSize\<close> of each thread in
  \<^verbatim>\<open>mbox_send\<close>.
\<close>

record mbox_store = sync_store +
  Q :: "int \<Rightarrow> mbox"
  umem :: pmem_t
  msgSize_of :: "tid \<Rightarrow> int"

definition mb_l :: "int \<Rightarrow> ref" where "mb_l q = q"
definition moreSpace :: "int \<Rightarrow> ref" where "moreSpace q = 2 * q"
definition moreData :: "int \<Rightarrow> ref" where "moreData q = 2 * q + 1"

text \<open>The remainder of C on signed operands has the sign of the dividend.\<close>

definition c_rem :: "int \<Rightarrow> int \<Rightarrow> int" where
  "c_rem a b = sgn a * (\<bar>a\<bar> mod \<bar>b\<bar>)"

definition MSG_SIZE :: "pmem_t \<Rightarrow> u32 \<Rightarrow> u32" where
  "MSG_SIZE mem m = MSG_T_HEADER_SIZE + read32 mem m"

section \<open>The circular buffer\<close>

definition space_available :: "mbox \<Rightarrow> int" where
  "space_available q =
     (if mb_tail q = mb_head q \<and> mb_count q \<noteq> 0 then 0
      else if mb_tail q > mb_head q then mb_tail q - mb_head q
      else mb_tail q + BUFFER_SIZE - mb_head q)"

definition buffer_to_msg :: "(int \<Rightarrow> u8) \<Rightarrow> int \<Rightarrow> u32 \<Rightarrow> int \<Rightarrow> pmem_t \<Rightarrow> pmem_t" where
  "buffer_to_msg buf start msg bytes mem =
     fold (\<lambda>i mem. mem(msg + of_nat i := buf (c_rem (start + int i) BUFFER_SIZE)))
       [0..<nat bytes] mem"

definition msg_to_buffer :: "pmem_t \<Rightarrow> u32 \<Rightarrow> int \<Rightarrow> (int \<Rightarrow> u8) \<Rightarrow> int \<Rightarrow> (int \<Rightarrow> u8)" where
  "msg_to_buffer mem msg bytes buf start =
     fold (\<lambda>i buf. buf(c_rem (start + int i) BUFFER_SIZE := mem (msg + of_nat i)))
       [0..<nat bytes] buf"


section \<open>The mailbox interface\<close>

definition upd_mbox :: "int \<Rightarrow> (mbox \<Rightarrow> mbox) \<Rightarrow> 'a mbox_store_scheme \<Rightarrow> 'a mbox_store_scheme" where
  "upd_mbox q f s = s\<lparr>Q := (Q s)(q := f (Q s q))\<rparr>"

definition mbox_init_one :: "int \<Rightarrow> 'a mbox_store_scheme \<Rightarrow> 'a mbox_store_scheme" where
  "mbox_init_one q s =
     (let s = upd_mbox q (\<lambda>b. b\<lparr>mb_used := 0\<rparr>) s;
          off = \<lparr>sl_locked = False, sl_flag = False\<rparr>
      in s\<lparr>lock_locked := (lock_locked s)(mb_l q := False),
           wait_queue := (wait_queue s)(LockQueue (mb_l q) := [],
             CondQueue (moreSpace q) := [], CondQueue (moreData q) := []),
           spins := (spins s)(LockInner (mb_l q) := off,
             CondInner (moreSpace q) := off, CondInner (moreData q) := off)\<rparr>)"

definition mbox_init :: "'a mbox_store_scheme \<Rightarrow> 'a mbox_store_scheme" where
  "mbox_init s = fold mbox_init_one [0..MAX_MBOX - 1] s"

definition mbox_open :: "int \<Rightarrow> int \<times> 'a mbox_store_scheme cmd list" where
  "mbox_open key =
     (if key < MAX_MBOX \<and> key \<ge> 0 then
        (key,
         lock_acquire (mb_l key) @
         [CIf (\<lambda>s. mb_used (Q s key) = 0)
            [Do (upd_mbox key (\<lambda>b. b\<lparr>mb_head := 0\<rparr>)),
             Do (upd_mbox key (\<lambda>b. b\<lparr>mb_tail := 0\<rparr>)),
             Do (upd_mbox key (\<lambda>b. b\<lparr>mb_count := 0\<rparr>))] [],
          Do (upd_mbox key (\<lambda>b. b\<lparr>mb_used := mb_used b + 1\<rparr>))] @
         lock_release (mb_l key))
      else (- 1, []))"

definition mbox_close :: "int \<Rightarrow> 'a mbox_store_scheme cmd list" where
  "mbox_close q =
     lock_acquire (mb_l q) @
     [Do (upd_mbox q (\<lambda>b. b\<lparr>mb_used := mb_used b - 1\<rparr>))] @
     lock_release (mb_l q)"

definition mbox_stat :: "int \<Rightarrow> u32 \<Rightarrow> u32 \<Rightarrow> 'a mbox_store_scheme cmd list" where
  "mbox_stat q count space =
     lock_acquire (mb_l q) @
     [Do (\<lambda>s. s\<lparr>umem := write32 (umem s) count (word_of_int (mb_count (Q s q)))\<rparr>),
      Do (\<lambda>s. s\<lparr>umem := write32 (umem s) space (word_of_int (space_available (Q s q)))\<rparr>)] @
     lock_release (mb_l q)"

definition recv_header :: "int \<Rightarrow> u32 \<Rightarrow> 'a mbox_store_scheme \<Rightarrow> 'a mbox_store_scheme" where
  "recv_header q m s =
     s\<lparr>umem := buffer_to_msg (mb_buffer (Q s q)) (mb_tail (Q s q)) m
                 (uint MSG_T_HEADER_SIZE) (umem s)\<rparr>"

definition skip_header :: "int \<Rightarrow> 'a mbox_store_scheme \<Rightarrow> 'a mbox_store_scheme" where
  "skip_header q =
     upd_mbox q (\<lambda>b. b\<lparr>mb_tail :=
       uint (word_of_int (mb_tail b) + MSG_T_HEADER_SIZE) mod BUFFER_SIZE\<rparr>)"

definition recv_body :: "int \<Rightarrow> u32 \<Rightarrow> 'a mbox_store_scheme \<Rightarrow> 'a mbox_store_scheme" where
  "recv_body q m s =
     s\<lparr>umem := buffer_to_msg (mb_buffer (Q s q)) (mb_tail (Q s q)) (m + 4)
                 (sint (read32 (umem s) m)) (umem s)\<rparr>"

definition skip_body :: "int \<Rightarrow> u32 \<Rightarrow> 'a mbox_store_scheme \<Rightarrow> 'a mbox_store_scheme" where
  "skip_body q m s =
     upd_mbox q (\<lambda>b. b\<lparr>mb_tail :=
       uint (word_of_int (mb_tail b) + MSG_SIZE (umem s) m - MSG_T_HEADER_SIZE)
         mod BUFFER_SIZE\<rparr>) s"

definition mbox_recv :: "int \<Rightarrow> u32 \<Rightarrow> 'a mbox_store_scheme cmd list" where
  "mbox_recv q m =
     lock_acquire (mb_l q) @
     [CWhile (\<lambda>s. mb_count (Q s q) = 0) (condition_wait (mb_l q) (moreData q)),
      Do (recv_header q m),
      Do (skip_header q),
      Do (recv_body q m),
      Do (skip_body q m)] @
     condition_broadcast (moreSpace q) @
     [Do (upd_mbox q (\<lambda>b. b\<lparr>mb_count := mb_count b - 1\<rparr>))] @
     lock_release (mb_l q)"

definition send_copy :: "tid \<Rightarrow> int \<Rightarrow> u32 \<Rightarrow> 'a mbox_store_scheme \<Rightarrow> 'a mbox_store_scheme" where
  "send_copy t q m s =
     upd_mbox q (\<lambda>b. b\<lparr>mb_buffer :=
       msg_to_buffer (umem s) m (msgSize_of s t) (mb_buffer b) (mb_head b)\<rparr>) s"

definition send_head :: "tid \<Rightarrow> int \<Rightarrow> 'a mbox_store_scheme \<Rightarrow> 'a mbox_store_scheme" where
  "send_head t q s =
     upd_mbox q (\<lambda>b. b\<lparr>mb_head := c_rem (mb_head b + msgSize_of s t) BUFFER_SIZE\<rparr>) s"

definition mbox_send :: "tid \<Rightarrow> int \<Rightarrow> u32 \<Rightarrow> 'a mbox_store_scheme cmd list" where
  "mbox_send t q m =
     [Do (\<lambda>s. s\<lparr>msgSize_of := (msgSize_of s)(t := sint (MSG_SIZE (umem s) m))\<rparr>)] @
     lock_acquire (mb_l q) @
     [CWhile (\<lambda>s. space_available (Q s q) < msgSize_of s t)
        (condition_wait (mb_l q) (moreSpace q)),
      Do (send_copy t q m),
      Do (send_head t q)] @
     condition_signal (moreData q) @
     [Do (upd_mbox q (\<lambda>b. b\<lparr>mb_count := mb_count b + 1\<rparr>))] @
     lock_release (mb_l q)"

end
