(* ===== verification/Keyboard.thy ===== *)
theory Keyboard
  imports Mbox CStrings
begin

text \<open>
  The keyboard driver, \<^verbatim>\<open>kernel/keyboard.c\<close>: the scan code table with its key
  handlers, the interrupt routine that decodes a scan code, and the character
  queue, which is a mailbox.  The decoding state is a record of its own; the
  queue operations are statement lists over the mailbox store.
\<close>

unbundle bit_operations_syntax

section \<open>Keys\<close>

definition RIGHT_SHIFT :: u8 where "RIGHT_SHIFT = 1"
definition LEFT_SHIFT :: u8 where "LEFT_SHIFT = 2"
definition CAPS_SHIFT :: u8 where "CAPS_SHIFT = 4"
definition CONTROL :: u8 where "CONTROL = 8"
definition ALT :: u8 where "ALT = 16"
definition QUEUE :: int where "QUEUE = 0"
definition CHAR_MSG_SIZE :: int where "CHAR_MSG_SIZE = 5"

lemmas shift_defs = RIGHT_SHIFT_def LEFT_SHIFT_def CAPS_SHIFT_def CONTROL_def ALT_def

record character =
  character_of :: u8
  attribute :: u8
  scancode :: u8

record kbd =
  shift_status :: u8
  key_release :: bool
  multiread :: bool

text \<open>The handlers a table entry can point to, and an entry: plain, shifted, control, handler.\<close>

datatype key_handler =
    NormalKey | EscapeKey | RightShiftKey | LeftShiftKey | ControlKey | AltKey
  | CapsLockKey | NumLockKey | ScrollLockKey

type_synonym ascii = "u8 \<times> u8 \<times> u8 \<times> key_handler"

definition scan_to_ascii :: "ascii list" where
  "scan_to_ascii = [
     (0x00, 0x00, 0x00, NormalKey), (0x1b, 0x1b, 0x1b, EscapeKey), (0x31, 0x21, 0x00, NormalKey),
     (0x32, 0x40, 0x00, NormalKey), (0x33, 0x23, 0x00, NormalKey), (0x34, 0x24, 0x00, NormalKey),
     (0x35, 0x25, 0x00, NormalKey), (0x36, 0x5e, 0x1e, NormalKey), (0x37, 0x26, 0x00, NormalKey),
     (0x38, 0x2a, 0x00, NormalKey), (0x39, 0x28, 0x00, NormalKey), (0x30, 0x29, 0x00, NormalKey),
     (0x2d, 0x5f, 0x1f, NormalKey), (0x3d, 0x2b, 0x00, NormalKey), (0x08, 0x08, 0x7f, NormalKey),
     (0x09, 0x00, 0x00, NormalKey), (0x71, 0x51, 0x11, NormalKey), (0x77, 0x57, 0x17, NormalKey),
     (0x65, 0x45, 0x05, NormalKey), (0x72, 0x52, 0x12, NormalKey), (0x74, 0x54, 0x14, NormalKey),
     (0x79, 0x59, 0x19, NormalKey), (0x75, 0x55, 0x15, NormalKey), (0x69, 0x49, 0x09, NormalKey),
     (0x6f, 0x4f, 0x0f, NormalKey), (0x70, 0x50, 0x10, NormalKey), (0x5b, 0x7b, 0x1b, NormalKey),
     (0x5d, 0x7d, 0x1d, NormalKey), (0x0d, 0x0d, 0x0a, NormalKey), (0x00, 0x00, 0x00, ControlKey),
     (0x61, 0x41, 0x01, NormalKey), (0x73, 0x53, 0x13, NormalKey), (0x64, 0x44, 0x04, NormalKey),
     (0x66, 0x46, 0x06, NormalKey), (0x67, 0x47, 0x07, NormalKey), (0x68, 0x48, 0x08, NormalKey),
     (0x6a, 0x4a, 0x0a, NormalKey), (0x6b, 0x4b, 0x0b, NormalKey), (0x6c, 0x4c, 0x0c, NormalKey),
     (0x3b, 0x3a, 0x00, NormalKey), (0x27, 0x22, 0x00, NormalKey), (0x60, 0x7e, 0x00, NormalKey),
     (0x00, 0x00, 0x00, LeftShiftKey), (0x5c, 0x7c, 0x00, NormalKey), (0x7a, 0x5a, 0x1a, NormalKey),
     (0x78, 0x58, 0x18, NormalKey), (0x63, 0x43, 0x03, NormalKey), (0x76, 0x56, 0x16, NormalKey),
     (0x62, 0x42, 0x02, NormalKey), (0x6e, 0x4e, 0x0e, NormalKey), (0x6d, 0x4d, 0x0d, NormalKey),
     (0x2c, 0x3c, 0x00, NormalKey), (0x2e, 0x2e, 0x00, NormalKey), (0x2f, 0x3f, 0x00, NormalKey),
     (0x00, 0x00, 0x00, RightShiftKey), (0x2a, 0x2a, 0x00, NormalKey), (0x00, 0x00, 0x00, AltKey),
     (0x20, 0x20, 0x02, NormalKey), (0x00, 0x00, 0x00, CapsLockKey), (0x00, 0x00, 0x00, NormalKey),
     (0x00, 0x00, 0x00, NormalKey), (0x00, 0x00, 0x00, NormalKey), (0x00, 0x00, 0x00, NormalKey),
     (0x00, 0x00, 0x00, NormalKey), (0x00, 0x00, 0x00, NormalKey), (0x00, 0x00, 0x00, NormalKey),
     (0x00, 0x00, 0x00, NormalKey), (0x00, 0x00, 0x00, NormalKey), (0x00, 0x00, 0x00, NormalKey),
     (0x00, 0x00, 0x00, NumLockKey), (0x00, 0x00, 0x00, ScrollLockKey), (0x00, 0x37, 0x00, NormalKey),
     (0xb8, 0x38, 0x00, NormalKey), (0xb9, 0x39, 0x00, NormalKey), (0x2d, 0x2d, 0x00, NormalKey),
     (0x00, 0x34, 0x00, NormalKey), (0x00, 0x35, 0x00, NormalKey), (0x00, 0x36, 0x00, NormalKey),
     (0x2b, 0x2b, 0x00, NormalKey), (0x00, 0x31, 0x00, NormalKey), (0x00, 0x32, 0x00, NormalKey),
     (0xb3, 0x33, 0x00, NormalKey), (0x00, 0x30, 0x00, NormalKey), (0x00, 0x2e, 0x00, NormalKey)]"

definition normal_handler :: "u8 \<Rightarrow> kbd \<Rightarrow> character option" where
  "normal_handler scan k =
     (if key_release k then None
      else
        let (no_shift, shift, control, _) = scan_to_ascii ! unat scan;
            ch = (if shift_status k = LEFT_SHIFT \<or> shift_status k = RIGHT_SHIFT \<or> shift_status k = CAPS_SHIFT
                  then shift
                  else if shift_status k = CONTROL then control
                  else if shift_status k = 0 then no_shift
                  else 0)
        in Some \<lparr>character_of = ch, attribute = shift_status k, scancode = scan\<rparr>)"

definition hold_key :: "u8 \<Rightarrow> kbd \<Rightarrow> kbd" where
  "hold_key b k =
     (if \<not> key_release k then k\<lparr>shift_status := shift_status k OR b\<rparr>
      else k\<lparr>shift_status := shift_status k AND NOT b\<rparr>)"

definition right_shift_handler :: "kbd \<Rightarrow> kbd" where
  "right_shift_handler k = hold_key RIGHT_SHIFT k"

definition left_shift_handler :: "kbd \<Rightarrow> kbd" where
  "left_shift_handler k = hold_key LEFT_SHIFT k"

definition control_handler :: "kbd \<Rightarrow> kbd" where
  "control_handler k = hold_key CONTROL k"

definition alt_handler :: "kbd \<Rightarrow> kbd" where
  "alt_handler k = hold_key ALT k"

definition caps_lock_handler :: "kbd \<Rightarrow> kbd" where
  "caps_lock_handler k =
     (if \<not> key_release k then
        if shift_status k AND CAPS_SHIFT \<noteq> 0
        then k\<lparr>shift_status := shift_status k AND NOT CAPS_SHIFT\<rparr>
        else k\<lparr>shift_status := shift_status k OR CAPS_SHIFT\<rparr>
      else k)"

definition escape_handler :: "kbd \<Rightarrow> kbd" where "escape_handler k = k"
definition num_lock_handler :: "kbd \<Rightarrow> kbd" where "num_lock_handler k = k"
definition scroll_lock_handler :: "kbd \<Rightarrow> kbd" where "scroll_lock_handler k = k"

text \<open>The call through the handler pointer; only the normal handler calls \<^verbatim>\<open>putchar\<close>.\<close>

fun call_handler :: "key_handler \<Rightarrow> u8 \<Rightarrow> kbd \<Rightarrow> kbd \<times> character option" where
  "call_handler NormalKey key k = (k, normal_handler key k)"
| "call_handler EscapeKey key k = (escape_handler k, None)"
| "call_handler RightShiftKey key k = (right_shift_handler k, None)"
| "call_handler LeftShiftKey key k = (left_shift_handler k, None)"
| "call_handler ControlKey key k = (control_handler k, None)"
| "call_handler AltKey key k = (alt_handler k, None)"
| "call_handler CapsLockKey key k = (caps_lock_handler k, None)"
| "call_handler NumLockKey key k = (num_lock_handler k, None)"
| "call_handler ScrollLockKey key k = (scroll_lock_handler k, None)"

text \<open>
  \<open>key1\<close> and \<open>key2\<close> are what the first and a second read of port 0x60 return.
  The result carries the character handed to \<^verbatim>\<open>putchar\<close>, if any.
\<close>

definition keyboard_interrupt :: "u8 \<Rightarrow> u8 \<Rightarrow> kbd \<Rightarrow> kbd \<times> character option" where
  "keyboard_interrupt key1 key2 k =
     (let k = k\<lparr>key_release := key1 AND 0x80 \<noteq> 0\<rparr>;
          key = key1 AND 0x7f;
          (key, k) = (if key = 0xe0 then (key2, k\<lparr>multiread := True\<rparr>) else (key, k))
      in if key < 0x54
         then let (_, _, _, h) = scan_to_ascii ! unat key in call_handler h key k
         else (k, None))"


section \<open>The character queue\<close>

text \<open>
  \<open>m\<close>, \<open>count\<close> and \<open>space\<close> are the addresses of the local variables, \<open>c\<close> in \<^verbatim>\<open>getchar\<close>
  is the address of the result, and \<open>mbox\<close> is the handle \<^verbatim>\<open>keyboard_init\<close> keeps.
\<close>

definition keyboard_init :: "(int \<times> 'a mbox_store_scheme cmd list) res" where
  "keyboard_init =
     (let (mbox, ks) = mbox_open QUEUE in if mbox \<ge> 0 then Inr (mbox, ks) else Inl AssertFail)"

definition putchar :: "tid \<Rightarrow> int \<Rightarrow> u32 \<Rightarrow> u32 \<Rightarrow> u32 \<Rightarrow> character \<Rightarrow> 'a mbox_store_scheme cmd list" where
  "putchar t mbox m count space c =
     [Do (\<lambda>s. s\<lparr>umem := write32 (umem s) m 1\<rparr>),
      Do (\<lambda>s. s\<lparr>umem := (umem s)(m + 4 := character_of c)\<rparr>),
      NointerruptEnter] @
     mbox_stat mbox count space @
     [CIf (\<lambda>s. sint (read32 (umem s) space) \<ge> CHAR_MSG_SIZE) (mbox_send t mbox m) [],
      NointerruptLeave]"

definition getchar :: "int \<Rightarrow> u32 \<Rightarrow> u32 \<Rightarrow> 'a mbox_store_scheme cmd list" where
  "getchar mbox m c =
     [NointerruptEnter] @ mbox_recv mbox m @ [NointerruptLeave] @
     [CIf (\<lambda>s. sint (read32 (umem s) m) = 1)
        [Do (\<lambda>s. s\<lparr>umem := write32 (umem s) c (scast (umem s (m + 4)))\<rparr>)]
        [Halt]]"

end
