(* ===== verification/SyncRuns.thy ===== *)
theory SyncRuns
  imports Sync
begin

text \<open>
  Runs of the threads of theory Sync: a schedule that \<open>run\<close> executes is a
  sequence of system steps, and \<open>completes\<close> says that one thread executes a
  statement list to its end while the others stand still.  The rules below
  give the effect of each synchronisation function in such a run.
\<close>

lemmas sync_api_defs =
  SYNC_IMPL_def lock_acquire_def lock_release_def lock_acquire_atomic_def lock_release_atomic_def
  spinlock_acquire_def spinlock_release_def spinlock_acquire_atomic_def spinlock_release_atomic_def

lemmas cond_api_defs =
  condition_wait_def condition_wait_atomic_def condition_signal_def condition_signal_atomic_def
  condition_broadcast_def condition_broadcast_atomic_def

lemmas sem_api_defs =
  semaphore_up_def semaphore_up_atomic_def semaphore_down_def semaphore_down_atomic_def

lemmas store_defs = set_flag_def set_locked_def


section \<open>Schedules\<close>

lemma run_reaches:
  assumes "run ts (p, s) = Some c"
  shows "sys_step\<^sup>*\<^sup>* (p, s) c"
  using assms
proof (induction ts arbitrary: p s)
  case (Cons t ts)
  then obtain ks s' where e: "schedulable t s" "exec1 t (p t) (s\<lparr>cpu := t\<rparr>) = Some (ks, s')"
    and r: "run ts (p(t := ks), s') = Some c"
    by (auto split: if_split_asm option.split_asm)
  show ?case
    by (rule converse_rtranclp_into_rtranclp [where b = "(p(t := ks), s')"])
      (use e r Cons.IH in \<open>auto intro: sys_step.step\<close>)
qed simp


section \<open>One thread running alone\<close>

definition ready :: "tid \<Rightarrow> 'a sync_store_scheme \<Rightarrow> bool" where
  "ready t s \<longleftrightarrow> cpu s = t \<and> t \<notin> set (blocked s)"

definition completes :: "tid \<Rightarrow> 'a sync_store_scheme cmd list \<Rightarrow> 'a sync_store_scheme \<Rightarrow>
    'a sync_store_scheme \<Rightarrow> bool" where
  "completes t ks s s' \<longleftrightarrow>
     (\<forall>p rest. p t = ks @ rest \<longrightarrow> sys_step\<^sup>*\<^sup>* (p, s) (p(t := rest), s'))"

lemma exec1_append:
  "exec1 t ks s = Some (ks', s') \<Longrightarrow> exec1 t (ks @ rest) s = Some (ks' @ rest, s')"
  by (induction t ks s rule: exec1.induct) (auto split: list.splits if_split_asm)

lemma completes_Nil [simp]: "completes t [] s s"
  by (auto simp: completes_def)

lemma completes_append:
  assumes "completes t xs s s1" "completes t ys s1 s2"
  shows "completes t (xs @ ys) s s2"
  unfolding completes_def
proof (intro allI impI)
  fix p :: "tid \<Rightarrow> 'a sync_store_scheme cmd list" and rest
  assume p: "p t = (xs @ ys) @ rest"
  have "sys_step\<^sup>*\<^sup>* (p, s) (p(t := ys @ rest), s1)"
    using assms(1) p by (simp add: completes_def)
  also have "sys_step\<^sup>*\<^sup>* (p(t := ys @ rest), s1) ((p(t := ys @ rest))(t := rest), s2)"
    using assms(2) unfolding completes_def by (metis fun_upd_same)
  finally show "sys_step\<^sup>*\<^sup>* (p, s) (p(t := rest), s2)" by simp
qed

lemma completes_step:
  assumes "ready t s" "exec1 t ks s = Some (ks', s1)" "completes t ks' s1 s2"
  shows "completes t ks s s2"
  unfolding completes_def
proof (intro allI impI)
  fix p :: "tid \<Rightarrow> 'a sync_store_scheme cmd list" and rest
  assume p: "p t = ks @ rest"
  have s: "s\<lparr>cpu := t\<rparr> = s" and sch: "schedulable t s"
    using assms(1) by (auto simp: ready_def schedulable_def)
  have "exec1 t (p t) (s\<lparr>cpu := t\<rparr>) = Some (ks' @ rest, s1)"
    unfolding p s by (rule exec1_append [OF assms(2)])
  then have "sys_step (p, s) (p(t := ks' @ rest), s1)"
    by (rule sys_step.step [OF sch])
  also have "sys_step\<^sup>*\<^sup>* (p(t := ks' @ rest), s1) ((p(t := ks' @ rest))(t := rest), s2)"
    using assms(3) unfolding completes_def by (metis fun_upd_same)
  finally show "sys_step\<^sup>*\<^sup>* (p, s) (p(t := rest), s2)" by simp
qed

lemma completes_Do:
  assumes "ready t s" "completes t ks (f s) s'"
  shows "completes t (Do f # ks) s s'"
  by (rule completes_step [OF assms(1) _ assms(2)]) simp

lemma completes_If:
  assumes "ready t s" "completes t ((if b s then xs else ys) @ ks) s s'"
  shows "completes t (CIf b xs ys # ks) s s'"
  by (rule completes_step [OF assms(1) _ assms(2)]) simp

lemma completes_While_end:
  assumes "ready t s" "\<not> b s" "completes t ks s s'"
  shows "completes t (CWhile b xs # ks) s s'"
  by (rule completes_step [OF assms(1) _ assms(3)]) (simp add: assms(2))

lemma completes_test_and_set:
  assumes "ready t s" "\<not> sl_flag (spins s i)" "completes t ks (set_flag i True s) s'"
  shows "completes t (SpinTestAndSet i # ks) s s'"
  by (rule completes_step [OF assms(1) _ assms(3)]) (simp add: assms(2))

lemma completes_enter:
  assumes "ready t s" "completes t ks (s\<lparr>irq_off := irq_off s + 1\<rparr>) s'"
  shows "completes t (NointerruptEnter # ks) s s'"
  by (rule completes_step [OF assms(1) _ assms(2)]) simp

lemma completes_leave:
  assumes "ready t s" "completes t ks (s\<lparr>irq_off := irq_off s - 1\<rparr>) s'"
  shows "completes t (NointerruptLeave # ks) s s'"
  by (rule completes_step [OF assms(1) _ assms(2)]) simp

lemma completes_clear:
  assumes "ready t s" "completes t ks (set_flag i False s) s'"
  shows "completes t (SpinClear i # ks) s s'"
  by (rule completes_step [OF assms(1) _ assms(2)]) simp

definition wake :: "queue_ref \<Rightarrow> 'a sync_store_scheme \<Rightarrow> 'a sync_store_scheme" where
  "wake q s =
     (case wait_queue s q of [] \<Rightarrow> s
      | u # us \<Rightarrow> s\<lparr>wait_queue := (wait_queue s)(q := us), blocked := removeAll u (blocked s)\<rparr>)"

definition wake_all :: "queue_ref \<Rightarrow> 'a sync_store_scheme \<Rightarrow> 'a sync_store_scheme" where
  "wake_all q s =
     s\<lparr>wait_queue := (wait_queue s)(q := []),
       blocked := filter (\<lambda>t. t \<notin> set (wait_queue s q)) (blocked s)\<rparr>"

lemma completes_unblock:
  assumes "ready t s" "waiting q s" "completes t ks (wake q s) s'"
  shows "completes t (Unblock q # ks) s s'"
proof -
  have "exec1 t (Unblock q # ks) s = Some (ks, wake q s)"
    using assms(2) by (auto simp: wake_def split: list.split)
  then show ?thesis by (rule completes_step [OF assms(1) _ assms(3)])
qed

lemma ready_simps [simp]:
  "ready t (s\<lparr>irq_off := n\<rparr>) = ready t s"
  "ready t (set_flag i b s) = ready t s"
  "ready t (set_locked l b s) = ready t s"
  "ready t (add_value r d s) = ready t s"
  "ready t (upd_barrier r f s) = ready t s"
  by (simp_all add: ready_def set_flag_def set_locked_def add_value_def upd_barrier_def)

lemma ready_wake [simp]: "ready t s \<Longrightarrow> ready t (wake q s)" "ready t s \<Longrightarrow> ready t (wake_all q s)"
  by (auto simp: ready_def wake_def wake_all_def split: list.split)

lemma flag_simps [simp]:
  "sl_flag (spins (set_flag i b s) j) = (if j = i then b else sl_flag (spins s j))"
  "spins (set_locked l b s) = spins s"
  "spins (add_value r d s) = spins s"
  "spins (upd_barrier r f s) = spins s"
  "spins (wake q s) = spins s" "spins (wake_all q s) = spins s"
  by (auto simp: set_flag_def set_locked_def add_value_def upd_barrier_def wake_def wake_all_def
      split: list.split)

lemma queue_simps [simp]:
  "wait_queue (set_flag i b s) = wait_queue s"
  "wait_queue (set_locked l b s) = wait_queue s"
  "wait_queue (add_value r d s) = wait_queue s"
  "wait_queue (upd_barrier r f s) = wait_queue s"
  by (simp_all add: set_flag_def set_locked_def add_value_def upd_barrier_def)

lemma locked_simps [simp]:
  "lock_locked (set_flag i b s) = lock_locked s"
  "lock_locked (wake q s) = lock_locked s" "lock_locked (wake_all q s) = lock_locked s"
  "lock_locked (set_locked l b s) = (lock_locked s)(l := b)"
  by (auto simp: set_flag_def wake_def wake_all_def set_locked_def split: list.split)

lemma value_simps [simp]:
  "sem_value (set_flag i b s) = sem_value s"
  "sem_value (wake q s) = sem_value s"
  "sem_value (add_value r d s) = (sem_value s)(r := sem_value s r + d)"
  by (auto simp: set_flag_def wake_def add_value_def split: list.split)

text \<open>A flag that is clear, is set and cleared again is left as it was.\<close>

lemma set_flag_twice [simp]:
  "set_flag i b (set_flag i b' s) = set_flag i b s"
  by (simp add: set_flag_def)

lemma set_flag_idle: "\<not> sl_flag (spins s i) \<Longrightarrow> set_flag i False s = s"
  by (cases "spins s i") (auto simp: set_flag_def fun_upd_idem)

lemma set_flag_commute:
  "set_locked l b (set_flag i c s) = set_flag i c (set_locked l b s)"
  "add_value r d (set_flag i c s) = set_flag i c (add_value r d s)"
  "wake q (set_flag i c s) = set_flag i c (wake q s)"
  "wake_all q (set_flag i c s) = set_flag i c (wake_all q s)"
  by (auto simp: set_flag_def set_locked_def add_value_def wake_def wake_all_def split: list.split)


section \<open>The synchronisation functions without contention\<close>

lemma lock_acquire_completes:
  assumes "ready t s" "\<not> sl_flag (spins s (LockInner l))" "\<not> lock_locked s l"
  shows "completes t (lock_acquire l) s (set_locked l True s)"
proof -
  have "completes t [SpinTestAndSet (LockInner l),
      CWhile (is_locked l) (spinlock_release (LockInner l) @ [Block (LockQueue l)] @
        spinlock_acquire (LockInner l)),
      Do (set_locked l True), SpinClear (LockInner l)] s
    (set_flag (LockInner l) False (set_locked l True (set_flag (LockInner l) True s)))"
    using assms
    by (intro completes_test_and_set completes_While_end completes_Do completes_clear)
      simp_all
  then show ?thesis
    using assms(2) by (simp add: sync_api_defs set_flag_commute set_flag_idle)
qed

lemma lock_release_completes:
  assumes "ready t s" "\<not> sl_flag (spins s (LockInner l))"
  shows "completes t (lock_release l) s (wake (LockQueue l) (set_locked l False s))"
proof (cases "waiting (LockQueue l) s")
  case True
  with assms show ?thesis
    by (auto simp: sync_api_defs set_flag_commute set_flag_idle
        intro!: completes_test_and_set completes_If completes_Do completes_clear completes_unblock)
next
  case False
  then have w: "wake (LockQueue l) (set_locked l False s) = set_locked l False s"
    by (simp add: wake_def)
  show ?thesis unfolding w using assms False
    by (auto simp: sync_api_defs set_flag_commute set_flag_idle
        intro!: completes_test_and_set completes_If completes_Do completes_clear)
qed

lemma condition_signal_completes:
  assumes "ready t s" "\<not> sl_flag (spins s (CondInner c))"
  shows "completes t (condition_signal c) s (wake (CondQueue c) s)"
proof (cases "waiting (CondQueue c) s")
  case True
  with assms show ?thesis
    by (auto simp: sync_api_defs cond_api_defs set_flag_commute set_flag_idle
        intro!: completes_test_and_set completes_If completes_clear completes_unblock)
next
  case False
  then have w: "wake (CondQueue c) s = s" by (simp add: wake_def)
  show ?thesis unfolding w using assms False
    by (auto simp: sync_api_defs cond_api_defs set_flag_idle
        intro!: completes_test_and_set completes_If completes_clear)
qed

text \<open>The broadcast loop ends because every round shortens the queue.\<close>

lemma wake_wake_all: "wake_all q (wake q s) = wake_all q s"
proof (cases "wait_queue s q")
  case (Cons u us)
  then have "filter (\<lambda>t. t \<notin> set us) (removeAll u (blocked s)) =
      filter (\<lambda>t. t \<notin> set (wait_queue s q)) (blocked s)"
    by (auto simp: removeAll_filter_not_eq intro!: filter_cong)
  with Cons show ?thesis by (simp add: wake_def wake_all_def)
qed (simp add: wake_def)

lemma unblock_loop_completes:
  assumes "ready t s" "completes t ks (wake_all q s) s'"
  shows "completes t (CWhile (waiting q) [Unblock q] # ks) s s'"
  using assms
proof (induction "length (wait_queue s q)" arbitrary: s)
  case 0
  then have "wake_all q s = s" by (simp add: wake_all_def fun_upd_idem)
  with 0 show ?case by (intro completes_While_end) simp_all
next
  case (Suc n)
  then have w: "waiting q s" by auto
  have n: "n = length (wait_queue (wake q s) q)"
    using Suc.hyps(2) by (auto simp: wake_def split: list.split)
  have "completes t (CWhile (waiting q) [Unblock q] # ks) (wake q s) s'"
    by (rule Suc.hyps(1) [OF n]) (use Suc.prems in \<open>simp_all add: wake_wake_all\<close>)
  then have "completes t (Unblock q # CWhile (waiting q) [Unblock q] # ks) s s'"
    by (rule completes_unblock [OF Suc.prems(1) w])
  then show ?case
    using w by (intro completes_step [OF Suc.prems(1), of "CWhile (waiting q) [Unblock q] # ks"]) simp_all
qed

lemma condition_broadcast_completes:
  assumes "ready t s" "\<not> sl_flag (spins s (CondInner c))"
  shows "completes t (condition_broadcast c) s (wake_all (CondQueue c) s)"
  using assms
  by (auto simp: sync_api_defs cond_api_defs set_flag_commute set_flag_idle
      intro!: completes_test_and_set completes_clear unblock_loop_completes)

lemma semaphore_up_completes:
  assumes "ready t s" "\<not> sl_flag (spins s (SemInner r))"
  shows "completes t (semaphore_up r) s
    (if sem_value s r < 0 then wake (SemQueue r) (add_value r 1 s) else add_value r 1 s)"
proof (cases "sem_value s r < 0 \<and> waiting (SemQueue r) s")
  case True
  with assms show ?thesis
    by (auto simp: sync_api_defs sem_api_defs set_flag_commute set_flag_idle
        intro!: completes_test_and_set completes_If completes_Do completes_clear completes_unblock)
next
  case False
  then have w: "(if sem_value s r < 0 then wake (SemQueue r) (add_value r 1 s) else add_value r 1 s) =
      add_value r 1 s"
    by (auto simp: wake_def)
  show ?thesis unfolding w using assms False
    by (auto simp: sync_api_defs sem_api_defs set_flag_commute set_flag_idle
        intro!: completes_test_and_set completes_If completes_Do completes_clear)
qed

lemma semaphore_down_completes:
  assumes "ready t s" "\<not> sl_flag (spins s (SemInner r))" "0 < sem_value s r"
  shows "completes t (semaphore_down r) s (add_value r (- 1) s)"
  using assms
  by (auto simp: sync_api_defs sem_api_defs set_flag_commute set_flag_idle
      intro!: completes_test_and_set completes_If completes_Do completes_clear)

end
