(* ===== verification/LockSafety.thy ===== *)
theory LockSafety
  imports SyncRuns
begin

text \<open>
  The blocking lock under every interleaving: threads that loop over
  acquiring a lock, working on shared data and releasing the lock.  A point
  names where a thread stands in that loop; \<open>code\<close> gives the statements it
  has left.  \<open>lock_inv\<close> is the invariant over the points and the store.
\<close>

section \<open>Points of a thread that uses the lock\<close>

definition critical_loop :: "ref \<Rightarrow> ('a sync_store_scheme \<Rightarrow> 'a sync_store_scheme) list \<Rightarrow>
    'a sync_store_scheme cmd list" where
  "critical_loop l fs =
     [CWhile (\<lambda>_. True) (lock_acquire l @ map Do fs @ lock_release l)]"

datatype point =
    Idle | ATry | ATest | ARelease | ABlock | ASet | AClear
  | Crit nat
  | RTry | RFree | RWake | RUnblock | RClear

fun point_rank :: "point \<Rightarrow> nat" where
  "point_rank Idle = 0"
| "point_rank RClear = 1"
| "point_rank RUnblock = 2"
| "point_rank RWake = 2"
| "point_rank RFree = 3"
| "point_rank RTry = 4"
| "point_rank (Crit k) = 5"
| "point_rank AClear = 6"
| "point_rank ASet = 7"
| "point_rank ATest = 8"
| "point_rank ATry = 9"
| "point_rank ABlock = 10"
| "point_rank ARelease = 11"

function code :: "ref \<Rightarrow> ('a sync_store_scheme \<Rightarrow> 'a sync_store_scheme) list \<Rightarrow> point \<Rightarrow>
    'a sync_store_scheme cmd list" where
  "code l fs Idle = critical_loop l fs"
| "code l fs RClear = SpinClear (LockInner l) # critical_loop l fs"
| "code l fs RUnblock = Unblock (LockQueue l) # code l fs RClear"
| "code l fs RWake = CIf (waiting (LockQueue l)) [Unblock (LockQueue l)] [] # code l fs RClear"
| "code l fs RFree = Do (set_locked l False) # code l fs RWake"
| "code l fs RTry = SpinTestAndSet (LockInner l) # code l fs RFree"
| "code l fs (Crit k) = map Do (drop k fs) @ code l fs RTry"
| "code l fs AClear = SpinClear (LockInner l) # code l fs (Crit 0)"
| "code l fs ASet = Do (set_locked l True) # code l fs AClear"
| "code l fs ATest =
     CWhile (is_locked l)
       [SpinClear (LockInner l), Block (LockQueue l), SpinTestAndSet (LockInner l)] #
     code l fs ASet"
| "code l fs ATry = SpinTestAndSet (LockInner l) # code l fs ATest"
| "code l fs ABlock = Block (LockQueue l) # code l fs ATry"
| "code l fs ARelease = SpinClear (LockInner l) # code l fs ABlock"
  by pat_completeness auto
termination
  by (relation "measure (\<lambda>(l, fs, x). point_rank x)") auto

definition in_section :: "ref \<Rightarrow> ('a sync_store_scheme \<Rightarrow> 'a sync_store_scheme) list \<Rightarrow>
    'a sync_store_scheme cmd list \<Rightarrow> bool" where
  "in_section l fs ks \<longleftrightarrow>
     (\<exists>k\<le>length fs. ks = map Do (drop k fs) @ lock_release l @ critical_loop l fs)"

lemma loop_unfold:
  "lock_acquire l @ map Do fs @ lock_release l @ critical_loop l fs = code l fs ATry"
  by (simp add: sync_api_defs)

lemma release_code: "lock_release l @ critical_loop l fs = code l fs RTry"
  by (simp add: sync_api_defs)

fun holds_inner :: "point \<Rightarrow> bool" where
  "holds_inner ATest = True"
| "holds_inner ARelease = True"
| "holds_inner ASet = True"
| "holds_inner AClear = True"
| "holds_inner RFree = True"
| "holds_inner RWake = True"
| "holds_inner RUnblock = True"
| "holds_inner RClear = True"
| "holds_inner _ = False"

fun owns_lock :: "point \<Rightarrow> bool" where
  "owns_lock AClear = True"
| "owns_lock (Crit k) = True"
| "owns_lock RTry = True"
| "owns_lock RFree = True"
| "owns_lock _ = False"

lemma code_length:
  "length (code l fs x) =
     (case x of Idle \<Rightarrow> 1 | RClear \<Rightarrow> 2 | RUnblock \<Rightarrow> 3 | RWake \<Rightarrow> 3 | RFree \<Rightarrow> 4 | RTry \<Rightarrow> 5
      | Crit k \<Rightarrow> 5 + (length fs - k) | AClear \<Rightarrow> 6 + length fs | ASet \<Rightarrow> 7 + length fs
      | ATest \<Rightarrow> 8 + length fs | ATry \<Rightarrow> 9 + length fs | ABlock \<Rightarrow> 10 + length fs
      | ARelease \<Rightarrow> 11 + length fs)"
  by (cases x) (simp_all add: critical_loop_def)

lemma in_section_owns:
  assumes "in_section l fs (code l fs x)"
  shows "owns_lock x"
proof -
  obtain k where "k \<le> length fs" "code l fs x = map Do (drop k fs) @ code l fs RTry"
    using assms by (auto simp: in_section_def release_code)
  then have "length (code l fs x) = length fs - k + 5"
    by (simp add: critical_loop_def)
  then show ?thesis
    by (cases x) (simp_all add: code_length del: code.simps)
qed


section \<open>The invariant\<close>

abbreviation lock_flag :: "ref \<Rightarrow> 'a sync_store_scheme \<Rightarrow> bool" where
  "lock_flag l s \<equiv> sl_flag (spins s (LockInner l))"

text \<open>
  A resource that at most one thread holds: \<open>b\<close> is set while a thread is at
  one of its points.
\<close>

definition held :: "(point \<Rightarrow> bool) \<Rightarrow> (tid \<Rightarrow> point) \<Rightarrow> bool \<Rightarrow> bool" where
  "held P pc b \<longleftrightarrow>
     (\<forall>t. P (pc t) \<longrightarrow> b) \<and> (\<forall>t u. P (pc t) \<longrightarrow> P (pc u) \<longrightarrow> t = u)"

lemma held_keep:
  assumes "held P pc b" "P x \<longrightarrow> P (pc t)"
  shows "held P (pc(t := x)) b"
  using assms by (auto simp: held_def)

lemma held_take:
  assumes "held P pc False"
  shows "held P (pc(t := x)) True"
  using assms by (auto simp: held_def)

lemma held_drop:
  assumes "\<And>u. u \<noteq> t \<Longrightarrow> \<not> P (pc u)" "\<not> P x"
  shows "held P (pc(t := x)) b"
  using assms by (auto simp: held_def)

lemma held_other:
  assumes "held P pc b" "P (pc t)" "u \<noteq> t"
  shows "\<not> P (pc u)"
  using assms by (auto simp: held_def)

definition lock_inv :: "ref \<Rightarrow> (tid \<Rightarrow> point) \<Rightarrow> 'a sync_store_scheme \<Rightarrow> bool" where
  "lock_inv l pc s \<longleftrightarrow>
     held holds_inner pc (lock_flag l s) \<and>
     held owns_lock pc (lock_locked s l) \<and>
     (\<forall>t. pc t = ASet \<longrightarrow> \<not> lock_locked s l) \<and>
     (\<forall>t. pc t = RUnblock \<longrightarrow> wait_queue s (LockQueue l) \<noteq> [])"

definition keeps_lock :: "ref \<Rightarrow> ('a sync_store_scheme \<Rightarrow> 'a sync_store_scheme) \<Rightarrow> bool" where
  "keeps_lock l f \<longleftrightarrow>
     (\<forall>s. spins (f s) (LockInner l) = spins s (LockInner l) \<and>
          lock_locked (f s) l = lock_locked s l \<and>
          wait_queue (f s) (LockQueue l) = wait_queue s (LockQueue l))"

definition after_section :: "nat \<Rightarrow> 'b list \<Rightarrow> point" where
  "after_section k fs = (if k < length fs then Crit k else RTry)"

lemma code_after: "code l fs (Crit k) = code l fs (after_section k fs)"
  by (simp add: after_section_def)

lemma critical_step:
  assumes "k < length fs"
  shows "exec1 t (code l fs (Crit k)) s =
    Some (code l fs (after_section (Suc k) fs), (fs ! k) s)"
  by (simp add: Cons_nth_drop_Suc [OF assms, symmetric] flip: code_after)

fun point_step :: "ref \<Rightarrow> ('a sync_store_scheme \<Rightarrow> 'a sync_store_scheme) list \<Rightarrow> tid \<Rightarrow>
    'a sync_store_scheme \<Rightarrow> point \<Rightarrow> point \<times> 'a sync_store_scheme" where
  "point_step l fs t s Idle = (ATry, s)"
| "point_step l fs t s ATry =
     (if lock_flag l s then (ATry, s) else (ATest, set_flag (LockInner l) True s))"
| "point_step l fs t s ATest = (if lock_locked s l then ARelease else ASet, s)"
| "point_step l fs t s ARelease = (ABlock, set_flag (LockInner l) False s)"
| "point_step l fs t s ABlock =
     (ATry, s\<lparr>wait_queue := (wait_queue s)(LockQueue l := wait_queue s (LockQueue l) @ [t]),
              blocked := t # blocked s\<rparr>)"
| "point_step l fs t s ASet = (AClear, set_locked l True s)"
| "point_step l fs t s AClear = (after_section 0 fs, set_flag (LockInner l) False s)"
| "point_step l fs t s (Crit k) = (after_section (Suc k) fs, (fs ! k) s)"
| "point_step l fs t s RTry =
     (if lock_flag l s then (RTry, s) else (RFree, set_flag (LockInner l) True s))"
| "point_step l fs t s RFree = (RWake, set_locked l False s)"
| "point_step l fs t s RWake =
     (if waiting (LockQueue l) s then RUnblock else RClear, s)"
| "point_step l fs t s RUnblock =
     (RClear, s\<lparr>wait_queue := (wait_queue s)(LockQueue l := tl (wait_queue s (LockQueue l))),
                blocked := removeAll (hd (wait_queue s (LockQueue l))) (blocked s)\<rparr>)"
| "point_step l fs t s RClear = (Idle, set_flag (LockInner l) False s)"

lemma exec1_point:
  assumes "\<And>k. x = Crit k \<Longrightarrow> k < length fs"
    and "x = RUnblock \<Longrightarrow> wait_queue s (LockQueue l) \<noteq> []"
    and "point_step l fs t s x = (x', s')"
  shows "exec1 t (code l fs x) s = Some (code l fs x', s')"
proof (cases x)
  case (Crit k)
  with assms show ?thesis by (simp add: critical_step del: code.simps)
next
  case Idle
  with assms(3) loop_unfold [of l fs] show ?thesis by (simp add: critical_loop_def)
next
  case RUnblock
  with assms show ?thesis by (auto split: list.split)
next
  case AClear
  with assms(3) show ?thesis by (auto simp: after_section_def)
next
  case ATest
  with assms(3) show ?thesis by (cases "lock_locked s l") auto
next
  case RWake
  with assms(3) show ?thesis by (cases "waiting (LockQueue l) s") auto
next
  case ATry
  with assms(3) show ?thesis by (cases "lock_flag l s") auto
next
  case RTry
  with assms(3) show ?thesis by (cases "lock_flag l s") auto
qed (use assms(3) in simp_all)

text \<open>Only the thread that holds the inner lock can be at one of its points.\<close>

lemma inner_points:
  assumes "held holds_inner pc b" "holds_inner (pc t)" "u \<noteq> t"
  shows "pc u \<noteq> ASet" "pc u \<noteq> RUnblock"
  using held_other [OF assms] by auto

lemma lock_invI:
  assumes "held holds_inner (pc(t := x)) (lock_flag l s')"
    and "held owns_lock (pc(t := x)) (lock_locked s' l)"
    and "x = ASet \<Longrightarrow> \<not> lock_locked s' l"
    and "x = RUnblock \<Longrightarrow> wait_queue s' (LockQueue l) \<noteq> []"
    and "\<And>u. u \<noteq> t \<Longrightarrow> pc u = ASet \<Longrightarrow> \<not> lock_locked s' l"
    and "\<And>u. u \<noteq> t \<Longrightarrow> pc u = RUnblock \<Longrightarrow> wait_queue s' (LockQueue l) \<noteq> []"
  shows "lock_inv l (pc(t := x)) s'"
  using assms by (auto simp: lock_inv_def)

lemma lock_inv_step:
  assumes inv: "lock_inv l pc s"
    and crit: "\<And>k. pc t = Crit k \<Longrightarrow> k < length fs"
    and keep: "\<forall>f\<in>set fs. keeps_lock l f"
    and step: "point_step l fs t s (pc t) = (x', s')"
  shows "lock_inv l (pc(t := x')) s'"
proof -
  have inner: "held holds_inner pc (lock_flag l s)"
    and owner: "held owns_lock pc (lock_locked s l)"
    and aset: "\<And>u. pc u = ASet \<Longrightarrow> \<not> lock_locked s l"
    and wake: "\<And>u. pc u = RUnblock \<Longrightarrow> wait_queue s (LockQueue l) \<noteq> []"
    using inv by (auto simp: lock_inv_def)
  note moves = held_keep held_take held_drop store_defs
  have drop_inner: "\<And>u. u \<noteq> t \<Longrightarrow> \<not> holds_inner (pc u)" if "holds_inner (pc t)"
    using held_other [OF inner that] .
  have drop_owner: "\<And>u. u \<noteq> t \<Longrightarrow> \<not> owns_lock (pc u)" if "owns_lock (pc t)"
    using held_other [OF owner that] .
  have other: "pc u \<noteq> ASet" "pc u \<noteq> RUnblock" if "holds_inner (pc t)" "u \<noteq> t" for u
    using inner_points [OF inner that] by auto
  show ?thesis
  proof (cases "pc t")
    case (Crit k)
    have k: "keeps_lock l (fs ! k)" using crit keep Crit by simp
    have x: "x' = after_section (Suc k) fs" "s' = (fs ! k) s" using step Crit by simp_all
    have a: "after_section (Suc k) fs \<noteq> ASet" "after_section (Suc k) fs \<noteq> RUnblock"
      "\<not> holds_inner (after_section (Suc k) fs)"
      by (simp_all add: after_section_def)
    show ?thesis unfolding x
      by (rule lock_invI) (use inner owner k Crit a aset wake in \<open>auto simp: keeps_lock_def held_keep\<close>)
  next
    case ATry
    show ?thesis
    proof (cases "lock_flag l s")
      case True
      then have x: "x' = pc t" "s' = s" using step ATry by simp_all
      show ?thesis unfolding x using inv by (simp add: fun_upd_idem)
    next
      case False
      have x: "x' = ATest" "s' = set_flag (LockInner l) True s" using step ATry False by simp_all
      show ?thesis unfolding x
        by (rule lock_invI) (use inner owner ATry False aset wake in \<open>auto simp: moves\<close>)
    qed
  next
    case RTry
    show ?thesis
    proof (cases "lock_flag l s")
      case True
      then have x: "x' = pc t" "s' = s" using step RTry by simp_all
      show ?thesis unfolding x using inv by (simp add: fun_upd_idem)
    next
      case False
      have x: "x' = RFree" "s' = set_flag (LockInner l) True s" using step RTry False by simp_all
      show ?thesis unfolding x
        by (rule lock_invI) (use inner owner RTry False aset wake in \<open>auto simp: moves\<close>)
    qed
  next
    case ATest
    show ?thesis
    proof (cases "lock_locked s l")
      case True
      have x: "x' = ARelease" "s' = s" using step ATest True by simp_all
      show ?thesis unfolding x
        by (rule lock_invI) (use inner owner ATest True other in \<open>auto simp: moves\<close>)
    next
      case False
      have x: "x' = ASet" "s' = s" using step ATest False by simp_all
      show ?thesis unfolding x
        by (rule lock_invI) (use inner owner ATest False other in \<open>auto simp: moves\<close>)
    qed
  next
    case RWake
    show ?thesis
    proof (cases "waiting (LockQueue l) s")
      case True
      have x: "x' = RUnblock" "s' = s" using step RWake True by simp_all
      show ?thesis unfolding x
        by (rule lock_invI) (use inner owner RWake True other in \<open>auto simp: moves\<close>)
    next
      case False
      have x: "x' = RClear" "s' = s" using step RWake False by simp_all
      show ?thesis unfolding x
        by (rule lock_invI) (use inner owner RWake False other in \<open>auto simp: moves\<close>)
    qed
  next
    case AClear
    have x: "x' = after_section 0 fs" "s' = set_flag (LockInner l) False s" using step AClear by simp_all
    show ?thesis unfolding x
      by (rule lock_invI) (use inner owner AClear other drop_inner drop_owner in \<open>auto simp: moves after_section_def split: if_split_asm\<close>)
  next
    case ASet
    have x: "x' = AClear" "s' = set_locked l True s" using step ASet by simp_all
    show ?thesis unfolding x
      by (rule lock_invI) (use inner owner ASet aset [of t] other in \<open>auto simp: moves\<close>)
  next
    case Idle
    have x: "x' = ATry" "s' = s" using step Idle by simp_all
    show ?thesis unfolding x
      by (rule lock_invI) (use inner owner Idle aset wake in \<open>auto simp: moves\<close>)
  next
    case ABlock
    have x: "x' = ATry" "s' = s\<lparr>wait_queue := (wait_queue s)(LockQueue l := wait_queue s (LockQueue l) @ [t]),
              blocked := t # blocked s\<rparr>" using step ABlock by simp_all
    show ?thesis unfolding x
      by (rule lock_invI) (use inner owner ABlock aset wake in \<open>auto simp: moves\<close>)
  next
    case ARelease
    have x: "x' = ABlock" "s' = set_flag (LockInner l) False s" using step ARelease by simp_all
    show ?thesis unfolding x
      by (rule lock_invI) (use inner owner ARelease other drop_inner drop_owner in \<open>auto simp: moves\<close>)
  next
    case RFree
    have x: "x' = RWake" "s' = set_locked l False s" using step RFree by simp_all
    show ?thesis unfolding x
      by (rule lock_invI) (use inner owner RFree other drop_inner drop_owner in \<open>auto simp: moves\<close>)
  next
    case RUnblock
    have x: "x' = RClear" "s' = s\<lparr>wait_queue := (wait_queue s)(LockQueue l := tl (wait_queue s (LockQueue l))),
                blocked := removeAll (hd (wait_queue s (LockQueue l))) (blocked s)\<rparr>" using step RUnblock by simp_all
    show ?thesis unfolding x
      by (rule lock_invI) (use inner owner RUnblock other in \<open>auto simp: moves\<close>)
  next
    case RClear
    have x: "x' = Idle" "s' = set_flag (LockInner l) False s" using step RClear by simp_all
    show ?thesis unfolding x
      by (rule lock_invI) (use inner owner RClear other drop_inner drop_owner in \<open>auto simp: moves\<close>)
  qed
qed


section \<open>Reachable configurations\<close>

definition lock_ok :: "ref \<Rightarrow> (tid \<Rightarrow> ('a sync_store_scheme \<Rightarrow> 'a sync_store_scheme) list) \<Rightarrow>
    'a sync_store_scheme conf \<Rightarrow> bool" where
  "lock_ok l fs c \<longleftrightarrow>
     (\<exists>pc. (\<forall>t. fst c t = code l (fs t) (pc t)) \<and>
           (\<forall>t k. pc t = Crit k \<longrightarrow> k < length (fs t)) \<and>
           lock_inv l pc (snd c))"

lemma point_step_crit:
  assumes "\<And>k. x = Crit k \<Longrightarrow> k < length fs" "point_step l fs t s x = (Crit k, s')"
  shows "k < length fs"
  using assms by (cases x) (auto simp: after_section_def split: if_split_asm)

lemma lock_inv_cpu [simp]: "lock_inv l pc (s\<lparr>cpu := t\<rparr>) = lock_inv l pc s"
  by (simp add: lock_inv_def)

lemma lock_ok_step:
  assumes step: "sys_step c c'" and ok: "lock_ok l fs c"
    and keep: "\<forall>t. \<forall>f\<in>set (fs t). keeps_lock l f"
  shows "lock_ok l fs c'"
proof -
  obtain t p s ks s' where c: "c = (p, s)" "c' = (p(t := ks), s')"
    and ex: "exec1 t (p t) (s\<lparr>cpu := t\<rparr>) = Some (ks, s')"
    using step by (auto elim: sys_step.cases)
  obtain pc where p: "\<And>t. p t = code l (fs t) (pc t)"
    and crit: "\<And>t k. pc t = Crit k \<Longrightarrow> k < length (fs t)"
    and inv: "lock_inv l pc (s\<lparr>cpu := t\<rparr>)"
    using ok c(1) by (auto simp: lock_ok_def)
  obtain x s2 where ps: "point_step l (fs t) t (s\<lparr>cpu := t\<rparr>) (pc t) = (x, s2)"
    by force
  have wake: "wait_queue (s\<lparr>cpu := t\<rparr>) (LockQueue l) \<noteq> []" if "pc t = RUnblock"
    using inv that by (auto simp: lock_inv_def)
  have "exec1 t (p t) (s\<lparr>cpu := t\<rparr>) = Some (code l (fs t) x, s2)"
    unfolding p by (rule exec1_point [OF crit wake ps])
  then have ks: "ks = code l (fs t) x" "s' = s2" using ex by simp_all
  have "lock_inv l (pc(t := x)) s2"
    by (rule lock_inv_step [OF inv crit spec [OF keep] ps])
  moreover have "k < length (fs u)" if "(pc(t := x)) u = Crit k" for u k
    using that crit ps point_step_crit [of "pc t" "fs t" l t] by (cases "u = t") auto
  moreover have "(p(t := ks)) u = code l (fs u) ((pc(t := x)) u)" for u
    using p ks by simp
  ultimately show ?thesis
    using ks by (auto simp: lock_ok_def c(2) intro!: exI [of _ "pc(t := x)"])
qed

lemma lock_ok_reach:
  assumes "sys_step\<^sup>*\<^sup>* c c'" "lock_ok l fs c" "\<forall>t. \<forall>f\<in>set (fs t). keeps_lock l f"
  shows "lock_ok l fs c'"
  using assms(1,2) by induction (blast, rule lock_ok_step [OF _ _ assms(3)])

lemma lock_ok_init:
  assumes "\<not> lock_flag l s" "\<not> lock_locked s l"
  shows "lock_ok l fs (\<lambda>t. critical_loop l (fs t), s)"
  using assms by (auto simp: lock_ok_def lock_inv_def held_def intro!: exI [of _ "\<lambda>_. Idle"])

lemma lock_ok_exclusive:
  assumes "lock_ok l fs (p, s)" "in_section l (fs t) (p t)" "in_section l (fs u) (p u)"
  shows "t = u" "lock_locked s l"
proof -
  obtain pc where p: "\<And>t. p t = code l (fs t) (pc t)" and inv: "lock_inv l pc s"
    using assms(1) by (auto simp: lock_ok_def)
  have "owns_lock (pc t)" "owns_lock (pc u)"
    using assms(2,3) in_section_owns unfolding p by blast+
  then show "t = u" "lock_locked s l" using inv by (auto simp: lock_inv_def held_def)
qed

lemma lock_ok_unblock:
  assumes "lock_ok l fs (p, s)" "t \<notin> set (blocked s)"
  shows "exec1 t (p t) s \<noteq> None"
proof -
  obtain pc where p: "\<And>t. p t = code l (fs t) (pc t)" and inv: "lock_inv l pc s"
    and crit: "\<And>t k. pc t = Crit k \<Longrightarrow> k < length (fs t)"
    using assms(1) by (auto simp: lock_ok_def)
  obtain x s2 where ps: "point_step l (fs t) t s (pc t) = (x, s2)" by force
  have wake: "wait_queue s (LockQueue l) \<noteq> []" if "pc t = RUnblock"
    using inv that by (auto simp: lock_inv_def)
  show ?thesis unfolding p using exec1_point [OF crit wake ps] by simp
qed

end
