(* ===== verification/MboxRing.thy ===== *)
theory MboxRing
  imports Mbox
begin

text \<open>
  What a mailbox stands for: the list of the messages in it, oldest first.
  \<open>mbox_rep\<close> relates the circular buffer to that list; sending appends to the
  list and receiving takes its first element.
\<close>

definition le_word :: "u8 list \<Rightarrow> u32" where
  "le_word bs = read32 (\<lambda>a. bs ! unat a) 0"

definition msg_ok :: "u8 list \<Rightarrow> bool" where
  "msg_ok bs \<longleftrightarrow> 4 \<le> length bs \<and> le_word bs = of_nat (length bs - 4)"

definition ring_bytes :: "(int \<Rightarrow> u8) \<Rightarrow> int \<Rightarrow> nat \<Rightarrow> u8 list" where
  "ring_bytes buf start n = map (\<lambda>i. buf ((start + int i) mod BUFFER_SIZE)) [0..<n]"

definition in_ring :: "int \<Rightarrow> bool" where
  "in_ring i \<longleftrightarrow> 0 \<le> i \<and> i < BUFFER_SIZE"

definition mbox_rep :: "mbox \<Rightarrow> u8 list list \<Rightarrow> bool" where
  "mbox_rep b msgs \<longleftrightarrow>
     in_ring (mb_head b) \<and> in_ring (mb_tail b) \<and>
     mb_count b = int (length msgs) \<and> list_all msg_ok msgs \<and>
     int (length (concat msgs)) \<le> BUFFER_SIZE \<and>
     mb_head b = (mb_tail b + int (length (concat msgs))) mod BUFFER_SIZE \<and>
     ring_bytes (mb_buffer b) (mb_tail b) (length (concat msgs)) = concat msgs"


section \<open>Copying\<close>

lemma BUFFER_SIZE_pos [simp]: "0 < BUFFER_SIZE" "0 \<le> BUFFER_SIZE" "BUFFER_SIZE \<noteq> 0"
  by (simp_all add: BUFFER_SIZE_def)

lemma c_rem_nonneg:
  assumes "0 \<le> a"
  shows "c_rem a BUFFER_SIZE = a mod BUFFER_SIZE"
proof (cases "a = 0")
  case False
  then have "sgn a = 1" "\<bar>a\<bar> = a" "\<bar>BUFFER_SIZE\<bar> = BUFFER_SIZE" using assms by simp_all
  then show ?thesis unfolding c_rem_def by simp
qed (simp add: c_rem_def)

lemma length_ring_bytes [simp]: "length (ring_bytes buf a n) = n"
  by (simp add: ring_bytes_def)

lemma nth_ring_bytes [simp]:
  "i < n \<Longrightarrow> ring_bytes buf a n ! i = buf ((a + int i) mod BUFFER_SIZE)"
  by (simp add: ring_bytes_def)

lemma ring_bytes_append:
  "ring_bytes buf a (n + k) = ring_bytes buf a n @ ring_bytes buf ((a + int n) mod BUFFER_SIZE) k"
proof -
  have "((a + int n) mod BUFFER_SIZE + int (i - n)) mod BUFFER_SIZE = (a + int i) mod BUFFER_SIZE"
    if "\<not> i < n" for i
  proof -
    have "a + int n + int (i - n) = a + int i" using that by simp
    then show ?thesis unfolding mod_add_left_eq by (rule arg_cong)
  qed
  then show ?thesis by (intro nth_equalityI) (simp_all add: nth_append del: of_nat_diff)
qed

lemma fold_store:
  assumes "k \<le> length bs" "length bs \<le> 2 ^ 32"
  shows "fold (\<lambda>i mem. mem(a + of_nat i := bs ! i)) [0..<k] m = store_bytes a (take k bs) m"
  using assms(1)
proof (induction k)
  case (Suc k)
  then have k: "k < length bs" "k < 4294967296" using assms(2) by simp_all
  have "(store_bytes a (take k bs) m)(a + of_nat k := bs ! k) = store_bytes a (take (Suc k) bs) m"
  proof
    fix x
    show "((store_bytes a (take k bs) m)(a + of_nat k := bs ! k)) x = store_bytes a (take (Suc k) bs) m x"
    proof (cases "x = a + of_nat k")
      case True
      then show ?thesis using k by (simp add: store_bytes_in)
    next
      case False
      moreover have "x = a + of_nat (unat (x - a))" by simp
      ultimately have "unat (x - a) \<noteq> k" by metis
      then show ?thesis using False k by (auto simp: store_bytes_def less_Suc_eq)
    qed
  qed
  then show ?case using Suc by (simp del: fun_upd_apply)
qed simp

lemma buffer_to_msg_store:
  assumes "0 \<le> start" "bytes \<le> 2 ^ 32"
  shows "buffer_to_msg buf start msg bytes mem =
    store_bytes msg (ring_bytes buf start (nat bytes)) mem"
proof -
  define bs where "bs = ring_bytes buf start (nat bytes)"
  have "fold (\<lambda>i mem. mem(msg + of_nat i := buf (c_rem (start + int i) BUFFER_SIZE))) [0..<nat bytes] mem =
    fold (\<lambda>i mem. mem(msg + of_nat i := bs ! i)) [0..<nat bytes] mem"
    by (rule fold_cong) (use assms(1) in \<open>auto simp: bs_def c_rem_nonneg\<close>)
  also have "\<dots> = store_bytes msg (take (nat bytes) bs) mem"
    by (rule fold_store) (use assms(2) in \<open>auto simp: bs_def\<close>)
  finally show ?thesis by (simp add: buffer_to_msg_def bs_def)
qed

text \<open>Offsets less than the buffer size apart lie on different bytes of the ring.\<close>

lemma ring_inj:
  assumes "i < j" "int j - int i < BUFFER_SIZE"
  shows "(start + int i) mod BUFFER_SIZE \<noteq> (start + int j) mod BUFFER_SIZE"
proof
  assume "(start + int i) mod BUFFER_SIZE = (start + int j) mod BUFFER_SIZE"
  then have "BUFFER_SIZE dvd (start + int j) - (start + int i)"
    by (metis mod_eq_dvd_iff)
  then have "BUFFER_SIZE dvd int j - int i" by simp
  then show False using assms by (auto dest!: zdvd_imp_le)
qed

lemma msg_to_buffer_nth:
  assumes "0 \<le> start" "n \<le> N" "int N \<le> BUFFER_SIZE" "i < N"
  shows "fold (\<lambda>i buf. buf(c_rem (start + int i) BUFFER_SIZE := bs i)) [0..<n] buf
           ((start + int i) mod BUFFER_SIZE) =
    (if i < n then bs i else buf ((start + int i) mod BUFFER_SIZE))"
  using assms(2)
proof (induction n)
  case (Suc n)
  have "(start + int i) mod BUFFER_SIZE \<noteq> (start + int n) mod BUFFER_SIZE" if "i \<noteq> n"
  proof (cases "i < n")
    case True
    then show ?thesis using ring_inj [of i n start] Suc.prems assms(3) by simp
  next
    case False
    then show ?thesis using ring_inj [of n i start] that assms(3,4) by force
  qed
  then show ?case using Suc assms(1) by (auto simp: c_rem_nonneg less_Suc_eq)
qed simp

lemma msg_to_buffer_cell:
  assumes "0 \<le> start" "int n \<le> BUFFER_SIZE" "int i < BUFFER_SIZE"
  shows "msg_to_buffer mem m (int n) buf start ((start + int i) mod BUFFER_SIZE) =
    (if i < n then mem (m + of_nat i) else buf ((start + int i) mod BUFFER_SIZE))"
proof -
  have "n \<le> nat BUFFER_SIZE" "i < nat BUFFER_SIZE" using assms(2,3) by simp_all
  then show ?thesis
    unfolding msg_to_buffer_def nat_int
    by (intro msg_to_buffer_nth [OF assms(1)]) simp_all
qed

lemma msg_to_buffer_new:
  assumes "0 \<le> start" "int n \<le> BUFFER_SIZE"
  shows "ring_bytes (msg_to_buffer mem m (int n) buf start) start n = load_bytes mem m n"
  by (rule nth_equalityI) (use assms in \<open>simp_all add: msg_to_buffer_cell\<close>)

text \<open>A message written at the head leaves the \<open>k\<close> bytes before the head alone.\<close>

lemma msg_to_buffer_old:
  assumes "in_ring tail" "head = (tail + int k) mod BUFFER_SIZE" "int k + int n \<le> BUFFER_SIZE"
  shows "ring_bytes (msg_to_buffer mem m (int n) buf head) tail k = ring_bytes buf tail k"
proof (rule nth_equalityI, simp_all only: length_ring_bytes nth_ring_bytes)
  fix i assume i: "i < k"
  define j where "j = nat (BUFFER_SIZE - int k) + i"
  have j: "int j = BUFFER_SIZE - int k + int i" using assms(3) by (simp add: j_def)
  have "(head + int j) mod BUFFER_SIZE = (tail + int k + int j) mod BUFFER_SIZE"
    unfolding assms(2) by (rule mod_add_left_eq)
  also have "tail + int k + int j = tail + int i + BUFFER_SIZE" using j by simp
  also have "(tail + int i + BUFFER_SIZE) mod BUFFER_SIZE = (tail + int i) mod BUFFER_SIZE"
    by (rule mod_add_self2)
  finally have cell: "(head + int j) mod BUFFER_SIZE = (tail + int i) mod BUFFER_SIZE" .
  have "0 \<le> head" unfolding assms(2) by simp
  moreover have "int j < BUFFER_SIZE" "\<not> j < n" using i j assms(3) by auto
  ultimately have "msg_to_buffer mem m (int n) buf head ((head + int j) mod BUFFER_SIZE) =
      buf ((head + int j) mod BUFFER_SIZE)"
    using assms(3) by (subst msg_to_buffer_cell) auto
  then show "msg_to_buffer mem m (int n) buf head ((tail + int i) mod BUFFER_SIZE) =
      buf ((tail + int i) mod BUFFER_SIZE)"
    unfolding cell .
qed


section \<open>Sending and receiving on the list of messages\<close>

lemma mbox_rep_total_bounds:
  assumes "mbox_rep b msgs"
  shows "length (concat msgs) = 0 \<longleftrightarrow> msgs = []"
  using assms by (cases msgs) (auto simp: mbox_rep_def msg_ok_def)

lemma space_available_rep:
  assumes rep: "mbox_rep b msgs"
  shows "space_available b = BUFFER_SIZE - int (length (concat msgs))"
proof -
  define k where "k = int (length (concat msgs))"
  have k: "0 \<le> k" "k \<le> BUFFER_SIZE" "mb_head b = (mb_tail b + k) mod BUFFER_SIZE"
    and t: "0 \<le> mb_tail b" "mb_tail b < BUFFER_SIZE"
    and c: "mb_count b = 0 \<longleftrightarrow> k = 0"
    using rep mbox_rep_total_bounds [OF rep] by (auto simp: mbox_rep_def k_def in_ring_def)
  have "space_available b = BUFFER_SIZE - k"
  proof (cases "mb_tail b + k < BUFFER_SIZE")
    case True
    then have "mb_head b = mb_tail b + k" using k t by simp
    then show ?thesis using c k(1,2) by (auto simp: space_available_def)
  next
    case False
    then have "(mb_tail b + k) mod BUFFER_SIZE = (mb_tail b + k - BUFFER_SIZE) mod BUFFER_SIZE"
      by simp
    also have "\<dots> = mb_tail b + k - BUFFER_SIZE" using False k t by (intro mod_pos_pos_trivial) auto
    finally have h: "mb_head b = mb_tail b + k - BUFFER_SIZE" using k(3) by simp
    have "k \<noteq> 0" using False t by auto
    then show ?thesis using c k(1,2) h by (auto simp: space_available_def)
  qed
  then show ?thesis by (simp add: k_def)
qed

lemma rep_send:
  assumes rep: "mbox_rep b msgs"
    and bs: "bs = load_bytes mem m n" "msg_ok bs"
    and room: "int n \<le> space_available b"
    and b': "mb_count b' = mb_count b + 1" "mb_tail b' = mb_tail b"
      "mb_head b' = c_rem (mb_head b + int n) BUFFER_SIZE"
      "mb_buffer b' = msg_to_buffer mem m (int n) (mb_buffer b) (mb_head b)"
  shows "mbox_rep b' (msgs @ [bs])"
proof -
  define k where "k = length (concat msgs)"
  have ring: "in_ring (mb_head b)" "in_ring (mb_tail b)"
    and head: "mb_head b = (mb_tail b + int k) mod BUFFER_SIZE"
    and old: "ring_bytes (mb_buffer b) (mb_tail b) k = concat msgs"
    using rep by (auto simp: mbox_rep_def k_def)
  have fits: "int k + int n \<le> BUFFER_SIZE"
    using room space_available_rep [OF rep] by (simp add: k_def)
  have len: "length bs = n" using bs(1) by simp
  have nn: "0 \<le> mb_head b" using ring by (simp add: in_ring_def)
  have h: "mb_head b' = (mb_tail b + int (k + n)) mod BUFFER_SIZE"
  proof -
    have "mb_head b' = (mb_head b + int n) mod BUFFER_SIZE" using nn by (simp add: b' c_rem_nonneg)
    then show ?thesis unfolding head mod_add_left_eq by (simp add: add.assoc)
  qed
  have "ring_bytes (mb_buffer b') (mb_tail b) (k + n) = concat msgs @ bs"
    unfolding ring_bytes_append b'(4) head [symmetric]
    using msg_to_buffer_old [OF ring(2) head fits] msg_to_buffer_new [OF nn] fits old bs(1) by simp
  then show ?thesis
    using rep bs h b' fits len
    by (simp add: mbox_rep_def k_def in_ring_def)
qed

lemma rep_recv:
  assumes rep: "mbox_rep b (bs # msgs)"
    and b': "mb_count b' = mb_count b - 1" "mb_head b' = mb_head b"
      "mb_tail b' = (mb_tail b + int (length bs)) mod BUFFER_SIZE" "mb_buffer b' = mb_buffer b"
  shows "mbox_rep b' msgs"
proof -
  define k where "k = length (concat msgs)"
  have "ring_bytes (mb_buffer b) (mb_tail b) (length bs + k) = bs @ concat msgs"
    and head: "mb_head b = (mb_tail b + int (length bs) + int k) mod BUFFER_SIZE"
    using rep by (simp_all add: mbox_rep_def k_def add.assoc)
  then have "ring_bytes (mb_buffer b) (mb_tail b') k = concat msgs"
    unfolding ring_bytes_append b' by simp
  moreover have "mb_head b = (mb_tail b' + int k) mod BUFFER_SIZE"
    unfolding head b' mod_add_left_eq ..
  ultimately show ?thesis
    using rep b' by (simp add: mbox_rep_def k_def in_ring_def)
qed

lemma rep_first:
  assumes "mbox_rep b (bs # msgs)"
  shows "ring_bytes (mb_buffer b) (mb_tail b) (length bs) = bs"
proof -
  have "ring_bytes (mb_buffer b) (mb_tail b) (length bs + length (concat msgs)) = bs @ concat msgs"
    using assms by (simp add: mbox_rep_def)
  then show ?thesis unfolding ring_bytes_append by simp
qed

end
