(* ===== verification/MboxRuns.thy ===== *)
theory MboxRuns
  imports MboxRing SyncRuns
begin

text \<open>
  Sending and receiving from beginning to end, by a thread that finds the
  monitor free: the whole of \<^verbatim>\<open>mbox_send\<close> and \<^verbatim>\<open>mbox_recv\<close> with their locking and
  signalling, related to the list of messages the mailbox stands for.
\<close>

definition monitor_free :: "int \<Rightarrow> 'a sync_store_scheme \<Rightarrow> bool" where
  "monitor_free q s \<longleftrightarrow>
     \<not> lock_locked s (mb_l q) \<and> \<not> sl_flag (spins s (LockInner (mb_l q))) \<and>
     \<not> sl_flag (spins s (CondInner (moreSpace q))) \<and> \<not> sl_flag (spins s (CondInner (moreData q)))"

lemma mbox_fields [simp]:
  "Q (set_locked l b s) = Q s" "Q (wake w s) = Q s" "Q (wake_all w s) = Q s"
  "umem (set_locked l b s) = umem s" "umem (wake w s) = umem s" "umem (wake_all w s) = umem s"
  "msgSize_of (set_locked l b s) = msgSize_of s"
  "Q (upd_mbox q f s) = (Q s)(q := f (Q s q))" "umem (upd_mbox q f s) = umem s"
  "msgSize_of (upd_mbox q f s) = msgSize_of s"
  by (auto simp: set_locked_def wake_def wake_all_def upd_mbox_def split: list.split)

lemma upd_mbox_sync [simp]:
  "spins (upd_mbox q f s) = spins s" "lock_locked (upd_mbox q f s) = lock_locked s"
  "wait_queue (upd_mbox q f s) = wait_queue s" "ready t (upd_mbox q f s) = ready t s"
  by (simp_all add: upd_mbox_def ready_def)

lemma umem_sync [simp]:
  "spins (s\<lparr>umem := m\<rparr>) = spins s" "ready t (s\<lparr>umem := m\<rparr>) = ready t s"
  "ready t (s\<lparr>msgSize_of := z\<rparr>) = ready t s"
  by (simp_all add: ready_def)

lemmas step_defs = send_copy_def send_head_def recv_header_def skip_header_def recv_body_def
  skip_body_def


section \<open>Sending\<close>

definition sent :: "tid \<Rightarrow> int \<Rightarrow> u32 \<Rightarrow> 'a mbox_store_scheme \<Rightarrow> 'a mbox_store_scheme" where
  "sent t q m s =
     wake (LockQueue (mb_l q)) (set_locked (mb_l q) False
       (upd_mbox q (\<lambda>b. b\<lparr>mb_count := mb_count b + 1\<rparr>)
         (wake (CondQueue (moreData q)) (send_head t q (send_copy t q m
           (set_locked (mb_l q) True
             (s\<lparr>msgSize_of := (msgSize_of s)(t := sint (MSG_SIZE (umem s) m))\<rparr>)))))))"

lemma mbox_send_completes:
  assumes "ready t s" "monitor_free q s" "sint (MSG_SIZE (umem s) m) \<le> space_available (Q s q)"
  shows "completes t (mbox_send t q m) s (sent t q m s)"
proof -
  define s1 where "s1 = s\<lparr>msgSize_of := (msgSize_of s)(t := sint (MSG_SIZE (umem s) m))\<rparr>"
  define s2 where "s2 = set_locked (mb_l q) True s1"
  define s3 where "s3 = send_head t q (send_copy t q m s2)"
  define s4 where "s4 = wake (CondQueue (moreData q)) s3"
  define s5 where "s5 = upd_mbox q (\<lambda>b. b\<lparr>mb_count := mb_count b + 1\<rparr>) s4"
  note free = assms(2) [unfolded monitor_free_def]
  have 1: "ready t s1" "spins s1 = spins s" "lock_locked s1 = lock_locked s" "Q s1 = Q s"
    "msgSize_of s1 t = sint (MSG_SIZE (umem s) m)"
    using assms(1) by (simp_all add: s1_def)
  have 2: "ready t s2" "spins s2 = spins s" "Q s2 = Q s" "msgSize_of s2 t = sint (MSG_SIZE (umem s) m)"
    using 1 by (simp_all add: s2_def)
  have 3: "ready t s3" "spins s3 = spins s" using 2 by (simp_all add: s3_def step_defs)
  have 4: "ready t s4" "spins s4 = spins s" using 3 by (simp_all add: s4_def)
  have 5: "ready t s5" "spins s5 = spins s" using 4 by (simp_all add: s5_def)
  have "completes t (mbox_send t q m) s (wake (LockQueue (mb_l q)) (set_locked (mb_l q) False s5))"
    unfolding mbox_send_def
  proof (intro completes_append)
    show "completes t [Do (\<lambda>s. s\<lparr>msgSize_of := (msgSize_of s)(t := sint (MSG_SIZE (umem s) m))\<rparr>)] s s1"
      by (rule completes_Do [OF assms(1)]) (simp add: s1_def)
    show "completes t (lock_acquire (mb_l q)) s1 s2"
      unfolding s2_def by (rule lock_acquire_completes) (use 1 free in simp_all)
    show "completes t [CWhile (\<lambda>s. space_available (Q s q) < msgSize_of s t)
        (condition_wait (mb_l q) (moreSpace q)), Do (send_copy t q m), Do (send_head t q)] s2 s3"
      by (intro completes_While_end completes_Do)
        (use 2 assms(3) in \<open>simp_all add: s3_def step_defs\<close>)
    show "completes t (condition_signal (moreData q)) s3 s4"
      unfolding s4_def by (rule condition_signal_completes) (use 3 free in simp_all)
    show "completes t [Do (upd_mbox q (\<lambda>b. b\<lparr>mb_count := mb_count b + 1\<rparr>))] s4 s5"
      by (rule completes_Do [OF 4(1)]) (simp add: s5_def)
    show "completes t (lock_release (mb_l q)) s5 (wake (LockQueue (mb_l q)) (set_locked (mb_l q) False s5))"
      by (rule lock_release_completes) (use 5 free in simp_all)
  qed
  then show ?thesis by (simp add: sent_def s1_def s2_def s3_def s4_def s5_def)
qed

text \<open>The bytes of the message at address \<open>m\<close>: header and body.\<close>

definition msg_at :: "pmem_t \<Rightarrow> u32 \<Rightarrow> u8 list" where
  "msg_at mem m = load_bytes mem m (nat (sint (MSG_SIZE mem m)))"

lemma le_word_load: "4 \<le> n \<Longrightarrow> le_word (load_bytes mem m n) = read32 mem m"
  by (simp add: le_word_def read32_def)

lemma msg_at_ok:
  assumes "4 \<le> sint (MSG_SIZE mem m)"
  shows "msg_ok (msg_at mem m)" "int (length (msg_at mem m)) = sint (MSG_SIZE mem m)"
proof -
  have "of_int (sint (MSG_SIZE mem m)) = 4 + read32 mem m"
    by (simp add: MSG_SIZE_def MSG_T_HEADER_SIZE_def)
  then have "of_nat (nat (sint (MSG_SIZE mem m)) - 4) = read32 mem m"
    using assms by (simp add: of_nat_diff)
  then show "msg_ok (msg_at mem m)"
    using assms by (simp add: msg_ok_def msg_at_def le_word_load)
  show "int (length (msg_at mem m)) = sint (MSG_SIZE mem m)"
    using assms by (simp add: msg_at_def)
qed

lemma sent_rep:
  assumes "mbox_rep (Q s q) msgs" "4 \<le> sint (MSG_SIZE (umem s) m)"
    "sint (MSG_SIZE (umem s) m) \<le> space_available (Q s q)"
  shows "mbox_rep (Q (sent t q m s) q) (msgs @ [msg_at (umem s) m])"
  by (rule rep_send [OF assms(1) msg_at_def])
    (use msg_at_ok [OF assms(2)] assms(2,3) in \<open>simp_all add: sent_def step_defs\<close>)

lemma sent_state:
  "umem (sent t q m s) = umem s"
  "wait_queue (sent t q m s) (CondQueue (moreData q)) = tl (wait_queue s (CondQueue (moreData q)))"
  "monitor_free q s \<Longrightarrow> monitor_free q (sent t q m s)"
  by (auto simp: sent_def step_defs monitor_free_def wake_def split: list.split)


section \<open>Receiving\<close>

definition received :: "int \<Rightarrow> u32 \<Rightarrow> 'a mbox_store_scheme \<Rightarrow> 'a mbox_store_scheme" where
  "received q m s =
     wake (LockQueue (mb_l q)) (set_locked (mb_l q) False
       (upd_mbox q (\<lambda>b. b\<lparr>mb_count := mb_count b - 1\<rparr>)
         (wake_all (CondQueue (moreSpace q)) (skip_body q m (recv_body q m (skip_header q
           (recv_header q m (set_locked (mb_l q) True s))))))))"

lemma mbox_recv_completes:
  assumes "ready t s" "monitor_free q s" "mb_count (Q s q) \<noteq> 0"
  shows "completes t (mbox_recv q m) s (received q m s)"
proof -
  define s2 where "s2 = set_locked (mb_l q) True s"
  define s3 where "s3 = skip_body q m (recv_body q m (skip_header q (recv_header q m s2)))"
  define s4 where "s4 = wake_all (CondQueue (moreSpace q)) s3"
  define s5 where "s5 = upd_mbox q (\<lambda>b. b\<lparr>mb_count := mb_count b - 1\<rparr>) s4"
  note free = assms(2) [unfolded monitor_free_def]
  have 2: "ready t s2" "spins s2 = spins s" "Q s2 = Q s" using assms(1) by (simp_all add: s2_def)
  have 3: "ready t s3" "spins s3 = spins s" using 2 by (simp_all add: s3_def step_defs)
  have 4: "ready t s4" "spins s4 = spins s" using 3 by (simp_all add: s4_def)
  have 5: "ready t s5" "spins s5 = spins s" using 4 by (simp_all add: s5_def)
  have "completes t (mbox_recv q m) s (wake (LockQueue (mb_l q)) (set_locked (mb_l q) False s5))"
    unfolding mbox_recv_def
  proof (intro completes_append)
    show "completes t (lock_acquire (mb_l q)) s s2"
      unfolding s2_def by (rule lock_acquire_completes) (use assms(1) free in simp_all)
    show "completes t [CWhile (\<lambda>s. mb_count (Q s q) = 0) (condition_wait (mb_l q) (moreData q)),
        Do (recv_header q m), Do (skip_header q), Do (recv_body q m), Do (skip_body q m)] s2 s3"
      by (intro completes_While_end completes_Do)
        (use 2 assms(3) in \<open>simp_all add: s3_def step_defs\<close>)
    show "completes t (condition_broadcast (moreSpace q)) s3 s4"
      unfolding s4_def by (rule condition_broadcast_completes) (use 3 free in simp_all)
    show "completes t [Do (upd_mbox q (\<lambda>b. b\<lparr>mb_count := mb_count b - 1\<rparr>))] s4 s5"
      by (rule completes_Do [OF 4(1)]) (simp add: s5_def)
    show "completes t (lock_release (mb_l q)) s5 (wake (LockQueue (mb_l q)) (set_locked (mb_l q) False s5))"
      by (rule lock_release_completes) (use 5 free in simp_all)
  qed
  then show ?thesis by (simp add: received_def s2_def s3_def s4_def s5_def)
qed

text \<open>
  The two copies of a message: its header into \<open>m\<close>, and its body, whose length
  is read back from the header, behind it.
\<close>

lemma store_bytes_append:
  assumes "length xs + length ys \<le> 2 ^ 32"
  shows "store_bytes (a + of_nat (length xs)) ys (store_bytes a xs m) = store_bytes a (xs @ ys) m"
proof
  fix x
  define n where "n = length xs"
  define d where "d = unat (x - a)"
  define w where "w = x - (a + of_nat n)"
  have d: "x - a = of_nat d" "d < 2 ^ 32" using unsigned_less [of "x - a"] by (simp_all add: d_def)
  have w: "w = of_nat d - of_nat n" unfolding w_def d(1) [symmetric] by simp
  show "store_bytes (a + of_nat (length xs)) ys (store_bytes a xs m) x = store_bytes a (xs @ ys) m x"
  proof (cases "d < n")
    case True
    have "\<not> unat w < length ys"
    proof
      assume less: "unat w < length ys"
      have "w + of_nat n = of_nat d" using w by simp
      moreover have "unat (w + of_nat n) = unat w + n"
        using unat_add_small [of w n] less assms by (simp add: n_def)
      moreover have "unat (of_nat d :: u32) = d" using d(2) by (simp add: unat_of_nat_small)
      ultimately show False using True by simp
    qed
    with True show ?thesis
      by (simp add: store_bytes_def d_def n_def w_def nth_append)
  next
    case False
    then have "w = of_nat (d - n)" using w by (simp add: of_nat_diff)
    then have "unat w = d - n" using d(2) by (simp add: unat_of_nat_small)
    with False show ?thesis
      by (auto simp: store_bytes_def d_def n_def w_def nth_append)
  qed
qed

lemma ring_split_first:
  assumes "mbox_rep b (bs # msgs)"
  shows "ring_bytes (mb_buffer b) (mb_tail b) 4 = take 4 bs"
    "ring_bytes (mb_buffer b) ((mb_tail b + 4) mod BUFFER_SIZE) (length bs - 4) = drop 4 bs"
proof -
  have 4: "4 \<le> length bs" using assms by (simp add: mbox_rep_def msg_ok_def)
  have "ring_bytes (mb_buffer b) (mb_tail b) (4 + (length bs - 4)) = bs"
    using rep_first [OF assms] 4 by simp
  then have "ring_bytes (mb_buffer b) (mb_tail b) 4 @
      ring_bytes (mb_buffer b) ((mb_tail b + 4) mod BUFFER_SIZE) (length bs - 4) = bs"
    unfolding ring_bytes_append by simp
  then show "ring_bytes (mb_buffer b) (mb_tail b) 4 = take 4 bs"
    "ring_bytes (mb_buffer b) ((mb_tail b + 4) mod BUFFER_SIZE) (length bs - 4) = drop 4 bs"
    by (auto simp: append_eq_conv_conj)
qed

lemma read32_store:
  assumes "4 \<le> length bs"
  shows "read32 (store_bytes m bs mem) m = le_word bs"
proof -
  have "load_bytes (store_bytes m bs mem) m 4 = take 4 bs"
    by (rule nth_equalityI) (use assms in \<open>auto simp: store_bytes_in\<close>)
  then have "read32 (store_bytes m bs mem) m = le_word (take 4 bs)"
    using le_word_load [of 4 "store_bytes m bs mem" m] by simp
  then show ?thesis by (simp add: le_word_def read32_def)
qed

lemma tail_advance:
  assumes "in_ring i" "k < 2048"
  shows "uint (word_of_int i + of_nat k :: u32) mod BUFFER_SIZE = (i + int k) mod BUFFER_SIZE"
proof -
  define z where "z = i + int k"
  have "0 \<le> z" "z < 4294967296" using assms by (simp_all add: z_def in_ring_def BUFFER_SIZE_def)
  then have "uint (word_of_int z :: u32) = z" by (simp add: uint_word_of_int)
  moreover have "word_of_int i + of_nat k = (word_of_int z :: u32)" by (simp add: z_def)
  ultimately have "uint (word_of_int i + of_nat k :: u32) = z" by (simp only:)
  then show ?thesis unfolding z_def by (rule arg_cong)
qed

lemma received_effect:
  assumes rep: "mbox_rep (Q s q) (bs # msgs)"
  shows "umem (received q m s) = store_bytes m bs (umem s)"
    and "mb_tail (Q (received q m s) q) = (mb_tail (Q s q) + int (length bs)) mod BUFFER_SIZE"
proof -
  define b where "b = Q s q"
  define n where "n = length bs - 4"
  have ring: "in_ring (mb_tail b)" and bs: "4 \<le> length bs" "le_word bs = of_nat n"
    and len: "int (length bs) \<le> BUFFER_SIZE"
    using rep by (auto simp: mbox_rep_def msg_ok_def b_def n_def)
  have n: "length bs = 4 + n" "n < 2048" using bs(1) len by (simp_all add: n_def BUFFER_SIZE_def)
  note copies = ring_split_first [OF rep [folded b_def]]
  define tl1 where "tl1 = (mb_tail b + 4) mod BUFFER_SIZE"
  have tl1: "uint (word_of_int (mb_tail b) + MSG_T_HEADER_SIZE) mod BUFFER_SIZE = tl1"
    using tail_advance [OF ring, of 4] by (simp add: tl1_def MSG_T_HEADER_SIZE_def)
  have ring1: "in_ring tl1" by (simp add: tl1_def in_ring_def)
  have m1: "buffer_to_msg (mb_buffer b) (mb_tail b) m (uint MSG_T_HEADER_SIZE) (umem s) =
      store_bytes m (take 4 bs) (umem s)"
    using ring copies(1) by (simp add: buffer_to_msg_store in_ring_def MSG_T_HEADER_SIZE_def)
  have "le_word (take 4 bs) = le_word bs" by (simp add: le_word_def read32_def)
  then have size: "read32 (store_bytes m (take 4 bs) (umem s)) m = of_nat n"
    using bs read32_store [of "take 4 bs" m "umem s"] by simp
  have sint: "sint (of_nat n :: u32) = int n"
    using n(2) by (simp add: sint_uint unsigned_of_nat signed_take_bit_int_eq_self take_bit_nat_eq_self)
  have "buffer_to_msg (mb_buffer b) tl1 (m + 4) (int n) (store_bytes m (take 4 bs) (umem s)) =
      store_bytes (m + 4) (drop 4 bs) (store_bytes m (take 4 bs) (umem s))"
    using ring1 copies(2) n(2) by (simp add: buffer_to_msg_store in_ring_def n_def tl1_def)
  also have "\<dots> = store_bytes m bs (umem s)"
    using store_bytes_append [of "take 4 bs" "drop 4 bs" m "umem s"] bs(1) n by simp
  finally have m2: "buffer_to_msg (mb_buffer b) tl1 (m + 4) (int n)
      (store_bytes m (take 4 bs) (umem s)) = store_bytes m bs (umem s)" .
  show "umem (received q m s) = store_bytes m bs (umem s)"
    by (simp add: received_def step_defs m1 tl1 size sint m2 flip: b_def)
  have "MSG_SIZE (store_bytes m bs (umem s)) m = 4 + of_nat n"
    using read32_store [OF bs(1)] bs(2) by (simp add: MSG_SIZE_def MSG_T_HEADER_SIZE_def)
  then have t2: "uint (word_of_int tl1 + MSG_SIZE (store_bytes m bs (umem s)) m - MSG_T_HEADER_SIZE)
      mod BUFFER_SIZE = (tl1 + int n) mod BUFFER_SIZE"
    using tail_advance [OF ring1 n(2)] by (simp add: MSG_T_HEADER_SIZE_def)
  have "mb_tail (Q (received q m s) q) = (tl1 + int n) mod BUFFER_SIZE"
    by (simp add: received_def step_defs m1 tl1 size sint m2 t2 flip: b_def)
  also have "\<dots> = (mb_tail b + int (length bs)) mod BUFFER_SIZE"
    unfolding tl1_def mod_add_left_eq using n(1) by (simp add: add.assoc)
  finally show "mb_tail (Q (received q m s) q) = (mb_tail (Q s q) + int (length bs)) mod BUFFER_SIZE"
    by (simp add: b_def)
qed

lemma received_rep:
  assumes rep: "mbox_rep (Q s q) (bs # msgs)"
  shows "mbox_rep (Q (received q m s) q) msgs"
  by (rule rep_recv [OF rep])
    (use received_effect(2) [OF rep] in \<open>simp_all add: received_def step_defs\<close>)

lemma received_state:
  "wait_queue (received q m s) (CondQueue (moreSpace q)) = []"
  "monitor_free q s \<Longrightarrow> monitor_free q (received q m s)"
  by (auto simp: received_def step_defs monitor_free_def wake_def wake_all_def split: list.split)

end
