(* ===== verification/SyncProps.thy ===== *)
theory SyncProps
  imports LockSafety MboxRuns
begin

text \<open>
  The properties of the synchronisation primitives and the mailboxes: mutual
  exclusion of the lock under every interleaving, the wake-ups that can be
  lost, and the mailbox as a first-in first-out queue of messages.
\<close>

definition spin_init :: spinlock where
  "spin_init = \<lparr>sl_locked = False, sl_flag = False\<rparr>"

definition sync_init :: sync_store where
  "sync_init = \<lparr>spins = (\<lambda>_. spin_init), wait_queue = (\<lambda>_. []), lock_locked = (\<lambda>_. False),
     sem_value = (\<lambda>_. 0), barriers = (\<lambda>_. \<lparr>threads = 0, count1 = 0, count2 = 0, count_up = True\<rparr>),
     blocked = [], irq_off = 0, cpu = 0\<rparr>"

definition stuck :: "'a sync_store_scheme conf \<Rightarrow> bool" where
  "stuck c \<longleftrightarrow> (\<forall>c'. \<not> sys_step c c')"

lemma stuckI:
  assumes "\<And>t. t \<in> set (blocked s) \<or> p t = []"
  shows "stuck (p, s)"
proof -
  have "\<not> sys_step (p, s) c" for c
  proof
    assume "sys_step (p, s) c"
    then obtain t where "t \<notin> set (blocked s)" "exec1 t (p t) (s\<lparr>cpu := t\<rparr>) \<noteq> None"
      by (auto elim!: sys_stepE simp: schedulable_def)
    then show False using assms [of t] by auto
  qed
  then show ?thesis by (simp add: stuck_def)
qed


section \<open>Locks\<close>

text \<open>
  C10: Mutual exclusion. Any number of threads loop over \<^verbatim>\<open>lock_acquire\<close>, a
  critical section of any statements that leave the lock's own fields alone,
  and \<^verbatim>\<open>lock_release\<close>, starting with the lock in its initial state. However
  the scheduler interleaves their single actions, two threads are never
  inside the critical section together, the lock is marked as locked while
  one is, and no thread that is not blocked fails: in particular the
  assertion of \<^verbatim>\<open>unblock\<close> that the wait queue is not empty always holds.
\<close>

theorem lock_mutual_exclusion:
  assumes "sys_step\<^sup>*\<^sup>* (\<lambda>t. critical_loop l (work t), s0) (p, s)"
    and "\<not> sl_flag (spins s0 (LockInner l))" "\<not> lock_locked s0 l"
    and "\<forall>t. \<forall>f\<in>set (work t). keeps_lock l f"
  shows "(\<forall>t u. in_section l (work t) (p t) \<longrightarrow> in_section l (work u) (p u) \<longrightarrow>
            t = u \<and> lock_locked s l) \<and>
         (\<forall>t. t \<notin> set (blocked s) \<longrightarrow> exec1 t (p t) s \<noteq> None)"
proof -
  have "lock_ok l work (p, s)"
    by (rule lock_ok_reach [OF assms(1) lock_ok_init [OF assms(2,3)] assms(4)])
  then show ?thesis using lock_ok_exclusive lock_ok_unblock by blast
qed

definition two_workers :: "tid \<Rightarrow> (sync_store \<Rightarrow> sync_store) list" where
  "two_workers t = [add_value 7 (int t)]"

text \<open>Thread 0 enters its section; thread 1 finds the lock taken and goes to sleep.\<close>

theorem lock_mutual_exclusion_witness:
  "\<exists>p s. sys_step\<^sup>*\<^sup>* (\<lambda>t. critical_loop 3 (two_workers t), sync_init) (p, s) \<and>
     in_section 3 (two_workers 0) (p 0) \<and> \<not> in_section 3 (two_workers 1) (p 1) \<and> lock_locked s 3"
proof -
  have "\<exists>p s. run [0, 0, 0, 0, 0, 1, 1, 1, 1, 1] (\<lambda>t. critical_loop 3 (two_workers t), sync_init) = Some (p, s) \<and>
      p 0 = code 3 (two_workers 0) (Crit 0) \<and> length (p 1) = 10"
    by (simp add: critical_loop_def sync_api_defs two_workers_def sync_init_def spin_init_def
        schedulable_def store_defs)
  then obtain p s where r: "sys_step\<^sup>*\<^sup>* (\<lambda>t. critical_loop 3 (two_workers t), sync_init) (p, s)"
    and p: "p 0 = code 3 (two_workers 0) (Crit 0)" "length (p 1) = 10"
    using run_reaches by blast
  have keep: "\<forall>t. \<forall>f\<in>set (two_workers t). keeps_lock 3 f"
    by (simp add: two_workers_def keeps_lock_def add_value_def)
  have 0: "in_section 3 (two_workers 0) (p 0)"
    unfolding p in_section_def release_code by (rule exI [of _ 0]) simp
  note ex = lock_mutual_exclusion [OF r _ _ keep, THEN conjunct1]
  have "lock_locked s 3" "\<not> in_section 3 (two_workers 1) (p 1)"
    using ex 0 by (auto simp: sync_init_def spin_init_def)
  with r 0 show ?thesis by blast
qed

text \<open>
  C27: A lost wake-up of the lock. \<^verbatim>\<open>lock_acquire\<close> gives up the inner
  spinlock before it enters the wait queue. When the owner releases the lock
  between the two, it finds the queue empty and wakes nobody, and the other
  thread goes to sleep on a free lock: from two threads that each acquire and
  release a lock once, the system reaches a state in which the first has
  finished, the lock is free, the second is in its wait queue, and no step
  is possible any more.
\<close>

theorem lock_lost_wakeup:
  "\<exists>p s. sys_step\<^sup>*\<^sup>* (\<lambda>t. if t < 2 then lock_acquire l @ lock_release l else [], sync_init) (p, s) \<and>
     p 0 = [] \<and> \<not> lock_locked s l \<and> wait_queue s (LockQueue l) = [1] \<and> blocked s = [1] \<and>
     stuck (p, s)"
proof -
  define p0 :: "tid \<Rightarrow> sync_store cmd list"
    where "p0 t = (if t < 2 then lock_acquire l @ lock_release l else [])" for t
  have "\<exists>p s. run [0, 0, 0, 0, 1, 1, 1, 0, 0, 0, 0, 1] (p0, sync_init) = Some (p, s) \<and>
      p 0 = [] \<and> \<not> lock_locked s l \<and> wait_queue s (LockQueue l) = [1] \<and> blocked s = [1] \<and>
      (\<forall>t. t = 1 \<or> p t = [])"
    by (simp add: p0_def sync_api_defs sync_init_def spin_init_def schedulable_def store_defs)
  then obtain p s where "sys_step\<^sup>*\<^sup>* (p0, sync_init) (p, s)" "p 0 = []" "\<not> lock_locked s l"
      "wait_queue s (LockQueue l) = [1]" "blocked s = [1]" "\<forall>t. t = 1 \<or> p t = []"
    using run_reaches by blast
  moreover have "stuck (p, s)" by (rule stuckI) (use calculation in auto)
  ultimately show ?thesis unfolding p0_def [abs_def] by blast
qed


section \<open>Semaphores\<close>




text \<open>
  C28: A lost wake-up of the semaphore. \<^verbatim>\<open>semaphore_down\<close> gives up the inner
  spinlock before it enters the wait queue. An \<^verbatim>\<open>up\<close> in between raises the
  value to zero and finds the queue empty, and the thread in \<^verbatim>\<open>down\<close> goes to
  sleep although its unit has been given: no step is possible any more.
\<close>

theorem semaphore_lost_wakeup:
  "\<exists>p s. sys_step\<^sup>*\<^sup>* (\<lambda>t. if t = 0 then semaphore_down r else if t = 1 then semaphore_up r else [],
             sync_init) (p, s) \<and>
     p 1 = [] \<and> sem_value s r = 0 \<and> wait_queue s (SemQueue r) = [0] \<and> blocked s = [0] \<and> stuck (p, s)"
proof -
  define p0 :: "tid \<Rightarrow> sync_store cmd list"
    where "p0 t = (if t = 0 then semaphore_down r else if t = 1 then semaphore_up r else [])" for t
  have "\<exists>p s. run [0, 0, 0, 0, 1, 1, 1, 1, 0] (p0, sync_init) = Some (p, s) \<and>
      p 1 = [] \<and> sem_value s r = 0 \<and> wait_queue s (SemQueue r) = [0] \<and> blocked s = [0] \<and>
      (\<forall>t. t = 0 \<or> p t = [])"
    by (simp add: p0_def sync_api_defs sem_api_defs sync_init_def spin_init_def schedulable_def
        store_defs add_value_def)
  then obtain p s where "sys_step\<^sup>*\<^sup>* (p0, sync_init) (p, s)" "p 1 = []" "sem_value s r = 0"
      "wait_queue s (SemQueue r) = [0]" "blocked s = [0]" "\<forall>t. t = 0 \<or> p t = []"
    using run_reaches by blast
  moreover have "stuck (p, s)" by (rule stuckI) (use calculation in auto)
  ultimately show ?thesis unfolding p0_def [abs_def] by blast
qed


section \<open>Mailboxes\<close>

definition box :: mbox where
  "box = \<lparr>mb_used = 1, mb_count = 0, mb_head = 1020, mb_tail = 1020, mb_buffer = (\<lambda>_. 0)\<rparr>"

definition full_box :: mbox where
  "full_box = \<lparr>mb_used = 1, mb_count = 1, mb_head = 3, mb_tail = 1020,
     mb_buffer = (\<lambda>_. 0)(1020 := 3, 0 := 1, 1 := 2, 2 := 3)\<rparr>"

text \<open>
  A message with the body 1, 2, 3 at address 100, and mailboxes whose next
  free byte is near the end of the buffer.
\<close>

definition box_store :: "mbox \<Rightarrow> mbox_store" where
  "box_store b = sync_store.extend sync_init
     (mbox_store.fields (\<lambda>_. b) ((\<lambda>_. 0)(100 := 3, 104 := 1, 105 := 2, 106 := 3)) (\<lambda>_. 0))"

lemmas box_defs = box_store_def sync_store.defs mbox_store.defs sync_init_def spin_init_def

lemma box_store_simps [simp]:
  "Q (box_store b) q = b" "ready 0 (box_store b)" "monitor_free q (box_store b)"
  "umem (box_store b) = (\<lambda>_. 0)(100 := 3, 104 := 1, 105 := 2, 106 := 3)"
  by (simp_all add: box_defs ready_def monitor_free_def)

lemma box_message:
  "read32 ((\<lambda>_. 0)(100 := 3, 104 := 1, 105 := 2, 106 := 3)) 100 = 3"
  by (simp add: read32_def)

lemma box_rep: "mbox_rep box []" "space_available box = 1024"
  by (simp_all add: mbox_rep_def box_def in_ring_def BUFFER_SIZE_def ring_bytes_def space_available_def)

lemma full_box_rep: "mbox_rep full_box [[3, 0, 0, 0, 1, 2, 3]]"
  by (simp add: mbox_rep_def full_box_def in_ring_def BUFFER_SIZE_def ring_bytes_def msg_ok_def
      le_word_def read32_def upt_rec)

text \<open>
  C11: Sending. Let the mailbox stand for the messages \<open>msgs\<close>, its monitor be
  free, and the message at \<open>m\<close> fit into the space the mailbox reports. Then
  \<^verbatim>\<open>mbox_send\<close> runs to its end, the mailbox stands for \<open>msgs\<close> followed by the
  bytes of the new message, the sender's memory is unchanged, the first
  waiting receiver is woken and the monitor is free again.
\<close>

theorem mbox_send_appends:
  assumes "ready t s" "monitor_free q s" "mbox_rep (Q s q) msgs"
    and "4 \<le> sint (MSG_SIZE (umem s) m)" "sint (MSG_SIZE (umem s) m) \<le> space_available (Q s q)"
  shows "\<exists>s'. completes t (mbox_send t q m) s s' \<and> mbox_rep (Q s' q) (msgs @ [msg_at (umem s) m]) \<and>
    umem s' = umem s \<and> monitor_free q s' \<and>
    wait_queue s' (CondQueue (moreData q)) = tl (wait_queue s (CondQueue (moreData q)))"
  using mbox_send_completes [OF assms(1,2,5)] sent_rep [OF assms(3,4,5)] sent_state assms(2) by blast

theorem mbox_send_appends_witness:
  "\<exists>s'. completes 0 (mbox_send 0 2 100) (box_store box) s' \<and> mbox_rep (Q s' 2) [[3, 0, 0, 0, 1, 2, 3]]"
  using mbox_send_appends [of 0 "box_store box" 2 "[]" 100]
  by (auto simp: MSG_SIZE_def MSG_T_HEADER_SIZE_def box_message box_rep msg_at_def load_bytes_def upt_rec)

text \<open>
  C12: Receiving. When the mailbox stands for the message \<open>bs\<close> followed by
  \<open>msgs\<close> and its monitor is free, \<^verbatim>\<open>mbox_recv\<close> runs to its end, writes exactly
  the bytes \<open>bs\<close>, header and body, to \<open>m\<close> and nothing else, leaves the mailbox
  standing for \<open>msgs\<close>, and wakes every waiting sender.
\<close>

theorem mbox_recv_takes_oldest:
  assumes "ready t s" "monitor_free q s" "mbox_rep (Q s q) (bs # msgs)"
  shows "\<exists>s'. completes t (mbox_recv q m) s s' \<and> mbox_rep (Q s' q) msgs \<and>
    umem s' = store_bytes m bs (umem s) \<and> monitor_free q s' \<and>
    wait_queue s' (CondQueue (moreSpace q)) = []"
proof -
  have "mb_count (Q s q) \<noteq> 0" using assms(3) by (simp add: mbox_rep_def)
  from mbox_recv_completes [OF assms(1,2) this] received_rep [OF assms(3)]
    received_effect(1) [OF assms(3)] received_state assms(2)
  show ?thesis by blast
qed

theorem mbox_recv_takes_oldest_witness:
  "\<exists>s'. completes 0 (mbox_recv 2 200) (box_store full_box) s' \<and> mbox_rep (Q s' 2) [] \<and>
     load_bytes (umem s') 200 7 = [3, 0, 0, 0, 1, 2, 3]"
proof -
  have "\<exists>s'. completes 0 (mbox_recv 2 200) (box_store full_box) s' \<and> mbox_rep (Q s' 2) [] \<and>
     umem s' = store_bytes 200 [3, 0, 0, 0, 1, 2, 3] (umem (box_store full_box))"
    using mbox_recv_takes_oldest [of 0 "box_store full_box" 2 "[3, 0, 0, 0, 1, 2, 3]" "[]" 200]
      full_box_rep by auto
  then show ?thesis by (auto simp: load_store_same)
qed

text \<open>
  C29: A lost wake-up of the mailbox. \<^verbatim>\<open>condition_wait\<close> releases the monitor's
  lock before it enters the wait queue of the condition. A sender that runs
  in between finds no receiver to signal, and the receiver goes to sleep with
  a message in the mailbox: one receiver and one sender on an empty mailbox
  reach a state in which the sender has finished, the mailbox holds one
  message, the receiver is asleep and no step is possible any more.
\<close>

theorem mbox_lost_wakeup:
  "\<exists>p s. sys_step\<^sup>*\<^sup>* (\<lambda>t. if t = 0 then mbox_recv 2 200 else if t = 1 then mbox_send 1 2 100 else [],
             box_store box) (p, s) \<and>
     p 1 = [] \<and> mb_count (Q s 2) = 1 \<and> wait_queue s (CondQueue (moreData 2)) = [0] \<and>
     \<not> lock_locked s (mb_l 2) \<and> stuck (p, s)"
proof -
  define p0 :: "tid \<Rightarrow> mbox_store cmd list"
    where "p0 t = (if t = 0 then mbox_recv 2 200 else if t = 1 then mbox_send 1 2 100 else [])" for t
  define copied where
    "copied = msg_to_buffer ((\<lambda>_. 0)(100 := 3, 104 := 1, 105 := 2, 106 := 3)) 100 7 (\<lambda>_. 0) 1020"
  have "\<exists>p s. run (replicate 9 0 @ replicate 16 1 @ [0]) (p0, box_store box) = Some (p, s) \<and>
      p 1 = [] \<and> mb_count (Q s 2) = 1 \<and> wait_queue s (CondQueue (moreData 2)) = [0] \<and>
      \<not> lock_locked s (mb_l 2) \<and> blocked s = [0] \<and> (\<forall>t. t = 0 \<or> p t = [])"
    by (simp add: numeral_eq_Suc p0_def mbox_recv_def mbox_send_def sync_api_defs cond_api_defs box_defs box_def
        schedulable_def store_defs upd_mbox_def step_defs space_available_def BUFFER_SIZE_def
        MSG_SIZE_def MSG_T_HEADER_SIZE_def box_message mb_l_def moreData_def moreSpace_def flip: copied_def)
  then obtain p s where "sys_step\<^sup>*\<^sup>* (p0, box_store box) (p, s)" "p 1 = []" "mb_count (Q s 2) = 1"
      "wait_queue s (CondQueue (moreData 2)) = [0]" "\<not> lock_locked s (mb_l 2)" "blocked s = [0]"
      "\<forall>t. t = 0 \<or> p t = []"
    using run_reaches by blast
  moreover have "stuck (p, s)" by (rule stuckI) (use calculation in auto)
  ultimately show ?thesis unfolding p0_def [abs_def] by blast
qed

end
