(* ===== verification/KeyboardProps.thy ===== *)
theory KeyboardProps
  imports Keyboard SyncProps
begin

text \<open>
  The properties of the keyboard driver: the modifier keys it tracks, and the
  way of a character through its queue.
\<close>

unbundle bit_operations_syntax

section \<open>Modifier keys\<close>

definition handler_at :: "nat \<Rightarrow> key_handler" where
  "handler_at i = snd (snd (snd (scan_to_ascii ! i)))"

lemma scan_table: "length scan_to_ascii = 84"
  "list_all (\<lambda>i. handler_at i =
     (if i = 0x36 then RightShiftKey else if i = 0x2a then LeftShiftKey else if i = 0x1d then ControlKey
      else if i = 0x38 then AltKey else if i = 0x3a then CapsLockKey else if i = 1 then EscapeKey
      else if i = 0x45 then NumLockKey else if i = 0x46 then ScrollLockKey else NormalKey)) [0..<84]"
  unfolding handler_at_def by code_simp+

lemma handler_cases:
  assumes "i < 84"
  shows "handler_at i =
     (if i = 0x36 then RightShiftKey else if i = 0x2a then LeftShiftKey else if i = 0x1d then ControlKey
      else if i = 0x38 then AltKey else if i = 0x3a then CapsLockKey else if i = 1 then EscapeKey
      else if i = 0x45 then NumLockKey else if i = 0x46 then ScrollLockKey else NormalKey)"
  using scan_table(2) assms by (auto simp: list_all_iff)

text \<open>The byte 0xe0 is never seen: the release bit has been removed before the test.\<close>

lemma no_multiread: "(b AND 0x7f :: u8) \<noteq> 0xe0"
proof
  assume "b AND 0x7f = (0xe0 :: u8)"
  then have "bit (b AND 0x7f) 7 = bit (0xe0 :: u8) 7" by simp
  then show False by (simp add: bit_simps)
qed

lemma interrupt_handler:
  "keyboard_interrupt b b2 k =
     (let k = k\<lparr>key_release := b AND 0x80 \<noteq> 0\<rparr>; key = b AND 0x7f
      in if key < 0x54 then call_handler (handler_at (unat key)) key k else (k, None))"
  using no_multiread [of b]
  by (simp add: keyboard_interrupt_def handler_at_def Let_def split: prod.split)

definition keyboard_run :: "u8 list \<Rightarrow> kbd \<Rightarrow> kbd" where
  "keyboard_run bs k = fold (\<lambda>b k. fst (keyboard_interrupt b 0 k)) bs k"

definition kbd_init :: kbd where
  "kbd_init = \<lparr>shift_status = 0, key_release = False, multiread = False\<rparr>"

text \<open>Whether the last event of a key was a press, and how often a key was pressed.\<close>

definition key_held :: "u8 \<Rightarrow> u8 list \<Rightarrow> bool" where
  "key_held key bs = fold (\<lambda>b h. if b AND 0x7f = key then b AND 0x80 = 0 else h) bs False"

definition presses :: "u8 \<Rightarrow> u8 list \<Rightarrow> nat" where
  "presses key bs = length (filter (\<lambda>b. b AND 0x7f = key \<and> b AND 0x80 = 0) bs)"

lemma key_status:
  assumes "key = b AND 0x7f" "p = (b AND 0x80 = 0)" "s = shift_status k"
  shows "shift_status (fst (keyboard_interrupt b b2 k)) =
    (if key = 0x36 then if p then s OR 1 else s AND NOT 1
     else if key = 0x2a then if p then s OR 2 else s AND NOT 2
     else if key = 0x1d then if p then s OR 8 else s AND NOT 8
     else if key = 0x38 then if p then s OR 16 else s AND NOT 16
     else if key = 0x3a \<and> p then if s AND 4 \<noteq> 0 then s AND NOT 4 else s OR 4
     else s)"
proof (cases "key < 0x54")
  case True
  have "unat key < 84" using True by (simp add: word_less_nat_alt)
  from handler_cases [OF this]
  have h: "handler_at (unat key) =
     (if key = 0x36 then RightShiftKey else if key = 0x2a then LeftShiftKey else if key = 0x1d then ControlKey
      else if key = 0x38 then AltKey else if key = 0x3a then CapsLockKey else if key = 1 then EscapeKey
      else if key = 0x45 then NumLockKey else if key = 0x46 then ScrollLockKey else NormalKey)"
    by (simp add: word_unat_eq_iff)
  have "fst (keyboard_interrupt b b2 k) =
      fst (call_handler (handler_at (unat key)) key (k\<lparr>key_release := \<not> p\<rparr>))"
    using True assms by (simp add: interrupt_handler Let_def)
  then show ?thesis unfolding h
    by (simp add: assms(3) hold_key_def right_shift_handler_def left_shift_handler_def
        control_handler_def alt_handler_def caps_lock_handler_def escape_handler_def num_lock_handler_def
        scroll_lock_handler_def shift_defs)
next
  case False
  then show ?thesis using assms by (auto simp: interrupt_handler Let_def)
qed

lemma key_bits:
  assumes "key = b AND 0x7f" "p = (b AND 0x80 = 0)"
    and "s = shift_status k" "s' = shift_status (fst (keyboard_interrupt b b2 k))"
  shows "bit s' 0 = (if key = 0x36 then p else bit s 0)"
    and "bit s' 1 = (if key = 0x2a then p else bit s 1)"
    and "bit s' 2 = (if key = 0x3a \<and> p then \<not> bit s 2 else bit s 2)"
    and "bit s' 3 = (if key = 0x1d then p else bit s 3)"
    and "bit s' 4 = (if key = 0x38 then p else bit s 4)"
proof -
  have caps: "s AND 4 \<noteq> 0 \<longleftrightarrow> bit s 2" using and_exp_eq_0_iff_not_bit [of s 2] by simp
  note s' = assms(4) [unfolded key_status [OF assms(1,2,3)] caps]
  show "bit s' 0 = (if key = 0x36 then p else bit s 0)"
    "bit s' 1 = (if key = 0x2a then p else bit s 1)"
    "bit s' 2 = (if key = 0x3a \<and> p then \<not> bit s 2 else bit s 2)"
    "bit s' 3 = (if key = 0x1d then p else bit s 3)"
    "bit s' 4 = (if key = 0x38 then p else bit s 4)"
    unfolding s' by (auto simp: bit_simps)
qed

text \<open>
  C17: After any sequence of bytes from the keyboard controller, the shift
  status has the bit of the right shift, left shift, control and alt key set
  exactly when the last event of that key was a press, and the caps lock bit
  exactly when caps lock was pressed an odd number of times; bytes of other
  keys and unknown codes change none of them.
\<close>

theorem keyboard_modifiers:
  "let s = shift_status (keyboard_run bs kbd_init) in
     bit s 0 = key_held 0x36 bs \<and> bit s 1 = key_held 0x2a bs \<and> bit s 3 = key_held 0x1d bs \<and> bit s 4 = key_held 0x38 bs \<and>
     bit s 2 = odd (presses 0x3a bs)"
proof (induction bs rule: rev_induct)
  case Nil
  show ?case by (simp add: keyboard_run_def kbd_init_def key_held_def presses_def)
next
  case (snoc b bs)
  define k where "k = keyboard_run bs kbd_init"
  have run: "keyboard_run (bs @ [b]) kbd_init = fst (keyboard_interrupt b 0 k)"
    by (simp add: keyboard_run_def k_def)
  have h: "key_held key (bs @ [b]) = (if b AND 0x7f = key then b AND 0x80 = 0 else key_held key bs)" for key
    by (simp add: key_held_def)
  show ?case
    using snoc key_bits [OF refl refl refl refl, of b 0 k]
    unfolding run h k_def [symmetric] Let_def by (simp add: presses_def)
qed


section \<open>The character queue\<close>

lemma mbox_stat_completes:
  assumes "ready t s" "monitor_free q s"
  shows "completes t (mbox_stat q cnt spc) s
    (wake (LockQueue (mb_l q)) (set_locked (mb_l q) False ((set_locked (mb_l q) True s)\<lparr>umem :=
      write32 (write32 (umem s) cnt (word_of_int (mb_count (Q s q)))) spc
        (word_of_int (space_available (Q s q)))\<rparr>)))"
proof -
  define s1 where "s1 = set_locked (mb_l q) True s"
  define s2 where "s2 = s1\<lparr>umem := write32 (write32 (umem s) cnt (word_of_int (mb_count (Q s q)))) spc
        (word_of_int (space_available (Q s q)))\<rparr>"
  note free = assms(2) [unfolded monitor_free_def]
  have 1: "ready t s1" "Q s1 = Q s" "umem s1 = umem s" "spins s1 = spins s"
    using assms(1) by (simp_all add: s1_def)
  have 2: "ready t s2" "spins s2 = spins s" using 1 by (simp_all add: s2_def)
  have "completes t (mbox_stat q cnt spc) s (wake (LockQueue (mb_l q)) (set_locked (mb_l q) False s2))"
    unfolding mbox_stat_def
  proof (intro completes_append)
    show "completes t (lock_acquire (mb_l q)) s s1"
      unfolding s1_def by (rule lock_acquire_completes) (use assms(1) free in simp_all)
    show "completes t [Do (\<lambda>s. s\<lparr>umem := write32 (umem s) cnt (word_of_int (mb_count (Q s q)))\<rparr>),
        Do (\<lambda>s. s\<lparr>umem := write32 (umem s) spc (word_of_int (space_available (Q s q)))\<rparr>)] s1 s2"
      by (intro completes_Do) (use 1 in \<open>simp_all add: s2_def\<close>)
    show "completes t (lock_release (mb_l q)) s2 (wake (LockQueue (mb_l q)) (set_locked (mb_l q) False s2))"
      by (rule lock_release_completes) (use 2 free in simp_all)
  qed
  then show ?thesis by (simp add: s1_def s2_def)
qed

text \<open>Where the local variables of \<^verbatim>\<open>putchar\<close> lie: words that do not overlap the message.\<close>

definition frame_ok :: "u32 \<Rightarrow> u32 \<Rightarrow> u32 \<Rightarrow> bool" where
  "frame_ok m cnt spc \<longleftrightarrow>
     aligned4 m \<and> aligned4 cnt \<and> aligned4 spc \<and> cnt \<noteq> spc \<and> cnt \<noteq> m \<and> spc \<noteq> m \<and>
     aligned4 (m + 4) \<and> cnt \<noteq> m + 4 \<and> spc \<noteq> m + 4"

lemma write32_elsewhere:
  assumes "aligned4 a" "aligned4 b" "a \<noteq> b" "i < 4"
  shows "write32 mem a v (b + of_nat i) = mem (b + of_nat i)"
proof -
  have "unat (b + of_nat i) = unat b + i"
    by (rule unat_add_small) (use aligned4_bound [OF assms(2)] assms(4) in linarith)
  then show ?thesis
    using aligned4_cells_disjoint [OF assms(1-3)] assms(4) by (intro write32_outside [OF assms(1)]) linarith
qed

lemma frame_message:
  assumes "frame_ok m cnt spc"
    and mem: "mem' = write32 (write32 ((write32 mem m 1)(m + 4 := ch)) cnt v) spc w"
  shows "read32 mem' m = 1" "mem' (m + 4) = ch" "read32 mem' spc = w" "msg_at mem' m = [1, 0, 0, 0, ch]"
proof -
  have a: "aligned4 m" "aligned4 cnt" "aligned4 spc" "aligned4 (m + 4)" "cnt \<noteq> m" "spc \<noteq> m" "cnt \<noteq> m + 4" "spc \<noteq> m + 4"
    using assms(1) by (auto simp: frame_ok_def)
  define m1 where "m1 = (write32 mem m 1)(m + 4 := ch)"
  have "m + i \<noteq> m + 4" if "i \<in> {0, 1, 2, 3}" for i :: u32 using that by auto
  then have "read32 m1 m = read32 (write32 mem m 1) m"
    by (intro read32_cong) (auto simp: m1_def)
  then have r1: "read32 m1 m = 1" by simp
  show r: "read32 mem' m = 1"
    using r1 a by (simp add: mem read32_write32_other flip: m1_def)
  show c: "mem' (m + 4) = ch"
    using a write32_elsewhere [of _ "m + 4" 0] by (simp add: mem)
  show "read32 mem' spc = w" by (simp add: mem)
  have "load_bytes mem' m 4 = [1, 0, 0, 0]"
  proof (rule nth_equalityI)
    fix i assume "i < length (load_bytes mem' m 4)"
    then have i: "i < 4" by simp
    have "mem' (m + of_nat i) = m1 (m + of_nat i)"
      using a i by (simp add: mem write32_elsewhere flip: m1_def)
    moreover have "i \<in> {0, 1, 2, 3}" using i by auto
    ultimately show "load_bytes mem' m 4 ! i = [1, 0, 0, 0] ! i"
      using i by (auto simp: m1_def write32_def)
  qed simp
  moreover have "load_bytes mem' m 5 = load_bytes mem' m 4 @ [ch]"
    using load_bytes_append [of mem' m 4 1] c by (simp add: load_bytes_Suc)
  ultimately show "msg_at mem' m = [1, 0, 0, 0, ch]"
    using r by (simp add: msg_at_def MSG_SIZE_def MSG_T_HEADER_SIZE_def)
qed

lemma ready_umem_irq [simp]: "monitor_free q (s\<lparr>umem := m\<rparr>) = monitor_free q s"
  "monitor_free q (s\<lparr>irq_off := n\<rparr>) = monitor_free q s"
  by (simp_all add: monitor_free_def)

lemma monitor_free_released:
  assumes "monitor_free q s"
  shows "monitor_free q (wake w (set_locked (mb_l q) False ((set_locked (mb_l q) True s)\<lparr>umem := m\<rparr>)))"
  using assms by (simp add: monitor_free_def)

lemma rep_room:
  assumes "mbox_rep b msgs"
  shows "sint (word_of_int (space_available b) :: u32) = space_available b"
proof -
  have "0 \<le> space_available b" "space_available b \<le> 1024"
    using space_available_rep [OF assms] assms by (simp_all add: mbox_rep_def BUFFER_SIZE_def)
  then show ?thesis by (simp add: signed_of_int signed_take_bit_int_eq_self)
qed

lemma putchar_completes:
  assumes "ready t s" "monitor_free q s" "mbox_rep (Q s q) msgs" "frame_ok m cnt spc"
  shows "\<exists>s'. completes t (putchar t q m cnt spc c) s s' \<and> monitor_free q s' \<and>
    mbox_rep (Q s' q) (if CHAR_MSG_SIZE \<le> space_available (Q s q)
      then msgs @ [[1, 0, 0, 0, character_of c]] else msgs)"
proof -
  define s1 where "s1 = s\<lparr>umem := (write32 (umem s) m 1)(m + 4 := character_of c), irq_off := irq_off s + 1\<rparr>"
  define mem where "mem = write32 (write32 (umem s1) cnt (word_of_int (mb_count (Q s q)))) spc
        (word_of_int (space_available (Q s q)))"
  define s2 where "s2 = wake (LockQueue (mb_l q)) (set_locked (mb_l q) False ((set_locked (mb_l q) True s1)\<lparr>umem := mem\<rparr>))"
  have 1: "ready t s1" "monitor_free q s1" "Q s1 = Q s"
    using assms(1,2) by (simp_all add: s1_def)
  have 2: "ready t s2" "monitor_free q s2" "Q s2 = Q s" "umem s2 = mem"
    using 1 by (simp_all add: s2_def monitor_free_released)
  note msg = frame_message [OF assms(4), of mem "umem s" "character_of c"]
  have m: "read32 mem m = 1" "read32 mem spc = word_of_int (space_available (Q s q))"
    "msg_at mem m = [1, 0, 0, 0, character_of c]"
    using msg by (simp_all add: mem_def s1_def)
  have start: "completes t [Do (\<lambda>s. s\<lparr>umem := write32 (umem s) m 1\<rparr>),
      Do (\<lambda>s. s\<lparr>umem := (umem s)(m + 4 := character_of c)\<rparr>), NointerruptEnter] s s1"
    by (intro completes_Do completes_enter) (use assms(1) in \<open>simp_all add: s1_def\<close>)
  have stat: "completes t (mbox_stat q cnt spc) s1 s2"
    using mbox_stat_completes [OF 1(1,2), of cnt spc] 1(3) by (simp add: s2_def mem_def)
  have size: "sint (MSG_SIZE (umem s2) m) = 5"
    using 2(4) m(1) by (simp add: MSG_SIZE_def MSG_T_HEADER_SIZE_def)
  define fits where "fits = (CHAR_MSG_SIZE \<le> space_available (Q s q))"
  define s3 where "s3 = (if fits then sent t q m s2 else s2)"
  have guard: "(sint (read32 (umem s2) spc) \<ge> CHAR_MSG_SIZE) = fits"
    using m(2) 2(4) rep_room [OF assms(3)] by (simp add: fits_def)
  have send: "completes t (if fits then mbox_send t q m else []) s2 s3 \<and> ready t s3 \<and> monitor_free q s3 \<and>
      mbox_rep (Q s3 q) (if fits then msgs @ [[1, 0, 0, 0, character_of c]] else msgs)"
  proof (cases fits)
    case True
    then have room: "sint (MSG_SIZE (umem s2) m) \<le> space_available (Q s2 q)"
      using size 2(3) by (simp add: fits_def CHAR_MSG_SIZE_def)
    have "mbox_rep (Q (sent t q m s2) q) (msgs @ [msg_at (umem s2) m])"
      by (rule sent_rep) (use assms(3) 2(3) size room in simp_all)
    moreover have "ready t (sent t q m s2)" using 2(1) by (simp add: sent_def step_defs)
    ultimately show ?thesis
      using True mbox_send_completes [OF 2(1,2) room] sent_state(3) [OF 2(2)] m(3) 2(4) by (simp add: s3_def)
  qed (use 2 assms(3) in \<open>simp add: s3_def\<close>)
  have last: "completes t [CIf (\<lambda>s. sint (read32 (umem s) spc) \<ge> CHAR_MSG_SIZE) (mbox_send t q m) [], NointerruptLeave]
      s2 (s3\<lparr>irq_off := irq_off s3 - 1\<rparr>)"
  proof (rule completes_If [OF 2(1)])
    show "completes t ((if CHAR_MSG_SIZE \<le> sint (read32 (umem s2) spc) then mbox_send t q m else []) @
        [NointerruptLeave]) s2 (s3\<lparr>irq_off := irq_off s3 - 1\<rparr>)"
      unfolding guard
      by (rule completes_append [OF conjunct1 [OF send]])
        (rule completes_leave, use send in simp_all)
  qed
  have "completes t (putchar t q m cnt spc c) s (s3\<lparr>irq_off := irq_off s3 - 1\<rparr>)"
    unfolding putchar_def by (rule completes_append [OF start completes_append [OF stat last]])
  then show ?thesis using send by (intro exI [of _ "s3\<lparr>irq_off := irq_off s3 - 1\<rparr>"]) (simp add: fits_def)
qed

lemma getchar_completes:
  assumes "ready t s" "monitor_free q s" "mbox_rep (Q s q) ([1, 0, 0, 0, ch] # msgs)"
  shows "\<exists>s'. completes t (getchar q m c) s s' \<and> monitor_free q s' \<and> mbox_rep (Q s' q) msgs \<and>
    read32 (umem s') c = scast ch"
proof -
  define s1 where "s1 = s\<lparr>irq_off := irq_off s + 1\<rparr>"
  define s2 where "s2 = received q m s1"
  define s3 where "s3 = s2\<lparr>irq_off := irq_off s2 - 1\<rparr>"
  have 1: "ready t s1" "monitor_free q s1" "mbox_rep (Q s1 q) ([1, 0, 0, 0, ch] # msgs)"
    using assms by (simp_all add: s1_def)
  have n: "mb_count (Q s1 q) \<noteq> 0" using 1(3) by (simp add: mbox_rep_def)
  have 2: "ready t s2" using 1(1) by (simp add: s2_def received_def step_defs)
  have mem: "umem s3 = store_bytes m [1, 0, 0, 0, ch] (umem s1)"
    using received_effect(1) [OF 1(3)] by (simp add: s3_def s2_def)
  have r: "read32 (umem s3) m = 1" "umem s3 (m + 4) = ch"
    using read32_store [of "[1, 0, 0, 0, ch]" m "umem s1"] store_bytes_in [of 4 "[1, 0, 0, 0, ch]" m "umem s1"]
    by (simp_all add: mem le_word_def read32_def)
  define s4 where "s4 = s3\<lparr>umem := write32 (umem s3) c (scast ch)\<rparr>"
  have "completes t (getchar q m c) s s4"
    unfolding getchar_def
  proof (intro completes_append)
    show "completes t [NointerruptEnter] s s1"
      by (rule completes_enter [OF assms(1)]) (simp add: s1_def)
    show "completes t (mbox_recv q m) s1 s2"
      unfolding s2_def by (rule mbox_recv_completes [OF 1(1,2) n])
    show "completes t [NointerruptLeave] s2 s3"
      by (rule completes_leave [OF 2]) (simp add: s3_def)
    show "completes t [CIf (\<lambda>s. sint (read32 (umem s) m) = 1)
        [Do (\<lambda>s. s\<lparr>umem := write32 (umem s) c (scast (umem s (m + 4)))\<rparr>)] [Halt]] s3 s4"
      by (intro completes_If) (use 2 r in \<open>auto simp: s3_def s4_def intro: completes_Do\<close>)
  qed
  then show ?thesis
    using received_rep [OF 1(3), of m] received_state(2) [OF 1(2), of m]
    by (intro exI [of _ s4]) (simp add: s4_def s3_def s2_def)
qed

text \<open>
  C16: The character queue. With the monitor of its mailbox free, \<^verbatim>\<open>putchar\<close> runs
  to its end without blocking, whatever is in the mailbox: it appends the
  character as a message of one byte if there is room for it and drops it
  otherwise. When the oldest message is such a character, \<^verbatim>\<open>getchar\<close> runs to its
  end, takes the message out of the queue and delivers the character, widened
  with its sign.
\<close>

theorem keyboard_queue:
  assumes "ready t s" "monitor_free q s" "mbox_rep (Q s q) msgs" "frame_ok m cnt spc"
  shows "(\<exists>s'. completes t (putchar t q m cnt spc c) s s' \<and> monitor_free q s' \<and>
      mbox_rep (Q s' q) (if CHAR_MSG_SIZE \<le> space_available (Q s q)
        then msgs @ [[1, 0, 0, 0, character_of c]] else msgs)) \<and>
    (\<forall>ch rest. msgs = [1, 0, 0, 0, ch] # rest \<longrightarrow>
      (\<exists>s'. completes t (getchar q m cnt) s s' \<and> monitor_free q s' \<and> mbox_rep (Q s' q) rest \<and>
        read32 (umem s') cnt = scast ch))"
  using putchar_completes [OF assms] getchar_completes [OF assms(1,2)] assms(3) by blast

theorem keyboard_queue_witness:
  "\<exists>s'. completes 0 (putchar 0 0 0x1000 0x2000 0x2004 \<lparr>character_of = 65, attribute = 0, scancode = 0x1e\<rparr>)
      (box_store box) s' \<and> mbox_rep (Q s' 0) [[1, 0, 0, 0, 65]]"
  using keyboard_queue [of 0 "box_store box" 0 "[]" "0x1000" "0x2000" "0x2004"
      "\<lparr>character_of = 65, attribute = 0, scancode = 0x1e\<rparr>"]
  by (auto simp: box_rep frame_ok_def aligned4_def CHAR_MSG_SIZE_def)

end
