(* ===== verification/Interrupts.thy ===== *)
theory Interrupts
  imports Pic
begin

text \<open>
  Segment and interrupt descriptors: the descriptor formats of
  \<^verbatim>\<open>hardware/cpu_x86.h\<close>, the global descriptor table and task state segment of
  \<^verbatim>\<open>cpu.c\<close> and the interrupt descriptor table of \<^verbatim>\<open>interrupt.c\<close>, with the
  programming of the interrupt controller and the interval timer.

  Where the linker places a handler is an argument: \<open>entry\<close> gives the address
  of each handler.  Writes to I/O ports are lists of port and byte.
\<close>

unbundle bit_operations_syntax

section \<open>Descriptors\<close>

record descriptor =
  low_w :: u16
  high_w :: u16
  high_dw :: u32

definition SD_BASE_31_24 :: u32 where "SD_BASE_31_24 = 0xff000000"
definition SD_FLAGS :: u32 where "SD_FLAGS = 0x00f09f00"
definition SD_DPL :: u32 where "SD_DPL = 0x00006000"
definition SD_LIMIT_19_16 :: u32 where "SD_LIMIT_19_16 = 0x000f0000"
definition SD_BASE_23_16 :: u32 where "SD_BASE_23_16 = 0x000000ff"
definition GD_OFFSET_31_16 :: u32 where "GD_OFFSET_31_16 = 0xffff0000"
definition SD_G :: u32 where "SD_G = 0x00800000"
definition SD_DB :: u32 where "SD_DB = 0x00400000"
definition SD_P :: u32 where "SD_P = 0x00008000"
definition SD_S :: u32 where "SD_S = 0x00001000"
definition SD_CODE :: u32 where "SD_CODE = 0x00000800 OR SD_S"
definition CS_R :: u32 where "CS_R = 0x00000200"
definition SD_DATA :: u32 where "SD_DATA = SD_S"
definition DS_W :: u32 where "DS_W = 0x00000200"
definition SD_TSS :: u32 where "SD_TSS = 0x00000900"
definition GD_INT_32 :: u32 where "GD_INT_32 = 0x00000e00"

lemmas descriptor_bits = SD_BASE_31_24_def SD_FLAGS_def SD_DPL_def SD_LIMIT_19_16_def SD_BASE_23_16_def
  GD_OFFSET_31_16_def SD_G_def SD_DB_def SD_P_def SD_S_def SD_CODE_def CS_R_def SD_DATA_def DS_W_def
  SD_TSS_def GD_INT_32_def

definition sd_init :: "u32 \<Rightarrow> u32 \<Rightarrow> u32 \<Rightarrow> u32 \<Rightarrow> descriptor" where
  "sd_init base limit dpl flags =
     \<lparr>low_w = ucast limit,
      high_w = ucast base,
      high_dw = (base AND SD_BASE_31_24) OR (flags AND SD_FLAGS) OR (limit AND SD_LIMIT_19_16) OR
        (push_bit 13 dpl AND SD_DPL) OR (drop_bit 16 base AND SD_BASE_23_16)\<rparr>"

definition igate_init :: "u16 \<Rightarrow> u32 \<Rightarrow> u32 \<Rightarrow> u32 \<Rightarrow> descriptor" where
  "igate_init selector offset dpl flags =
     \<lparr>low_w = ucast offset,
      high_w = selector,
      high_dw = (offset AND GD_OFFSET_31_16) OR (flags AND SD_FLAGS) OR (push_bit 13 dpl AND SD_DPL) OR
        GD_INT_32\<rparr>"

definition segment_selector :: "u16 \<Rightarrow> u16 \<Rightarrow> u16 \<Rightarrow> u16" where
  "segment_selector index table_indicator rpl = push_bit 3 index OR push_bit 2 table_indicator OR rpl"

record pseudo_descriptor =
  pd_limit :: u16
  pd_table :: "descriptor list"


section \<open>Segments and the task state segment\<close>

definition PL_KERNEL :: u32 where "PL_KERNEL = 0"
definition PL_USER :: u32 where "PL_USER = 3"

definition GI_KERNEL_CODE :: nat where "GI_KERNEL_CODE = 1"
definition GI_KERNEL_DATA :: nat where "GI_KERNEL_DATA = 2"
definition GI_USER_CODE :: nat where "GI_USER_CODE = 3"
definition GI_USER_DATA :: nat where "GI_USER_DATA = 4"
definition GI_TSS :: nat where "GI_TSS = 5"

definition KERNEL_CS :: u16 where "KERNEL_CS = segment_selector (of_nat GI_KERNEL_CODE) 0 (ucast PL_KERNEL)"
definition KERNEL_DS :: u16 where "KERNEL_DS = segment_selector (of_nat GI_KERNEL_DATA) 0 (ucast PL_KERNEL)"
definition PROCESS_CS :: u16 where "PROCESS_CS = segment_selector (of_nat GI_USER_CODE) 0 (ucast PL_KERNEL)"
definition PROCESS_DS :: u16 where "PROCESS_DS = segment_selector (of_nat GI_USER_DATA) 0 (ucast PL_KERNEL)"
definition KERNEL_TSS :: u16 where "KERNEL_TSS = segment_selector (of_nat GI_TSS) 0 (ucast PL_KERNEL)"

lemmas selector_defs = PL_KERNEL_def PL_USER_def GI_KERNEL_CODE_def GI_KERNEL_DATA_def GI_USER_CODE_def
  GI_USER_DATA_def GI_TSS_def KERNEL_CS_def KERNEL_DS_def PROCESS_CS_def PROCESS_DS_def KERNEL_TSS_def
  segment_selector_def

definition data_sd :: "u32 \<Rightarrow> u32 \<Rightarrow> descriptor" where
  "data_sd dpl flags = sd_init 0x00000 0xfffff dpl (SD_G OR SD_P OR SD_DB OR flags)"

definition null_descriptor :: descriptor where
  "null_descriptor = \<lparr>low_w = 0, high_w = 0, high_dw = 0\<rparr>"

definition gdt :: "descriptor list" where
  "gdt =
     [null_descriptor,
      data_sd PL_KERNEL (SD_CODE OR CS_R),
      data_sd PL_KERNEL (SD_DATA OR DS_W),
      data_sd PL_USER (SD_CODE OR CS_R),
      data_sd PL_USER (SD_DATA OR DS_W),
      null_descriptor]"

definition gdt_desc :: pseudo_descriptor where
  "gdt_desc = \<lparr>pd_limit = of_nat (8 * length gdt), pd_table = gdt\<rparr>"

definition SIZEOF_TSS :: u32 where "SIZEOF_TSS = 104"

text \<open>\<open>tss\<close> is the address of the task state segment; the task register is loaded last.\<close>

definition init_tss :: "u32 \<Rightarrow> descriptor list \<Rightarrow> descriptor list \<times> u16" where
  "init_tss tss g = (g[GI_TSS := sd_init tss SIZEOF_TSS PL_KERNEL (SD_P OR SD_TSS)], KERNEL_TSS)"

definition init_cpu :: "u32 \<Rightarrow> descriptor list \<Rightarrow> descriptor list \<times> u16" where
  "init_cpu tss g = init_tss tss g"


section \<open>Interrupt vectors\<close>

definition IVEC_IRQ_0 :: nat where "IVEC_IRQ_0 = 32"
definition IVEC_SYSCALL :: nat where "IVEC_SYSCALL = 48"
definition IDT_SIZE :: nat where "IDT_SIZE = 49"

datatype isr =
    handle_unknown_generic | handle_div_zero | handle_debug_exc | handle_nmi | handle_breakpoint
  | handle_overflow | handle_bound_range_exc | handle_undefined_opcode | handle_no_math
  | handle_double_fault | handle_co_seg_overrun | handle_invalid_tss | handle_seg_not_present
  | handle_stack_seg_fault | handle_gen_protect_fault | page_fault_handler_entry
  | timer_isr_entry | handle_spurious_irq | keyboard_isr_entry
  | pci5_entry | pci9_entry | pci10_entry | pci11_entry | syscall_entry_interrupt

definition install_interrupt_handler ::
    "(isr \<Rightarrow> u32) \<Rightarrow> nat \<Rightarrow> isr \<Rightarrow> u32 \<Rightarrow> descriptor list \<Rightarrow> descriptor list" where
  "install_interrupt_handler entry int_num handler_fn required_pl idt =
     idt[int_num := igate_init KERNEL_CS (entry handler_fn) required_pl SD_P]"

definition exception_handlers :: "(nat \<times> isr) list" where
  "exception_handlers =
     [(0, handle_div_zero), (1, handle_debug_exc), (2, handle_nmi), (3, handle_breakpoint),
      (4, handle_overflow), (5, handle_bound_range_exc), (6, handle_undefined_opcode),
      (7, handle_no_math), (8, handle_double_fault), (9, handle_co_seg_overrun),
      (10, handle_invalid_tss), (11, handle_seg_not_present), (12, handle_stack_seg_fault),
      (13, handle_gen_protect_fault), (14, page_fault_handler_entry)]"

definition irq_handlers :: "(nat \<times> isr) list" where
  "irq_handlers =
     [(IVEC_IRQ_0 + 0, timer_isr_entry), (IVEC_IRQ_0 + 7, handle_spurious_irq),
      (IVEC_IRQ_0 + 1, keyboard_isr_entry), (IVEC_IRQ_0 + 5, pci5_entry), (IVEC_IRQ_0 + 9, pci9_entry),
      (IVEC_IRQ_0 + 10, pci10_entry), (IVEC_IRQ_0 + 11, pci11_entry)]"

definition install_all :: "(isr \<Rightarrow> u32) \<Rightarrow> (nat \<times> isr) list \<Rightarrow> descriptor list \<Rightarrow> descriptor list" where
  "install_all entry hs idt = fold (\<lambda>(n, h). install_interrupt_handler entry n h 0) hs idt"

definition init_idt :: "(isr \<Rightarrow> u32) \<Rightarrow> descriptor list \<Rightarrow> pseudo_descriptor" where
  "init_idt entry idt =
     (let idt = install_all entry (map (\<lambda>i. (i, handle_unknown_generic)) [0..<IDT_SIZE]) idt;
          idt = install_all entry exception_handlers idt;
          idt = install_all entry irq_handlers idt;
          idt = install_interrupt_handler entry IVEC_SYSCALL syscall_entry_interrupt 3 idt
      in \<lparr>pd_limit = of_nat (8 * IDT_SIZE), pd_table = idt\<rparr>)"


section \<open>Interrupt controller and timer\<close>

type_synonym io = "(u16 \<times> u8) list"

definition PORT_PIC_MASTER_CMD :: u16 where "PORT_PIC_MASTER_CMD = 0x20"
definition PORT_PIC_MASTER_DATA :: u16 where "PORT_PIC_MASTER_DATA = 0x21"
definition PORT_PIC_SLAVE_CMD :: u16 where "PORT_PIC_SLAVE_CMD = 0xa0"
definition PORT_PIC_SLAVE_DATA :: u16 where "PORT_PIC_SLAVE_DATA = 0xa1"
definition ICW1_INIT :: u8 where "ICW1_INIT = 0x10"
definition ICW1_NEED_ICW4 :: u8 where "ICW1_NEED_ICW4 = 1"
definition ICW4_MPM_8086 :: u8 where "ICW4_MPM_8086 = 1"
definition OCW2_EOI_SPECIFIC :: u8 where "OCW2_EOI_SPECIFIC = 0x60"
definition OCW3_READ_ISR :: u8 where "OCW3_READ_ISR = 0x0b"
definition IRQ_CASCADE :: u8 where "IRQ_CASCADE = 2"
definition IRQ_MAX :: u8 where "IRQ_MAX = 15"
definition IRQ_MASTER_LOWEST_PRIORITY :: u8 where "IRQ_MASTER_LOWEST_PRIORITY = 7"
definition IRQ_SLAVE_LOWEST_PRIORITY :: u8 where "IRQ_SLAVE_LOWEST_PRIORITY = 15"

definition pic_init_single :: "u16 \<Rightarrow> u8 \<Rightarrow> u8 \<Rightarrow> io" where
  "pic_init_single cmd_port irq_start icw3 =
     (let data_port = cmd_port + 1 in
      [(cmd_port, ICW1_INIT OR ICW1_NEED_ICW4), (data_port, irq_start), (data_port, icw3),
       (data_port, ICW4_MPM_8086)])"

definition pic_init :: "u8 \<Rightarrow> io" where
  "pic_init irq_start =
     pic_init_single PORT_PIC_MASTER_CMD irq_start (push_bit (unat IRQ_CASCADE) 1) @
     pic_init_single PORT_PIC_SLAVE_CMD (irq_start + IRQ_SLAVE_START) IRQ_CASCADE"

definition pic_send_eoi :: "u8 \<Rightarrow> io res" where
  "pic_send_eoi irq =
     (if \<not> irq \<le> IRQ_MAX then Inl AssertFail
      else if irq < IRQ_SLAVE_START then Inr [(PORT_PIC_MASTER_CMD, OCW2_EOI_SPECIFIC OR irq)]
      else Inr [(PORT_PIC_SLAVE_CMD, OCW2_EOI_SPECIFIC OR (irq - IRQ_SLAVE_START)),
                (PORT_PIC_MASTER_CMD, OCW2_EOI_SPECIFIC OR IRQ_CASCADE)])"

text \<open>\<open>inb\<close> gives the byte a port returns after the writes done so far.\<close>

definition pic_read_reg :: "(u16 \<Rightarrow> io \<Rightarrow> u8) \<Rightarrow> u16 \<Rightarrow> u8 \<Rightarrow> u8 \<times> io" where
  "pic_read_reg inb port ocw3 = (inb port [(port, ocw3)], [(port, ocw3)])"

definition pic_check_spurious :: "(u16 \<Rightarrow> io \<Rightarrow> u8) \<Rightarrow> u8 \<Rightarrow> (bool \<times> io) res" where
  "pic_check_spurious inb irq =
     (let isr_lowest = push_bit (unat IRQ_MASTER_LOWEST_PRIORITY) 1 in
      if irq = IRQ_MASTER_LOWEST_PRIORITY then
        let (v, w) = pic_read_reg inb PORT_PIC_MASTER_CMD OCW3_READ_ISR
        in Inr (v AND isr_lowest = 0, w)
      else if irq = IRQ_SLAVE_LOWEST_PRIORITY then
        let (v, w) = pic_read_reg inb PORT_PIC_SLAVE_CMD OCW3_READ_ISR;
            is_spurious = (v AND isr_lowest = 0)
        in if is_spurious then bindR (pic_send_eoi IRQ_CASCADE) (\<lambda>e. Inr (is_spurious, w @ e))
           else Inr (is_spurious, w)
      else Inr (False, []))"

text \<open>The handler of interrupt request 7: the new count of spurious requests, or the kernel aborts.\<close>

definition handle_spurious :: "(u16 \<Rightarrow> io \<Rightarrow> u8) \<Rightarrow> int \<Rightarrow> int res" where
  "handle_spurious inb spurious_irq_ct =
     bindR (pic_check_spurious inb IRQ_MASTER_LOWEST_PRIORITY)
       (\<lambda>(is_spurious, _). if is_spurious then Inr (spurious_irq_ct + 1) else Inl Abortk)"

definition IRQS_TO_ENABLE :: u16 where
  "IRQS_TO_ENABLE = fold (\<lambda>i m. m OR push_bit i 1) [2, 7, 0, 1, 5, 9, 10, 11] 0"

definition init_int_controller :: io where
  "init_int_controller =
     pic_init (of_nat IVEC_IRQ_0) @
     (let mask = NOT IRQS_TO_ENABLE in
      [(PORT_PIC_MASTER_DATA, ucast mask), (PORT_PIC_SLAVE_DATA, ucast (drop_bit 8 mask))]) @
     [(0x4d0, 0x28), (0x4d1, 0x0e)]"

definition PIT_BASE_HZ :: u32 where "PIT_BASE_HZ = 1193180"
definition PREEMPT_IRQ_TARGET_HZ :: u32 where "PREEMPT_IRQ_TARGET_HZ = 100"

definition pit_cmd_byte :: "u8 \<Rightarrow> u8 \<Rightarrow> u8 \<Rightarrow> u8 \<Rightarrow> u8" where
  "pit_cmd_byte cntr rw mode bcd = push_bit 6 cntr OR push_bit 4 rw OR push_bit 1 mode OR bcd"

definition pit_set_irq_freq :: "u8 \<Rightarrow> u32 \<Rightarrow> u32 \<times> io" where
  "pit_set_irq_freq mode target_hz =
     (let divisor = PIT_BASE_HZ div target_hz in
      (divisor, [(0x43, pit_cmd_byte 0 3 mode 0), (0x40, ucast divisor), (0x40, ucast (drop_bit 8 divisor))]))"

definition init_pit :: io where
  "init_pit = snd (pit_set_irq_freq 3 PREEMPT_IRQ_TARGET_HZ)"

end
