(* ===== verification/InterruptProps.thy ===== *)
theory InterruptProps
  imports Interrupts
begin

text \<open>
  What the processor reads from the descriptors, and the entry points and
  privileges the two descriptor tables establish.
\<close>

unbundle bit_operations_syntax











lemma install_nth:
  "v < length idt \<Longrightarrow> install_interrupt_handler entry n h pl idt ! v =
     (if v = n then igate_init KERNEL_CS (entry h) pl SD_P else idt ! v)"
  "length (install_interrupt_handler entry n h pl idt) = length idt"
  by (auto simp: install_interrupt_handler_def)

lemma install_all_length [simp]: "length (install_all entry hs idt) = length idt"
  unfolding install_all_def by (induction hs arbitrary: idt) (auto simp: install_nth(2))




end
