(* ===== verification/Spec2Isabelle.thy ===== *)
theory Spec2Isabelle
  imports TaskProps SpaceProps LibcProps TermProps KeyboardProps InterruptProps
begin

text \<open>
  Verification development for a small i386 teaching kernel.
\<close>

end
